(* ===== verification/Prelude.thy ===== *)
theory Prelude
  imports Main
begin

section \<open>Prelude: Go errors, strings and the collections shared by all components\<close>

text \<open>
  What every component of the task orchestrator uses of Go and of its standard library:
  error values with their text and the chain that errors.Is walks, the byte strings of
  package strings (Split, Contains), the decimal verb of fmt.Sprintf and strconv.Atoi.
  A Go string is a list of bytes, here a \<open>string\<close> (a \<open>char list\<close>); a Go int is an
  \<open>int\<close>, with its 64-bit range written out where a value enters the program.
\<close>

named_theorems op_defs \<open>definitions of the operations of a component, unfolded together\<close>
named_theorems frame_simps \<open>what an operation leaves unchanged\<close>

subsection \<open>Error values\<close>

text \<open>
  An error is a sentinel of a package (compared by identity), a fresh value of errors.New or
  of fmt.Errorf without a wrapped error, an error wrapped by the verb \<open>w\<close> of fmt.Errorf, a
  value of the type Error of lib/pq (code and message), or an error of any other library: its
  text and the errors it wraps.
\<close>

datatype goerr =
    ErrInvalidToken
  | ErrExpiredToken
  | ErrNoRows
  | ErrTxDone
  | ErrTokenExpired
  | ErrorString string
  | Wrapped string goerr
  | PqError string string
  | LibError string "goerr list"

type_synonym 'a result = "goerr + 'a"

text \<open>The method Error of each of them.\<close>

primrec err_text :: "goerr \<Rightarrow> string" where
  "err_text ErrInvalidToken = ''invalid token''"
| "err_text ErrExpiredToken = ''token expired''"
| "err_text ErrNoRows = ''sql: no rows in result set''"
| "err_text ErrTxDone = ''sql: transaction has already been committed or rolled back''"
| "err_text ErrTokenExpired = ''token is expired''"
| "err_text (ErrorString s) = s"
| "err_text (Wrapped s e) = s @ err_text e"
| "err_text (PqError code msg) = ''pq: '' @ msg"
| "err_text (LibError s es) = s"

text \<open>errors.Is for a sentinel target: the error itself or anything it wraps.\<close>

fun errors_Is :: "goerr \<Rightarrow> goerr \<Rightarrow> bool" where
  "errors_Is (Wrapped s e) t = (Wrapped s e = t \<or> errors_Is e t)"
| "errors_Is (LibError s es) t = (LibError s es = t \<or> list_ex (\<lambda>e. errors_Is e t) es)"
| "errors_Is e t = (e = t)"

lemma errors_Is_refl [simp]: "errors_Is e e"
  by (cases e) auto

subsection \<open>Package strings\<close>

text \<open>strings.Split with a separator of one byte: never empty, one piece more than separators.\<close>

primrec strings_Split :: "char \<Rightarrow> string \<Rightarrow> string list" where
  "strings_Split c [] = [[]]"
| "strings_Split c (x # xs) =
     (if x = c then [] # strings_Split c xs
      else (case strings_Split c xs of [] \<Rightarrow> [[x]] | p # ps \<Rightarrow> (x # p) # ps))"

lemma strings_Split_not_Nil [simp]: "strings_Split c s \<noteq> []"
  by (induction s) (auto split: list.splits)

lemma strings_Split_no_sep: "c \<notin> set s \<Longrightarrow> strings_Split c s = [s]"
  by (induction s) auto

lemma strings_Split_append:
  "c \<notin> set a \<Longrightarrow> strings_Split c (a @ c # s) = a # strings_Split c s"
  by (induction a) auto

lemma strings_Split_single: "strings_Split c s = [a] \<longleftrightarrow> a = s \<and> c \<notin> set s"
proof (induction s arbitrary: a)
  case Nil
  then show ?case by auto
next
  case (Cons x xs)
  show ?case
  proof (cases "strings_Split c xs")
    case Nil
    then show ?thesis by simp
  next
    case (Cons p ps)
    with Cons.IH [of p] Cons.IH [of xs] show ?thesis by auto
  qed
qed

text \<open>Splitting into exactly two pieces: the separator occurs exactly once.\<close>

lemma strings_Split_pair:
  "strings_Split c s = [a, b] \<longleftrightarrow> s = a @ c # b \<and> c \<notin> set a \<and> c \<notin> set b"
proof
  assume "s = a @ c # b \<and> c \<notin> set a \<and> c \<notin> set b"
  then show "strings_Split c s = [a, b]"
    by (simp add: strings_Split_append strings_Split_no_sep)
next
  show "strings_Split c s = [a, b] \<Longrightarrow> s = a @ c # b \<and> c \<notin> set a \<and> c \<notin> set b"
  proof (induction s arbitrary: a)
    case Nil
    then show ?case by simp
  next
    case (Cons x xs)
    show ?case
    proof (cases "x = c")
      case True
      with Cons.prems show ?thesis by (simp add: strings_Split_single)
    next
      case False
      with Cons.prems obtain a' where "a = x # a'" "strings_Split c xs = [a', b]"
        by (cases "strings_Split c xs") auto
      with Cons.IH [of a'] False show ?thesis by auto
    qed
  qed
qed

text \<open>strings.Contains.\<close>

fun strings_Contains :: "string \<Rightarrow> string \<Rightarrow> bool" where
  "strings_Contains [] sub = (sub = [])"
| "strings_Contains (x # xs) sub =
     (take (length sub) (x # xs) = sub \<or> strings_Contains xs sub)"

lemma strings_Contains_prefix: "take (length sub) s = sub \<Longrightarrow> strings_Contains s sub"
  by (cases s) auto

lemma strings_Contains_append: "strings_Contains (pre @ sub @ post) sub"
  by (induction pre) (simp_all add: strings_Contains_prefix)

subsection \<open>Decimal numbers: the verb d of fmt and strconv.Atoi\<close>

definition digit_char :: "nat \<Rightarrow> char" where
  "digit_char n = char_of (48 + n)"

definition digit_value :: "char \<Rightarrow> nat" where
  "digit_value c = of_char c - 48"

definition is_digit :: "char \<Rightarrow> bool" where
  "is_digit c \<longleftrightarrow> 48 \<le> (of_char c :: nat) \<and> (of_char c :: nat) \<le> 57"

fun dec_digits :: "nat \<Rightarrow> string" where
  "dec_digits n = (if n < 10 then [digit_char n]
                   else dec_digits (n div 10) @ [digit_char (n mod 10)])"

declare dec_digits.simps [simp del]

definition dec_value :: "string \<Rightarrow> nat" where
  "dec_value s = foldl (\<lambda>a c. 10 * a + digit_value c) 0 s"

definition fmt_d :: "int \<Rightarrow> string" where
  "fmt_d i = (if i < 0 then CHR ''-'' # dec_digits (nat (- i)) else dec_digits (nat i))"

lemma digit_value_digit_char [simp]: "n < 10 \<Longrightarrow> digit_value (digit_char n) = n"
  by (simp add: digit_value_def digit_char_def)

lemma is_digit_digit_char [simp]: "n < 10 \<Longrightarrow> is_digit (digit_char n)"
  by (simp add: is_digit_def digit_char_def)

lemma is_digit_no_sign: "is_digit c \<Longrightarrow> c \<noteq> CHR ''-'' \<and> c \<noteq> CHR ''+''"
  by (auto simp: is_digit_def)

lemma dec_value_snoc: "dec_value (s @ [c]) = 10 * dec_value s + digit_value c"
  by (simp add: dec_value_def)

lemma dec_value_digits [simp]: "dec_value (dec_digits n) = n"
proof (induction n rule: dec_digits.induct)
  case (1 n)
  show ?case
  proof (cases "n < 10")
    case True
    then show ?thesis by (subst dec_digits.simps) (simp add: dec_value_def)
  next
    case False
    with 1 have "dec_value (dec_digits (n div 10)) = n div 10" by simp
    with False show ?thesis
      by (subst dec_digits.simps) (simp add: dec_value_snoc)
  qed
qed

lemma dec_digits_digits: "\<forall>c \<in> set (dec_digits n). is_digit c"
proof (induction n rule: dec_digits.induct)
  case (1 n)
  show ?case
  proof (cases "n < 10")
    case True
    then show ?thesis by (subst dec_digits.simps) simp
  next
    case False
    with 1 have "\<forall>c \<in> set (dec_digits (n div 10)). is_digit c" by simp
    with False show ?thesis by (subst dec_digits.simps) simp
  qed
qed

lemma dec_digits_not_Nil [simp]: "dec_digits n \<noteq> []"
  by (subst dec_digits.simps) simp

lemma dec_digits_inject [simp]: "dec_digits m = dec_digits n \<longleftrightarrow> m = n"
  by (metis dec_value_digits)

lemma hd_dec_digits: "is_digit (hd (dec_digits n))"
  using dec_digits_digits by (metis dec_digits_not_Nil hd_in_set)

lemma minus_neq_dec_digits [simp]:
  "CHR ''-'' # s \<noteq> dec_digits n" "dec_digits n \<noteq> CHR ''-'' # s"
  using hd_dec_digits [of n] is_digit_no_sign by (metis list.sel(1))+

lemma fmt_d_inject [simp]: "fmt_d i = fmt_d j \<longleftrightarrow> i = j"
  by (auto simp: fmt_d_def eq_nat_nat_iff)

lemma fmt_d_chars: "\<forall>c \<in> set (fmt_d i). is_digit c \<or> c = CHR ''-''"
  using dec_digits_digits by (auto simp: fmt_d_def)

definition in_int64 :: "int \<Rightarrow> bool" where
  "in_int64 i \<longleftrightarrow> - (2 ^ 63) \<le> i \<and> i < 2 ^ 63"

text \<open>
  strconv.Atoi: an optional sign, then at least one digit and nothing else; a value outside
  the range of a 64-bit int is a range error.
\<close>

definition atoi_sign :: "string \<Rightarrow> bool \<times> string" where
  "atoi_sign s = (case s of [] \<Rightarrow> (False, [])
     | c # r \<Rightarrow> if c = CHR ''-'' then (True, r)
               else if c = CHR ''+'' then (False, r) else (False, s))"

definition strconv_Atoi :: "string \<Rightarrow> int result" where
  "strconv_Atoi s =
     (let (neg, ds) = atoi_sign s in
      if ds = [] \<or> \<not> list_all is_digit ds then Inl (ErrorString ''invalid syntax'')
      else let v = (if neg then - int (dec_value ds) else int (dec_value ds)) in
           if in_int64 v then Inr v else Inl (ErrorString ''value out of range''))"

lemma atoi_sign_digits: "atoi_sign (dec_digits n) = (False, dec_digits n)"
  using hd_dec_digits [of n] is_digit_no_sign
  by (cases "dec_digits n") (auto simp: atoi_sign_def)

lemma atoi_fmt_d: "in_int64 i \<Longrightarrow> strconv_Atoi (fmt_d i) = Inr i"
proof (cases "i < 0")
  case True
  moreover assume "in_int64 i"
  ultimately show ?thesis
    using dec_digits_digits [of "nat (- i)"]
    by (simp add: strconv_Atoi_def fmt_d_def atoi_sign_def list_all_iff)
next
  case False
  moreover assume "in_int64 i"
  ultimately show ?thesis
    using dec_digits_digits [of "nat i"]
    by (simp add: strconv_Atoi_def fmt_d_def atoi_sign_digits list_all_iff)
qed

lemma atoi_range: "strconv_Atoi s = Inr i \<Longrightarrow> in_int64 i"
  by (auto simp: strconv_Atoi_def Let_def split: prod.splits if_splits)

subsection \<open>Slices\<close>

text \<open>
  A slice whose being nil can be observed: None is the nil slice. Appending to the nil slice
  gives a slice that is nil exactly when nothing was appended.
\<close>

definition slice_elems :: "'a list option \<Rightarrow> 'a list" where
  "slice_elems s = (case s of None \<Rightarrow> [] | Some xs \<Rightarrow> xs)"

definition appended :: "'a list \<Rightarrow> 'a list option" where
  "appended xs = (if xs = [] then None else Some xs)"

lemma slice_elems_simps [simp]:
  "slice_elems None = []" "slice_elems (Some xs) = xs" "slice_elems (appended xs) = xs"
  by (simp_all add: slice_elems_def appended_def)

lemma appended_simps [simp]: "appended [] = None" "appended (x # xs) = Some (x # xs)"
  by (simp_all add: appended_def)

subsection \<open>Lists of records with a key\<close>

text \<open>The row of a table with a given key, and an update of the rows with that key.\<close>

definition row_at :: "('r \<Rightarrow> 'k) \<Rightarrow> 'r list \<Rightarrow> 'k \<Rightarrow> 'r option" where
  "row_at key rs k = find (\<lambda>r. key r = k) rs"

definition update_at :: "('r \<Rightarrow> 'k) \<Rightarrow> 'k \<Rightarrow> ('r \<Rightarrow> 'r) \<Rightarrow> 'r list \<Rightarrow> 'r list" where
  "update_at key k f rs = map (\<lambda>r. if key r = k then f r else r) rs"

lemma row_at_Nil [simp]: "row_at key [] k = None"
  by (simp add: row_at_def)

lemma row_at_Cons [simp]:
  "row_at key (r # rs) k = (if key r = k then Some r else row_at key rs k)"
  by (simp add: row_at_def)

lemma row_at_SomeD: "row_at key rs k = Some r \<Longrightarrow> r \<in> set rs \<and> key r = k"
  by (induction rs) (auto split: if_splits)

lemma row_at_None_iff: "row_at key rs k = None \<longleftrightarrow> k \<notin> key ` set rs"
  by (induction rs) auto

lemma row_at_append:
  "row_at key (rs @ ss) k = (case row_at key rs k of None \<Rightarrow> row_at key ss k | Some r \<Rightarrow> Some r)"
  by (induction rs) auto

lemma row_at_in: "distinct (map key rs) \<Longrightarrow> r \<in> set rs \<Longrightarrow> row_at key rs (key r) = Some r"
  by (induction rs) auto

lemma row_at_update:
  assumes "\<And>r. key (f r) = key r"
  shows "row_at key (update_at key k f rs) j =
    (if j = k then map_option f (row_at key rs k) else row_at key rs j)"
  unfolding update_at_def by (induction rs) (auto simp: assms)

lemma keys_update_at:
  assumes "\<And>r. key (f r) = key r"
  shows "map key (update_at key k f rs) = map key rs"
  unfolding update_at_def by (induction rs) (auto simp: assms)

end
