(* ===== verification/Go_Json.thy ===== *)
theory Go_Json
  imports Prelude
begin

section \<open>Go's quoting and JSON decoding\<close>

text \<open>
  What internal/task/service.go and internal/worker/worker.go use of the standard library
  around the message body: the verb q of fmt (strconv.Quote), with the UTF-8 coding of runes
  under it, and json.Unmarshal into a struct of ints and strings. Whether a rune beyond
  ASCII is printable is a table of package unicode, here a parameter \<open>is_print\<close>.
  The string encoder of json.Marshal, which the task cache uses, is here too.
\<close>

subsection \<open>UTF-8\<close>

definition byte :: "nat \<Rightarrow> char" where
  "byte n = char_of n"

definition cont_bits :: "char \<Rightarrow> nat option" where
  "cont_bits c = (if 128 \<le> (of_char c :: nat) \<and> (of_char c :: nat) < 192
                  then Some (of_char c - 128) else None)"

definition is_surrogate :: "nat \<Rightarrow> bool" where
  "is_surrogate r \<longleftrightarrow> 55296 \<le> r \<and> r < 57344"

definition valid_rune :: "nat \<Rightarrow> bool" where
  "valid_rune r \<longleftrightarrow> r < 1114112 \<and> \<not> is_surrogate r"

definition rune_error :: nat where
  "rune_error = 65533"

text \<open>utf8.AppendRune for a valid rune.\<close>

definition encode_rune :: "nat \<Rightarrow> string" where
  "encode_rune r =
     (if r < 128 then [byte r]
      else if r < 2048 then [byte (192 + r div 64), byte (128 + r mod 64)]
      else if r < 65536 then
        [byte (224 + r div 4096), byte (128 + r div 64 mod 64), byte (128 + r mod 64)]
      else [byte (240 + r div 262144), byte (128 + r div 4096 mod 64),
            byte (128 + r div 64 mod 64), byte (128 + r mod 64)])"

text \<open>
  utf8.DecodeRuneInString on a nonempty string: the rune and its width; a byte that starts
  no shortest-form encoding of a valid rune is the error rune with width 1.
\<close>

definition decode_rune :: "char \<Rightarrow> string \<Rightarrow> nat \<times> nat" where
  "decode_rune c s =
     (let b = (of_char c :: nat); err = (rune_error, 1) in
      if b < 128 then (b, 1)
      else if b < 192 then err
      else if b < 224 then
        (case s of c1 # _ \<Rightarrow>
           (case cont_bits c1 of Some x \<Rightarrow>
              let r = (b - 192) * 64 + x in if 128 \<le> r then (r, 2) else err
            | None \<Rightarrow> err)
         | _ \<Rightarrow> err)
      else if b < 240 then
        (case s of c1 # c2 # _ \<Rightarrow>
           (case (cont_bits c1, cont_bits c2) of (Some x, Some y) \<Rightarrow>
              let r = (b - 224) * 4096 + x * 64 + y in
              if 2048 \<le> r \<and> \<not> is_surrogate r then (r, 3) else err
            | _ \<Rightarrow> err)
         | _ \<Rightarrow> err)
      else if b < 248 then
        (case s of c1 # c2 # c3 # _ \<Rightarrow>
           (case (cont_bits c1, cont_bits c2, cont_bits c3) of (Some x, Some y, Some z) \<Rightarrow>
              let r = (b - 240) * 262144 + x * 4096 + y * 64 + z in
              if 65536 \<le> r \<and> r < 1114112 then (r, 4) else err
            | _ \<Rightarrow> err)
         | _ \<Rightarrow> err)
      else err)"

text \<open>Whether a rune starts here, and utf8.ValidString.\<close>

definition decodes :: "char \<Rightarrow> string \<Rightarrow> bool" where
  "decodes c s \<longleftrightarrow> decode_rune c s \<noteq> (rune_error, 1)"

fun valid_utf8 :: "string \<Rightarrow> bool" where
  "valid_utf8 [] = True"
| "valid_utf8 (c # s) = (decodes c s \<and> valid_utf8 (drop (snd (decode_rune c s) - 1) s))"

declare valid_utf8.simps(2) [simp del]

subsection \<open>strconv.Quote\<close>

definition hex_digit :: "nat \<Rightarrow> char" where
  "hex_digit n = (if n < 10 then byte (48 + n) else byte (87 + n))"

definition hex2 :: "nat \<Rightarrow> string" where
  "hex2 n = [hex_digit (n div 16 mod 16), hex_digit (n mod 16)]"

definition hex4 :: "nat \<Rightarrow> string" where
  "hex4 n = hex2 (n div 256) @ hex2 (n mod 256)"

definition hex8 :: "nat \<Rightarrow> string" where
  "hex8 n = hex4 (n div 65536) @ hex4 (n mod 65536)"

definition rune_print :: "(nat \<Rightarrow> bool) \<Rightarrow> nat \<Rightarrow> bool" where
  "rune_print is_print r \<longleftrightarrow> (if r < 128 then 32 \<le> r \<and> r < 127 else is_print r)"

text \<open>The escape of one rune, in the order of the cases of appendEscapedRune.\<close>

definition escape_rune :: "(nat \<Rightarrow> bool) \<Rightarrow> nat \<Rightarrow> string" where
  "escape_rune is_print r =
     (if r = 34 \<or> r = 92 then [byte 92, byte r]
      else if rune_print is_print r then encode_rune r
      else if r = 7 then [byte 92, CHR ''a'']
      else if r = 8 then [byte 92, CHR ''b'']
      else if r = 12 then [byte 92, CHR ''f'']
      else if r = 10 then [byte 92, CHR ''n'']
      else if r = 13 then [byte 92, CHR ''r'']
      else if r = 9 then [byte 92, CHR ''t'']
      else if r = 11 then [byte 92, CHR ''v'']
      else if r < 32 \<or> r = 127 then [byte 92, CHR ''x''] @ hex2 r
      else if r < 65536 then [byte 92, CHR ''u''] @ hex4 r
      else [byte 92, CHR ''U''] @ hex8 r)"

fun quote_body :: "(nat \<Rightarrow> bool) \<Rightarrow> string \<Rightarrow> string" where
  "quote_body is_print [] = []"
| "quote_body is_print (c # s) =
     (let (r, w) = decode_rune c s in
      if w = 1 \<and> r = rune_error then [byte 92, CHR ''x''] @ hex2 (of_char c) @ quote_body is_print s
      else escape_rune is_print r @ quote_body is_print (drop (w - 1) s))"

definition strconv_Quote :: "(nat \<Rightarrow> bool) \<Rightarrow> string \<Rightarrow> string" where
  "strconv_Quote is_print s = [byte 34] @ quote_body is_print s @ [byte 34]"

subsection \<open>JSON documents\<close>

text \<open>
  A number keeps its literal, a string its literal between the quotes and its value, an object
  its members in the order of the document.
\<close>

datatype json = JNull | JBool bool | JNum string | JStr string string
  | JArr "json list" | JObj "(string \<times> json) list"

definition is_ws :: "char \<Rightarrow> bool" where
  "is_ws c \<longleftrightarrow> c = byte 32 \<or> c = byte 9 \<or> c = byte 10 \<or> c = byte 13"

definition skip_ws :: "string \<Rightarrow> string" where
  "skip_ws s = dropWhile is_ws s"

definition hex_value :: "char \<Rightarrow> nat option" where
  "hex_value c =
     (let n = (of_char c :: nat) in
      if 48 \<le> n \<and> n \<le> 57 then Some (n - 48)
      else if 97 \<le> n \<and> n \<le> 102 then Some (n - 87)
      else if 65 \<le> n \<and> n \<le> 70 then Some (n - 55) else None)"

definition hex4_value :: "char \<Rightarrow> char \<Rightarrow> char \<Rightarrow> char \<Rightarrow> nat option" where
  "hex4_value a b c d =
     (case (hex_value a, hex_value b, hex_value c, hex_value d) of
        (Some w, Some x, Some y, Some z) \<Rightarrow> Some (((w * 16 + x) * 16 + y) * 16 + z)
      | _ \<Rightarrow> None)"

definition simple_escape :: "char \<Rightarrow> char option" where
  "simple_escape c =
     (if c = byte 34 \<or> c = byte 92 \<or> c = CHR ''/'' then Some c
      else if c = CHR ''b'' then Some (byte 8)
      else if c = CHR ''f'' then Some (byte 12)
      else if c = CHR ''n'' then Some (byte 10)
      else if c = CHR ''r'' then Some (byte 13)
      else if c = CHR ''t'' then Some (byte 9) else None)"

text \<open>utf16.DecodeRune: the rune of a surrogate pair.\<close>

definition surrogate_pair :: "nat \<Rightarrow> nat \<Rightarrow> nat option" where
  "surrogate_pair r1 r2 =
     (if 55296 \<le> r1 \<and> r1 < 56320 \<and> 56320 \<le> r2 \<and> r2 < 57344
      then Some ((r1 - 55296) * 1024 + (r2 - 56320) + 65536) else None)"

definition prepend :: "string \<Rightarrow> (string \<times> string) option \<Rightarrow> (string \<times> string) option" where
  "prepend p x = map_option (\<lambda>(v, rest). (p @ v, rest)) x"

text \<open>
  The rest of a string literal after its opening quote: the decoded value and what follows
  the closing quote. A control character, an unknown escape or a missing quote is an error;
  a lone surrogate escape and a byte that is no UTF-8 become the error rune.
\<close>

fun json_string :: "string \<Rightarrow> (string \<times> string) option" where
  "json_string [] = None"
| "json_string (c # s) =
     (if c = byte 34 then Some ([], s)
      else if c = byte 92 then
        (case s of [] \<Rightarrow> None
         | e # s1 \<Rightarrow>
             (case simple_escape e of
                Some x \<Rightarrow> prepend [x] (json_string s1)
              | None \<Rightarrow>
                  if e \<noteq> CHR ''u'' then None
                  else (case s1 of x1 # x2 # x3 # x4 # s2 \<Rightarrow>
                    (case hex4_value x1 x2 x3 x4 of
                       None \<Rightarrow> None
                     | Some r \<Rightarrow>
                         if \<not> is_surrogate r then prepend (encode_rune r) (json_string s2)
                         else (case s2 of
                             y0 # yu # y1 # y2 # y3 # y4 # s3 \<Rightarrow>
                               (case (if y0 = byte 92 \<and> yu = CHR ''u'' then hex4_value y1 y2 y3 y4 else None) of
                                  Some r2 \<Rightarrow>
                                    (case surrogate_pair r r2 of
                                       Some rr \<Rightarrow> prepend (encode_rune rr) (json_string s3)
                                     | None \<Rightarrow> prepend (encode_rune rune_error) (json_string s2))
                                | None \<Rightarrow> prepend (encode_rune rune_error) (json_string s2))
                           | _ \<Rightarrow> prepend (encode_rune rune_error) (json_string s2)))
                   | _ \<Rightarrow> None)))
      else if (of_char c :: nat) < 32 then None
      else (let (r, w) = decode_rune c s in
            prepend (encode_rune r) (json_string (drop (w - 1) s))))"

declare json_string.simps(2) [simp del]

text \<open>A number literal: the longest prefix of the form the grammar allows.\<close>

definition span_digits :: "string \<Rightarrow> string \<times> string" where
  "span_digits s = (takeWhile is_digit s, dropWhile is_digit s)"

definition json_frac :: "string \<Rightarrow> (string \<times> string) option" where
  "json_frac s =
     (case s of c # s1 \<Rightarrow>
        if c = CHR ''.'' then
          (case span_digits s1 of (ds, s2) \<Rightarrow> if ds = [] then None else Some (c # ds, s2))
        else Some ([], s)
      | [] \<Rightarrow> Some ([], s))"

definition json_exp :: "string \<Rightarrow> (string \<times> string) option" where
  "json_exp s =
     (case s of c # s1 \<Rightarrow>
        if c = CHR ''e'' \<or> c = CHR ''E'' then
          (let (sg, s2) = (case s1 of d # s2 \<Rightarrow>
                             if d = CHR ''+'' \<or> d = CHR ''-'' then ([d], s2) else ([], s1)
                           | [] \<Rightarrow> ([], s1)) in
           case span_digits s2 of (ds, s3) \<Rightarrow>
             if ds = [] then None else Some (c # sg @ ds, s3))
        else Some ([], s)
      | [] \<Rightarrow> Some ([], s))"

definition json_int :: "string \<Rightarrow> (string \<times> string) option" where
  "json_int s =
     (case span_digits s of (ds, s1) \<Rightarrow>
        if ds = [] then None
        else if hd ds = CHR ''0'' then Some ([CHR ''0''], tl s)
        else Some (ds, s1))"

definition json_number :: "string \<Rightarrow> (string \<times> string) option" where
  "json_number s =
     (let (sg, s1) = (case s of c # r \<Rightarrow> if c = CHR ''-'' then ([c], r) else ([], s)
                      | [] \<Rightarrow> ([], s)) in
      case json_int s1 of None \<Rightarrow> None | Some (i, s2) \<Rightarrow>
      case json_frac s2 of None \<Rightarrow> None | Some (f, s3) \<Rightarrow>
      case json_exp s3 of None \<Rightarrow> None | Some (x, s4) \<Rightarrow> Some (sg @ i @ f @ x, s4))"

definition json_literal :: "string \<Rightarrow> json \<Rightarrow> string \<Rightarrow> (json \<times> string) option" where
  "json_literal lit v s = (if take (length lit) s = lit then Some (v, drop (length lit) s) else None)"

text \<open>What the literal of a string is when \<open>r\<close> follows its opening and \<open>t\<close> its closing quote.\<close>

definition literal_of :: "string \<Rightarrow> string \<Rightarrow> string" where
  "literal_of r t = take (length r - Suc (length t)) r"

text \<open>
  A value, the members of an array after their bracket and of an object after its brace; \<open>d\<close>
  is how many more arrays and objects may be opened. Each call spends one unit of fuel; a call
  chain makes at most two calls per byte of the document.
\<close>

fun json_value :: "nat \<Rightarrow> int \<Rightarrow> string \<Rightarrow> (json \<times> string) option"
  and json_elems :: "nat \<Rightarrow> int \<Rightarrow> string \<Rightarrow> (json list \<times> string) option"
  and json_members :: "nat \<Rightarrow> int \<Rightarrow> string \<Rightarrow> ((string \<times> json) list \<times> string) option" where
  "json_value 0 d s = None"
| "json_value (Suc n) d s =
     (case skip_ws s of [] \<Rightarrow> None
      | c # r \<Rightarrow>
          if c = CHR ''n'' then json_literal ''null'' JNull (c # r)
          else if c = CHR ''t'' then json_literal ''true'' (JBool True) (c # r)
          else if c = CHR ''f'' then json_literal ''false'' (JBool False) (c # r)
          else if c = byte 34 then map_option (\<lambda>(v, t). (JStr (literal_of r t) v, t)) (json_string r)
          else if c = CHR ''['' then
            (if d \<le> 0 then None
             else (case skip_ws r of e # t \<Rightarrow>
               if e = CHR '']'' then Some (JArr [], t)
               else map_option (\<lambda>(vs, t). (JArr vs, t)) (json_elems n (d - 1) (e # t))
             | [] \<Rightarrow> None))
          else if c = CHR ''{'' then
            (if d \<le> 0 then None
             else (case skip_ws r of e # t \<Rightarrow>
               if e = CHR ''}'' then Some (JObj [], t)
               else map_option (\<lambda>(ms, t). (JObj ms, t)) (json_members n (d - 1) (e # t))
             | [] \<Rightarrow> None))
          else map_option (\<lambda>(v, t). (JNum v, t)) (json_number (c # r)))"
| "json_elems 0 d s = None"
| "json_elems (Suc n) d s =
     (case json_value n d s of None \<Rightarrow> None
      | Some (v, t) \<Rightarrow>
          (case skip_ws t of [] \<Rightarrow> None
           | c # r \<Rightarrow>
               if c = CHR '','' then map_option (\<lambda>(vs, u). (v # vs, u)) (json_elems n d r)
               else if c = CHR '']'' then Some ([v], r) else None))"
| "json_members 0 d s = None"
| "json_members (Suc n) d s =
     (case skip_ws s of [] \<Rightarrow> None
      | q # s1 \<Rightarrow>
          if q \<noteq> byte 34 then None
          else (case json_string s1 of None \<Rightarrow> None
            | Some (k, s2) \<Rightarrow>
                (case skip_ws s2 of [] \<Rightarrow> None
                 | e # s3 \<Rightarrow>
                     if e \<noteq> CHR '':'' then None
                     else (case json_value n d s3 of None \<Rightarrow> None
                       | Some (v, t) \<Rightarrow>
                           (case skip_ws t of [] \<Rightarrow> None
                            | c # r \<Rightarrow>
                                if c = CHR '','' then
                                  map_option (\<lambda>(ms, u). ((k, v) # ms, u)) (json_members n d r)
                                else if c = CHR ''}'' then Some ([(k, v)], r) else None)))))"

declare json_value.simps(2) [simp del] json_members.simps(2) [simp del] json_elems.simps(2) [simp del]

text \<open>
  A whole document: one value and nothing but white space after it, nested at most
  maxNestingDepth deep.
\<close>

definition max_nesting :: int where
  "max_nesting = 10000"

definition json_parse :: "string \<Rightarrow> json option" where
  "json_parse s =
     (case json_value (2 * length s + 2) max_nesting s of
        Some (v, rest) \<Rightarrow> if skip_ws rest = [] then Some v else None
      | None \<Rightarrow> None)"

subsection \<open>The string encoder of json.Marshal\<close>

text \<open>
  What appendString writes for one byte below the rune self, with HTML escaping on, as it is in
  json.Marshal, and for one rune above; a byte that starts no rune becomes the escape of the
  error rune.
\<close>

definition marshal_byte :: "nat \<Rightarrow> string" where
  "marshal_byte n =
     (if n = 34 \<or> n = 92 then [byte 92, byte n]
      else if n = 8 then [byte 92, CHR ''b'']
      else if n = 12 then [byte 92, CHR ''f'']
      else if n = 10 then [byte 92, CHR ''n'']
      else if n = 13 then [byte 92, CHR ''r'']
      else if n = 9 then [byte 92, CHR ''t'']
      else if n < 32 \<or> n = 60 \<or> n = 62 \<or> n = 38 then [byte 92, CHR ''u''] @ hex4 n
      else [byte n])"

fun marshal_body :: "string \<Rightarrow> string" where
  "marshal_body [] = []"
| "marshal_body (c # s) =
     (if (of_char c :: nat) < 128 then marshal_byte (of_char c) @ marshal_body s
      else (let (r, w) = decode_rune c s in
            if r = rune_error \<and> w = 1 then [byte 92] @ ''ufffd'' @ marshal_body s
            else if r = 8232 \<or> r = 8233 then [byte 92, CHR ''u''] @ hex4 r @ marshal_body (drop (w - 1) s)
            else encode_rune r @ marshal_body (drop (w - 1) s)))"

definition marshal_string :: "string \<Rightarrow> string" where
  "marshal_string s = [byte 34] @ marshal_body s @ [byte 34]"

subsection \<open>Storing a JSON value into a struct field\<close>

text \<open>
  A number goes into an int when its literal is a decimal integer in range, a string into a
  string; null leaves the field as it is; anything else is a type error.
\<close>

definition store_int :: "json \<Rightarrow> int \<Rightarrow> int option" where
  "store_int v old =
     (case v of JNull \<Rightarrow> Some old
      | JNum lit \<Rightarrow> (case strconv_Atoi lit of Inr i \<Rightarrow> Some i | Inl _ \<Rightarrow> None)
      | _ \<Rightarrow> None)"

definition store_string :: "json \<Rightarrow> string \<Rightarrow> string option" where
  "store_string v old = (case v of JNull \<Rightarrow> Some old | JStr l s \<Rightarrow> Some s | _ \<Rightarrow> None)"

text \<open>
  The name a key is folded to when no field has it exactly: ASCII letters in upper case, and
  the two runes beyond ASCII that fold to ASCII letters (the Kelvin sign, the long s).
\<close>

definition upper_ascii :: "char \<Rightarrow> char" where
  "upper_ascii c = (if 97 \<le> (of_char c :: nat) \<and> (of_char c :: nat) \<le> 122
                    then byte (of_char c - 32) else c)"

fun fold_name :: "string \<Rightarrow> string" where
  "fold_name [] = []"
| "fold_name (c # s) =
     (if c = byte 226 \<and> take 2 s = [byte 132, byte 170] then CHR ''K'' # fold_name (drop 2 s)
      else if c = byte 197 \<and> take 1 s = [byte 191] then CHR ''S'' # fold_name (drop 1 s)
      else upper_ascii c # fold_name s)"

definition field_matches :: "string \<Rightarrow> string \<Rightarrow> bool" where
  "field_matches name key \<longleftrightarrow> key = name \<or> fold_name key = fold_name name"

end
