(* ===== verification/Quote_Lemmas.thy ===== *)
theory Quote_Lemmas
  imports Go_Json
begin

section \<open>When the quoted form of a Go string is a JSON string\<close>

text \<open>
  strconv.Quote and JSON agree on most escapes but not on all: the escapes a, v, x and U of
  Go are no JSON. This theory says exactly which strings survive being quoted by Go and read
  back as JSON (\<open>json_safe\<close>), and proves the round trip for them and the failure for all
  others.
\<close>

subsection \<open>Bytes and continuation bytes\<close>

lemma of_char_byte [simp]: "n < 256 \<Longrightarrow> (of_char (byte n) :: nat) = n"
  by (simp add: byte_def)

lemma byte_of_char [simp]: "byte (of_char c) = c"
  by (simp add: byte_def)

lemma byte_inject: "m < 256 \<Longrightarrow> n < 256 \<Longrightarrow> byte m = byte n \<longleftrightarrow> m = n"
  by (metis of_char_byte)

lemma of_char_less: "(of_char c :: nat) < 256"
  using of_char_mod_256 [of c, where 'a = nat] by (metis mod_less_divisor zero_less_numeral)

lemma char_byte: "\<exists>n < 256. c = byte n"
  by (rule exI [of _ "of_char c"]) (simp add: of_char_less)

lemma char_eq_byte: "n < 256 \<Longrightarrow> c = byte n \<longleftrightarrow> (of_char c :: nat) = n"
  by auto

lemma cont_bits_byte [simp]: "x < 64 \<Longrightarrow> cont_bits (byte (128 + x)) = Some x"
  by (simp add: cont_bits_def)

lemma cont_bits_Some: "cont_bits c = Some x \<Longrightarrow> c = byte (128 + x) \<and> x < 64"
  by (auto simp: cont_bits_def split: if_splits)

subsection \<open>Decoding and encoding a rune\<close>

text \<open>The four shapes of a rune that decodes.\<close>

lemma decodes_cases:
  assumes "decodes c s"
  obtains (one) "(of_char c :: nat) < 128" "decode_rune c s = (of_char c, 1)"
  | (two) b x t where "c = byte (192 + b)" "b < 32" "s = byte (128 + x) # t" "x < 64"
      "decode_rune c s = (b * 64 + x, 2)" "128 \<le> b * 64 + x"
  | (three) b x y t where "c = byte (224 + b)" "b < 16" "s = byte (128 + x) # byte (128 + y) # t"
      "x < 64" "y < 64" "decode_rune c s = (b * 4096 + x * 64 + y, 3)"
      "2048 \<le> b * 4096 + x * 64 + y" "\<not> is_surrogate (b * 4096 + x * 64 + y)"
  | (four) b x y z t where "c = byte (240 + b)" "b < 8"
      "s = byte (128 + x) # byte (128 + y) # byte (128 + z) # t" "x < 64" "y < 64" "z < 64"
      "decode_rune c s = (b * 262144 + x * 4096 + y * 64 + z, 4)"
      "65536 \<le> b * 262144 + x * 4096 + y * 64 + z" "b * 262144 + x * 4096 + y * 64 + z < 1114112"
proof -
  obtain n where n: "n < 256" "c = byte n" using char_byte by blast
  consider "n < 128" | "192 \<le> n" "n < 224" | "224 \<le> n" "n < 240" | "240 \<le> n" "n < 248"
    using assms n by (fastforce simp: decodes_def decode_rune_def Let_def)
  then show thesis
  proof cases
    case 1
    with n show thesis by (intro one) (simp_all add: decode_rune_def)
  next
    case 2
    with assms n obtain c1 t x where s: "s = c1 # t" "cont_bits c1 = Some x"
      and "128 \<le> (n - 192) * 64 + x"
      by (auto simp: decodes_def decode_rune_def Let_def split: list.splits option.splits if_splits)
    with 2 n cont_bits_Some [OF s(2)] show thesis
      by (intro two [of "n - 192" x t]) (auto simp: decode_rune_def)
  next
    case 3
    with assms n obtain c1 c2 t x y where s: "s = c1 # c2 # t" "cont_bits c1 = Some x" "cont_bits c2 = Some y"
      and "2048 \<le> (n - 224) * 4096 + x * 64 + y" "\<not> is_surrogate ((n - 224) * 4096 + x * 64 + y)"
      by (auto simp: decodes_def decode_rune_def Let_def split: list.splits option.splits if_splits)
    with 3 n cont_bits_Some [OF s(2)] cont_bits_Some [OF s(3)] show thesis
      by (intro three [of "n - 224" x y t]) (auto simp: decode_rune_def)
  next
    case 4
    with assms n obtain c1 c2 c3 t x y z where s: "s = c1 # c2 # c3 # t" "cont_bits c1 = Some x"
        "cont_bits c2 = Some y" "cont_bits c3 = Some z"
      and "65536 \<le> (n - 240) * 262144 + x * 4096 + y * 64 + z"
        "(n - 240) * 262144 + x * 4096 + y * 64 + z < 1114112"
      by (auto simp: decodes_def decode_rune_def Let_def split: list.splits option.splits if_splits)
    with 4 n cont_bits_Some [OF s(2)] cont_bits_Some [OF s(3)] cont_bits_Some [OF s(4)] show thesis
      by (intro four [of "n - 240" x y z t]) (auto simp: decode_rune_def)
  qed
qed

lemma base64_digit: "z < 64 \<Longrightarrow> (a * 64 + z) div 64 = (a::nat) \<and> (a * 64 + z) mod 64 = z"
  by simp

lemma base64_three:
  fixes b x y :: nat
  assumes "x < 64" "y < 64"
  shows "(b * 4096 + x * 64 + y) div 4096 = b" "(b * 4096 + x * 64 + y) div 64 mod 64 = x"
    "(b * 4096 + x * 64 + y) mod 64 = y"
proof -
  have e: "b * 4096 + x * 64 + y = (b * 64 + x) * 64 + y" by simp
  have "(b * 4096 + x * 64 + y) div 64 = b * 64 + x"
    using base64_digit [OF assms(2), of "b * 64 + x"] by (simp only: e)
  then show "(b * 4096 + x * 64 + y) div 64 mod 64 = x" "(b * 4096 + x * 64 + y) div 4096 = b"
    using base64_digit [OF assms(1), of b] div_mult2_eq [of "b * 4096 + x * 64 + y" 64 64] by simp_all
  show "(b * 4096 + x * 64 + y) mod 64 = y"
    using base64_digit [OF assms(2), of "b * 64 + x"] by (simp only: e)
qed

lemma base64_four:
  fixes b x y z :: nat
  assumes "x < 64" "y < 64" "z < 64"
  shows "(b * 262144 + x * 4096 + y * 64 + z) div 262144 = b"
    "(b * 262144 + x * 4096 + y * 64 + z) div 4096 mod 64 = x"
    "(b * 262144 + x * 4096 + y * 64 + z) div 64 mod 64 = y"
    "(b * 262144 + x * 4096 + y * 64 + z) mod 64 = z"
proof -
  let ?r = "b * 262144 + x * 4096 + y * 64 + z"
  have e: "?r = (b * 4096 + x * 64 + y) * 64 + z" by simp
  have d: "?r div 64 = b * 4096 + x * 64 + y"
    using base64_digit [OF assms(3), of "b * 4096 + x * 64 + y"] by (simp only: e)
  show "?r mod 64 = z"
    using base64_digit [OF assms(3), of "b * 4096 + x * 64 + y"] by (simp only: e)
  show "?r div 64 mod 64 = y"
    unfolding d by (rule base64_three(3) [OF assms(1,2)])
  show "?r div 4096 mod 64 = x"
    using base64_three(2) [OF assms(1,2), of b] div_mult2_eq [of ?r 64 64] by (simp add: d)
  show "?r div 262144 = b"
    using base64_three(1) [OF assms(1,2), of b] div_mult2_eq [of ?r 64 4096] by (simp add: d)
qed

text \<open>The bytes of a rune that decodes are its encoding, and what follows them is irrelevant.\<close>

lemma decode_encode:
  assumes "decodes c s" and "decode_rune c s = (r, w)"
  shows "encode_rune r = c # take (w - 1) s" and "valid_rune r"
    and "decode_rune c (take (w - 1) s @ x) = (r, w)"
proof -
  have "encode_rune r = c # take (w - 1) s \<and> valid_rune r \<and> decode_rune c (take (w - 1) s @ x) = (r, w)"
    using assms(1)
  proof (cases rule: decodes_cases)
    case one
    with assms(2) show ?thesis
      by (auto simp: encode_rune_def valid_rune_def is_surrogate_def decode_rune_def)
  next
    case (two b x' t)
    with assms(2) have r: "r = b * 64 + x'" "w = 2" by auto
    with two have "r div 64 = b" "r mod 64 = x'" "r < 2048" by auto
    with two r show ?thesis
      by (auto simp: encode_rune_def valid_rune_def is_surrogate_def decode_rune_def)
  next
    case (three b x' y t)
    with assms(2) have r: "r = b * 4096 + x' * 64 + y" "w = 3" by auto
    with three base64_three [of x' y b]
    have "r div 4096 = b" "r div 64 mod 64 = x'" "r mod 64 = y" "r < 65536" by auto
    with three r show ?thesis
      by (auto simp: encode_rune_def valid_rune_def decode_rune_def)
  next
    case (four b x' y z t)
    with assms(2) have r: "r = b * 262144 + x' * 4096 + y * 64 + z" "w = 4" by auto
    with four base64_four [of x' y z b]
    have "r div 262144 = b" "r div 4096 mod 64 = x'" "r div 64 mod 64 = y" "r mod 64 = z" by auto
    with four r show ?thesis
      by (auto simp: encode_rune_def valid_rune_def is_surrogate_def decode_rune_def)
  qed
  then show "encode_rune r = c # take (w - 1) s" "valid_rune r"
    "decode_rune c (take (w - 1) s @ x) = (r, w)" by simp_all
qed

subsection \<open>Reading an encoded rune back\<close>

lemma decode_rune_ascii: "(of_char c :: nat) < 128 \<Longrightarrow> decode_rune c s = (of_char c, 1)"
  by (simp add: decode_rune_def)

lemma encode_rune_ascii: "r < 128 \<Longrightarrow> encode_rune r = [byte r]"
  by (simp add: encode_rune_def)

lemma json_string_plain:
  assumes "32 \<le> (of_char c :: nat)" "c \<noteq> byte 34" "c \<noteq> byte 92" "decode_rune c s = (r, w)"
  shows "json_string (c # s) = prepend (encode_rune r) (json_string (drop (w - 1) s))"
  using assms by (simp add: json_string.simps(2))

lemma decodes_high:
  assumes "decodes c s" and "decode_rune c s = (r, w)" and "128 \<le> r"
  shows "128 \<le> (of_char c :: nat)"
  using decode_rune_ascii [of c s] assms(2,3) by (cases "(of_char c :: nat) < 128") auto

lemma json_string_rune:
  assumes "decodes c s" and "decode_rune c s = (r, w)" and "32 \<le> r" "r \<noteq> 34" "r \<noteq> 92"
  shows "json_string (encode_rune r @ x) = prepend (encode_rune r) (json_string x)"
proof -
  note d = decode_encode [OF assms(1,2)]
  have len: "length (take (w - 1) s) = w - 1"
    using assms(1,2) by (cases rule: decodes_cases) auto
  have c: "32 \<le> (of_char c :: nat)" "c \<noteq> byte 34" "c \<noteq> byte 92"
    using decode_rune_ascii [of c s] assms(2-5) by (cases "(of_char c :: nat) < 128"; force)+
  have "json_string (c # (take (w - 1) s @ x)) = prepend (encode_rune r) (json_string (drop (w - 1) (take (w - 1) s @ x)))"
    by (rule json_string_plain [OF c]) (rule d(3))
  with d(1) len show ?thesis by simp
qed

lemma hex_value_digit: "n < 16 \<Longrightarrow> hex_value (hex_digit n) = Some n"
  by (auto simp: hex_value_def hex_digit_def Let_def)

lemma hex4_value_hex4:
  assumes "r < 65536"
  shows "hex4 r = [hex_digit (r div 4096), hex_digit (r div 256 mod 16), hex_digit (r div 16 mod 16),
      hex_digit (r mod 16)]"
    and "hex4_value (hex_digit (r div 4096)) (hex_digit (r div 256 mod 16))
      (hex_digit (r div 16 mod 16)) (hex_digit (r mod 16)) = Some r"
proof -
  have "r div 256 div 16 mod 16 = r div 4096"
    using assms by (simp add: div_mult2_eq [symmetric])
  moreover have m: "r mod 256 = 16 * (r div 16 mod 16) + r mod 16"
    using mod_mult2_eq [of r 16 16] by simp
  then have "r mod 256 div 16 mod 16 = r div 16 mod 16" by simp
  moreover have "r mod 256 mod 16 = r mod 16" by (simp add: mod_mod_cancel)
  ultimately show "hex4 r = [hex_digit (r div 4096), hex_digit (r div 256 mod 16),
      hex_digit (r div 16 mod 16), hex_digit (r mod 16)]"
    by (simp only: hex4_def hex2_def append_Cons append_Nil)
  have "r div 4096 * 16 + r div 256 mod 16 = r div 256" "r div 256 * 16 + r div 16 mod 16 = r div 16"
    using div_mult_mod_eq [of "r div 256" 16] div_mult_mod_eq [of "r div 16" 16]
    by (simp_all add: div_mult2_eq [symmetric])
  then have "((r div 4096 * 16 + r div 256 mod 16) * 16 + r div 16 mod 16) * 16 + r mod 16 = r"
    by simp
  then show "hex4_value (hex_digit (r div 4096)) (hex_digit (r div 256 mod 16))
      (hex_digit (r div 16 mod 16)) (hex_digit (r mod 16)) = Some r"
    using assms by (simp add: hex4_value_def hex_value_digit)
qed

subsection \<open>The escapes both sides know\<close>

text \<open>The runes whose Go escape is a JSON escape of the same rune.\<close>

definition rune_safe :: "(nat \<Rightarrow> bool) \<Rightarrow> nat \<Rightarrow> bool" where
  "rune_safe is_print r \<longleftrightarrow> rune_print is_print r \<or> r \<in> {8, 9, 10, 12, 13} \<or> 128 \<le> r \<and> r < 65536"

text \<open>The letters after a backslash, compared with the bytes of the escapes.\<close>

lemma simple_escape_letters:
  "simple_escape CHR ''b'' = Some (byte 8)" "simple_escape CHR ''t'' = Some (byte 9)"
  "simple_escape CHR ''n'' = Some (byte 10)" "simple_escape CHR ''f'' = Some (byte 12)"
  "simple_escape CHR ''r'' = Some (byte 13)"
  "simple_escape CHR ''a'' = None" "simple_escape CHR ''v'' = None"
  "simple_escape CHR ''x'' = None" "simple_escape CHR ''U'' = None" "simple_escape CHR ''u'' = None"
  by (simp_all add: simple_escape_def char_eq_byte)

lemma json_string_bare_escape:
  "simple_escape e = Some x \<Longrightarrow> json_string (byte 92 # e # s) = prepend [x] (json_string s)"
  by (simp add: json_string.simps(2) byte_inject)

lemma json_string_bad_escape:
  "simple_escape e = None \<Longrightarrow> e \<noteq> CHR ''u'' \<Longrightarrow> json_string (byte 92 # e # s) = None"
  by (simp add: json_string.simps(2) byte_inject)

lemma json_string_u_escape:
  assumes "r < 65536" "\<not> is_surrogate r"
  shows "json_string (byte 92 # CHR ''u'' # hex4 r @ s) = prepend (encode_rune r) (json_string s)"
  using assms
  by (simp add: json_string.simps(2) byte_inject hex4_value_hex4 simple_escape_letters)

lemma escape_safe:
  assumes dec: "decodes c s" "decode_rune c s = (r, w)" and safe: "rune_safe is_print r"
  shows "json_string (escape_rune is_print r @ x) = prepend (encode_rune r) (json_string x)"
proof -
  note valid = decode_encode(2) [OF dec]
  consider "r = 34 \<or> r = 92" | "r \<noteq> 34" "r \<noteq> 92" "rune_print is_print r"
    | "\<not> rune_print is_print r" "r \<in> {8, 9, 10, 12, 13}"
    | "\<not> rune_print is_print r" "128 \<le> r" "r < 65536"
    using safe unfolding rune_safe_def by blast
  then show ?thesis
  proof cases
    case 1
    have "simple_escape (byte r) = Some (byte r)" using 1 by (auto simp: simple_escape_def)
    from json_string_bare_escape [OF this] 1 show ?thesis
      by (auto simp: escape_rune_def encode_rune_ascii)
  next
    case 2
    then have "32 \<le> r" by (auto simp: rune_print_def split: if_splits)
    with json_string_rune [OF dec _ 2(1,2)] 2 show ?thesis by (simp add: escape_rune_def)
  next
    case 3
    then show ?thesis
      by (auto simp: escape_rune_def json_string_bare_escape simple_escape_letters encode_rune_ascii)
  next
    case 4
    with json_string_u_escape [of r] valid show ?thesis
      by (simp add: escape_rune_def valid_rune_def)
  qed
qed

lemma escape_unsafe:
  assumes "\<not> rune_safe is_print r"
  shows "json_string (escape_rune is_print r @ x) = None"
proof -
  have "r \<noteq> 34" "r \<noteq> 92" using assms by (auto simp: rune_safe_def rune_print_def)
  moreover have "\<not> rune_print is_print r" "r \<notin> {8, 9, 10, 12, 13}" "r < 128 \<or> 65536 \<le> r"
    using assms by (auto simp: rune_safe_def)
  moreover have "r < 128 \<Longrightarrow> r < 32 \<or> r = 127"
    using \<open>\<not> rune_print is_print r\<close> by (auto simp: rune_print_def)
  ultimately show ?thesis
    by (auto simp: escape_rune_def json_string_bad_escape simple_escape_letters)
qed

subsection \<open>Whole strings\<close>

text \<open>Every byte belongs to a rune that decodes and is safe.\<close>

fun json_safe :: "(nat \<Rightarrow> bool) \<Rightarrow> string \<Rightarrow> bool" where
  "json_safe is_print [] = True"
| "json_safe is_print (c # s) =
     (decodes c s \<and>
      (case decode_rune c s of (r, w) \<Rightarrow> rune_safe is_print r \<and> json_safe is_print (drop (w - 1) s)))"

lemma json_string_x_escape: "json_string ([byte 92, CHR ''x''] @ s) = None"
  by (simp add: json_string_bad_escape simple_escape_letters)

theorem json_string_quote:
  "json_string (quote_body is_print t @ byte 34 # rest) =
     (if json_safe is_print t then Some (t, rest) else None)"
proof (induction is_print t rule: quote_body.induct)
  case (1 is_print)
  then show ?case by (simp add: json_string.simps(2))
next
  case (2 is_print c s)
  obtain r w where d: "decode_rune c s = (r, w)" by fastforce
  show ?case
  proof (cases "decodes c s")
    case False
    then have "(r, w) = (rune_error, 1)" using d by (simp add: decodes_def)
    with False d json_string_x_escape show ?thesis by (simp add: decodes_def)
  next
    case True
    then have n: "\<not> (w = 1 \<and> r = rune_error)" using d by (auto simp: decodes_def)
    with 2(2) [OF d [symmetric] refl n] have IH: "json_string (quote_body is_print (drop (w - 1) s) @ byte 34 # rest) =
        (if json_safe is_print (drop (w - 1) s) then Some (drop (w - 1) s, rest) else None)"
      by blast
    have q: "quote_body is_print (c # s) = escape_rune is_print r @ quote_body is_print (drop (w - 1) s)"
      using n d by (simp only: quote_body.simps Let_def prod.case if_False)
    show ?thesis
    proof (cases "rune_safe is_print r")
      case False
      then show ?thesis using True d by (simp add: q escape_unsafe del: quote_body.simps)
    next
      case safe: True
      have "encode_rune r @ drop (w - 1) s = c # s"
        using decode_encode(1) [OF True d] by simp
      with safe True d IH show ?thesis
        by (simp add: q escape_safe [OF True d safe] prepend_def del: quote_body.simps)
    qed
  qed
qed

text \<open>In particular the printable ASCII strings.\<close>

definition ascii_printable :: "string \<Rightarrow> bool" where
  "ascii_printable t \<longleftrightarrow> (\<forall>c \<in> set t. 32 \<le> (of_char c :: nat) \<and> (of_char c :: nat) < 127)"

lemma ascii_json_safe: "ascii_printable t \<Longrightarrow> json_safe is_print t"
proof (induction t)
  case Nil
  then show ?case by simp
next
  case (Cons c t)
  then have "32 \<le> (of_char c :: nat)" "(of_char c :: nat) < 127" by (auto simp: ascii_printable_def)
  moreover from this have "decode_rune c t = (of_char c, 1)" by (simp add: decode_rune_ascii)
  ultimately show ?case
    using Cons by (simp add: decodes_def rune_safe_def rune_print_def rune_error_def ascii_printable_def)
qed

subsection \<open>Valid UTF-8\<close>

lemma valid_utf8_ascii_Cons [simp]: "(of_char c :: nat) < 128 \<Longrightarrow> valid_utf8 (c # s) \<longleftrightarrow> valid_utf8 s"
  by (simp add: valid_utf8.simps(2) decodes_def decode_rune_ascii rune_error_def)

lemma valid_utf8_ascii_append:
  "list_all (\<lambda>c. (of_char c :: nat) < 128) a \<Longrightarrow> valid_utf8 (a @ s) \<longleftrightarrow> valid_utf8 s"
  by (induction a) simp_all

lemma valid_utf8_ascii: "list_all (\<lambda>c. (of_char c :: nat) < 128) s \<Longrightarrow> valid_utf8 s"
  using valid_utf8_ascii_append [of s "[]"] by simp

text \<open>The bytes of a rune after the first are no ASCII characters.\<close>

lemma decodes_tail:
  assumes "decodes c s" and "decode_rune c s = (r, w)"
  shows "w - 1 \<le> length s" and "\<forall>x \<in> set (take (w - 1) s). 128 \<le> (of_char x :: nat)"
  using assms by (cases rule: decodes_cases; auto)+

text \<open>A final ASCII character can be cut off.\<close>

lemma valid_utf8_cut:
  "valid_utf8 (s @ [c]) \<Longrightarrow> (of_char c :: nat) < 128 \<Longrightarrow> valid_utf8 s"
proof (induction s rule: valid_utf8.induct)
  case 1
  then show ?case by simp
next
  case (2 x xs)
  obtain r w where d: "decode_rune x (xs @ [c]) = (r, w)" by fastforce
  have dec: "decodes x (xs @ [c])" using "2.prems"(1) by (simp add: valid_utf8.simps(2))
  note tail = decodes_tail [OF dec d]
  have le: "w - 1 \<le> length xs"
  proof (rule ccontr)
    assume "\<not> w - 1 \<le> length xs"
    with tail(1) have "take (w - 1) (xs @ [c]) = xs @ [c]" by simp
    with tail(2) have "128 \<le> (of_char c :: nat)" by (metis in_set_conv_decomp)
    with "2.prems"(2) show False by simp
  qed
  then have split: "take (w - 1) (xs @ [c]) @ drop (w - 1) xs = xs" by simp
  have d': "decode_rune x xs = (r, w)"
    using decode_encode(3) [OF dec d, of "drop (w - 1) xs"] by (simp only: split)
  then have "decodes x xs" using dec d by (simp add: decodes_def)
  moreover have "valid_utf8 (drop (w - 1) xs @ [c])"
    using "2.prems"(1) d le by (simp add: valid_utf8.simps(2))
  ultimately show ?case using "2.IH" d' "2.prems"(2) by (simp add: valid_utf8.simps(2))
qed

end
