(* ===== verification/Json_Lemmas.thy ===== *)
theory Json_Lemmas
  imports Quote_Lemmas
begin

section \<open>Reading JSON: the parts of a document, and how much fuel the reader needs\<close>

text \<open>
  Lemmas on the decoder of Go_Json that every round trip uses: white space, member names,
  numbers and strings as the program writes them, the matching of member names. The recursive
  descent consumes its input, so that a fuel linear in the length of the document decides it
  (\<open>json_value_fuel\<close>); with that, \<open>reads\<close> states what is at the front of a text without
  any fuel, and the rules for \<open>reads\<close> compose.
\<close>

subsection \<open>White space and names\<close>

lemma is_ws_byte: "n < 256 \<Longrightarrow> is_ws (byte n) \<longleftrightarrow> n \<in> {9, 10, 13, 32}"
  by (auto simp: is_ws_def byte_inject)

lemma is_ws_iff: "is_ws c \<longleftrightarrow> (of_char c :: nat) \<in> {9, 10, 13, 32}"
  using is_ws_byte [OF of_char_less, of c] by simp

lemma skip_ws_space [simp]: "skip_ws (CHR '' '' # s) = skip_ws s"
  by (simp add: skip_ws_def is_ws_iff)

lemma skip_ws_other: "\<not> is_ws c \<Longrightarrow> skip_ws (c # s) = c # s"
  by (simp add: skip_ws_def)

definition plain_name :: "string \<Rightarrow> bool" where
  "plain_name k \<longleftrightarrow> list_all (\<lambda>c. 32 \<le> (of_char c :: nat) \<and> (of_char c :: nat) < 128 \<and>
     (of_char c :: nat) \<noteq> 34 \<and> (of_char c :: nat) \<noteq> 92) k"

lemma json_string_name: "plain_name k \<Longrightarrow> json_string (k @ byte 34 # rest) = Some (k, rest)"
proof (induction k)
  case Nil
  then show ?case by (simp add: json_string.simps(2))
next
  case (Cons c k)
  then have c: "32 \<le> (of_char c :: nat)" "c \<noteq> byte 34" "c \<noteq> byte 92" "(of_char c :: nat) < 128"
    by (auto simp: plain_name_def)
  from json_string_plain [OF c(1-3) decode_rune_ascii [OF c(4)]] Cons c(4) show ?case
    by (simp add: plain_name_def prepend_def encode_rune_ascii)
qed

subsection \<open>Numbers\<close>

lemma is_digit_ws: "is_digit c \<Longrightarrow> \<not> is_ws c"
  by (auto simp: is_digit_def is_ws_iff)

lemma dec_digits_leading_zero: "hd (dec_digits n) = CHR ''0'' \<Longrightarrow> n = 0"
proof (induction n rule: dec_digits.induct)
  case (1 n)
  show ?case
  proof (cases "n < 10")
    case True
    then have "dec_digits n = [digit_char n]" by (simp add: dec_digits.simps)
    with "1.prems" True have "digit_value (CHR ''0'') = n"
      using digit_value_digit_char by fastforce
    then show ?thesis by (simp add: digit_value_def)
  next
    case False
    then have "dec_digits n = dec_digits (n div 10) @ [digit_char (n mod 10)]"
      by (subst dec_digits.simps) simp
    with "1.prems" have "hd (dec_digits (n div 10)) = CHR ''0''" by (simp add: hd_append)
    with "1.IH" False show ?thesis by fastforce
  qed
qed

lemma span_digits_app:
  "\<forall>c \<in> set ds. is_digit c \<Longrightarrow> \<not> is_digit d \<Longrightarrow> span_digits (ds @ d # rest) = (ds, d # rest)"
  by (simp add: span_digits_def takeWhile_append2 dropWhile_append2)

lemma json_int_digits:
  assumes "\<not> is_digit d"
  shows "json_int (dec_digits n @ d # rest) = Some (dec_digits n, d # rest)"
proof (cases "hd (dec_digits n) = CHR ''0''")
  case True
  then have "dec_digits n = [CHR ''0'']"
    using dec_digits_leading_zero [OF True] by (simp add: dec_digits.simps digit_char_def)
  with assms show ?thesis
    using span_digits_app [of "[CHR ''0'']" d rest]
    by (simp add: json_int_def is_digit_def)
next
  case False
  with span_digits_app [OF dec_digits_digits assms] show ?thesis by (simp add: json_int_def)
qed

lemma json_number_fmt_d:
  assumes "\<not> is_digit d" "d \<notin> {CHR ''.'', CHR ''e'', CHR ''E''}"
  shows "json_number (fmt_d i @ d # rest) = Some (fmt_d i, d # rest)"
proof -
  have int: "json_int (dec_digits n @ d # rest) = Some (dec_digits n, d # rest)" for n
    by (rule json_int_digits [OF assms(1)])
  show ?thesis
  proof (cases "i < 0")
    case True
    with int [of "nat (- i)"] assms(2) show ?thesis
      by (simp add: json_number_def fmt_d_def json_frac_def json_exp_def)
  next
    case False
    obtain x xs where x: "dec_digits (nat i) = x # xs" by (cases "dec_digits (nat i)") auto
    with hd_dec_digits [of "nat i"] is_digit_no_sign have "x \<noteq> CHR ''-''" by auto
    with False x int [of "nat i"] assms(2) show ?thesis
      by (simp add: json_number_def fmt_d_def json_frac_def json_exp_def)
  qed
qed

lemma fmt_d_first:
  obtains x xs where "fmt_d i = x # xs" "\<not> is_ws x" "x \<noteq> CHR ''n''" "x \<noteq> CHR ''t''" "x \<noteq> CHR ''f''"
    "x \<noteq> byte 34" "x \<noteq> CHR ''[''" "x \<noteq> CHR ''{''"
proof -
  obtain x xs where x: "fmt_d i = x # xs" by (cases "fmt_d i") (auto simp: fmt_d_def split: if_splits)
  have d: "is_digit x \<or> x = CHR ''-''" using fmt_d_chars [of i] x by simp
  then have "(of_char x :: nat) = 45 \<or> 48 \<le> (of_char x :: nat) \<and> (of_char x :: nat) \<le> 57"
    by (auto simp: is_digit_def)
  then have "\<not> is_ws x" "x \<noteq> CHR ''n''" "x \<noteq> CHR ''t''" "x \<noteq> CHR ''f''" "x \<noteq> byte 34"
    "x \<noteq> CHR ''[''" "x \<noteq> CHR ''{''"
    by (auto simp: is_ws_iff)
  with x that show thesis by blast
qed

subsection \<open>The reader consumes its input\<close>

lemma prepend_Some: "prepend p x = Some (v, t) \<longleftrightarrow> (\<exists>u. x = Some (u, t) \<and> v = p @ u)"
  by (auto simp: prepend_def)

lemma json_string_consumes: "json_string s = Some (v, t) \<Longrightarrow> length t < length s"
proof (induction s arbitrary: v t rule: length_induct)
  case (1 s)
  note IH = "1.IH" [rule_format]
  show ?case
  proof (cases s)
    case Nil
    with "1.prems" show ?thesis by simp
  next
    case (Cons c r)
    have drop: "length u < length s" if "json_string x = Some (w, u)" "length x \<le> length r" for x u w
      using IH [of x w u] that Cons by simp
    from "1.prems" show ?thesis
      unfolding Cons json_string.simps(2)
      by (auto simp: prepend_Some Cons split: if_splits list.splits option.splits prod.splits
          dest!: drop [unfolded Cons])
  qed
qed

lemma span_digits_length: "span_digits s = (ds, r) \<Longrightarrow> length s = length ds + length r"
  by (metis span_digits_def fst_conv snd_conv length_append takeWhile_dropWhile_id)

lemma json_int_consumes: "json_int s = Some (ds, r) \<Longrightarrow> length r < length s"
proof -
  assume a: "json_int s = Some (ds, r)"
  obtain es u where sp: "span_digits s = (es, u)" by fastforce
  have l: "length s = length es + length u" by (rule span_digits_length [OF sp])
  from a sp have ne: "es \<noteq> []" by (auto simp: json_int_def split: if_splits)
  then have "0 < length es" "s \<noteq> []" using l by auto
  moreover from a sp ne have "r = tl s \<or> r = u"
    by (auto simp: json_int_def split: if_splits)
  ultimately show ?thesis using l by auto
qed

lemma json_frac_le: "json_frac s = Some (ds, r) \<Longrightarrow> length r \<le> length s"
  by (auto simp: json_frac_def dest!: span_digits_length split: list.splits if_splits prod.splits)

lemma json_exp_le:
  assumes "json_exp s = Some (ds, r)"
  shows "length r \<le> length s"
proof (cases "\<exists>c s1. s = c # s1 \<and> (c = CHR ''e'' \<or> c = CHR ''E'')")
  case False
  with assms show ?thesis by (auto simp: json_exp_def split: list.splits if_splits)
next
  case True
  then obtain c s1 where s: "s = c # s1" "c = CHR ''e'' \<or> c = CHR ''E''" by blast
  define p where "p = (case s1 of d # s2 \<Rightarrow> if d = CHR ''+'' \<or> d = CHR ''-'' then ([d], s2) else ([], s1)
    | [] \<Rightarrow> ([], s1))"
  have p: "length (snd p) \<le> length s1" by (auto simp: p_def split: list.splits)
  obtain es u where sp: "span_digits (snd p) = (es, u)" by fastforce
  have "json_exp s = (if es = [] then None else Some (c # fst p @ es, u))"
    using s sp unfolding json_exp_def p_def [symmetric] by (simp add: p_def [symmetric] case_prod_beta)
  with assms span_digits_length [OF sp] p s show ?thesis by (auto split: if_splits)
qed

lemma json_number_consumes: "json_number s = Some (v, t) \<Longrightarrow> length t < length s"
  by (auto simp: json_number_def Let_def split: list.splits if_splits option.splits prod.splits
      dest!: json_int_consumes json_frac_le json_exp_le)

lemma json_literal_consumes:
  "json_literal lit v s = Some (w, t) \<Longrightarrow> lit \<noteq> [] \<Longrightarrow> length t < length s"
  by (auto simp: json_literal_def split: if_splits) (metis diff_less length_greater_0_conv take_eq_Nil)

lemma skip_ws_le: "length (skip_ws s) \<le> length s"
  by (simp add: skip_ws_def length_dropWhile_le)

lemma skip_ws_Cons_le: "skip_ws s = c # r \<Longrightarrow> length r < length s"
  using skip_ws_le [of s] by simp

lemma json_value_consumes:
  "json_value n d s = Some (v, t) \<Longrightarrow> length t < length s"
  "json_elems n d s = Some (vs, t) \<Longrightarrow> length t < length s"
  "json_members n d s = Some (ms, t) \<Longrightarrow> length t < length s"
proof (induction n arbitrary: d s v vs ms t)
  case 0
  { case 1 then show ?case by simp }
  { case 2 then show ?case by simp }
  { case 3 then show ?case by simp }
next
  case (Suc n)
  { case 1
    obtain c r where s: "skip_ws s = c # r" using 1 by (auto simp: json_value.simps split: list.splits)
    note l = skip_ws_Cons_le [OF s]
    have lit: "length t < length s" if "json_literal w x (c # r) = Some (v, t)" "w \<noteq> []" for w x
      using json_literal_consumes [OF that] l by simp
    have str: "length t < length s" if "json_string r = Some (w, t)" for w
      using json_string_consumes [OF that] l by simp
    have num: "length t < length s" if "json_number (c # r) = Some (w, t)" for w
      using json_number_consumes [OF that] l by simp
    have el: "length t < length s" if "skip_ws r = e # u" "json_elems n k (e # u) = Some (w, t)" for e u w k
      using Suc.IH(2) [OF that(2)] skip_ws_Cons_le [OF that(1)] l by simp
    have me: "length t < length s" if "skip_ws r = e # u" "json_members n k (e # u) = Some (w, t)" for e u w k
      using Suc.IH(3) [OF that(2)] skip_ws_Cons_le [OF that(1)] l by simp
    have one: "length t < length s" if "skip_ws r = e # t" for e
      using skip_ws_Cons_le [OF that] l by simp
    from 1 show ?case
      by (auto simp: json_value.simps s split: if_splits list.splits intro: lit str num el me one) }
  { case 2
    then obtain w u c r where v: "json_value n d s = Some (w, u)" and u: "skip_ws u = c # r"
      by (auto simp: json_elems.simps split: option.splits list.splits)
    have l: "length r < length s" using Suc.IH(1) [OF v] skip_ws_Cons_le [OF u] by simp
    have "length t < length s" if "json_elems n d r = Some (x, t)" for x
      using Suc.IH(2) [OF that] l by simp
    with 2 v u l show ?case by (auto simp: json_elems.simps split: if_splits) }
  { case 3
    then obtain s1 k s2 e s3 w u c r where s: "skip_ws s = byte 34 # s1" "json_string s1 = Some (k, s2)"
        "skip_ws s2 = e # s3" "e = CHR '':''" "json_value n d s3 = Some (w, u)" "skip_ws u = c # r"
      by (auto simp: json_members.simps split: option.splits list.splits if_splits)
    have l: "length r < length s"
      using skip_ws_Cons_le [OF s(1)] json_string_consumes [OF s(2)] skip_ws_Cons_le [OF s(3)]
        Suc.IH(1) [OF s(5)] skip_ws_Cons_le [OF s(6)] by simp
    have "length t < length s" if "json_members n d r = Some (x, t)" for x
      using Suc.IH(3) [OF that] l by simp
    with 3 s l show ?case by (auto simp: json_members.simps split: if_splits) }
qed

subsection \<open>Fuel\<close>

lemma json_value_Suc:
  "json_value n d s = Some x \<Longrightarrow> json_value (Suc n) d s = Some x"
  "json_elems n d s = Some y \<Longrightarrow> json_elems (Suc n) d s = Some y"
  "json_members n d s = Some z \<Longrightarrow> json_members (Suc n) d s = Some z"
proof (induction n arbitrary: d s x y z)
  case 0
  { case 1 then show ?case by simp }
  { case 2 then show ?case by simp }
  { case 3 then show ?case by simp }
next
  case (Suc n)
  { case 1 then show ?case
      by (auto simp: json_value.simps(2) [of "Suc n" d s] json_value.simps(2) [of n d s] Suc.IH(2,3) split: if_splits list.splits) }
  { case 2 then show ?case
      by (auto simp: json_elems.simps(2) [of "Suc n" d s] json_elems.simps(2) [of n d s] Suc.IH split: if_splits list.splits option.splits) }
  { case 3 then show ?case
      by (auto simp: json_members.simps(2) [of "Suc n" d s] json_members.simps(2) [of n d s] Suc.IH split: if_splits list.splits option.splits) }
qed

lemma json_value_mono:
  assumes "n \<le> m"
  shows "json_value n d s = Some x \<Longrightarrow> json_value m d s = Some x"
    and "json_elems n d s = Some y \<Longrightarrow> json_elems m d s = Some y"
    and "json_members n d s = Some z \<Longrightarrow> json_members m d s = Some z"
  using assms by (induction m rule: dec_induct) (auto dest: json_value_Suc)

text \<open>What any fuel reads, a fuel linear in the length of the text reads.\<close>

lemma json_value_enough:
  "json_value n d s = Some x \<Longrightarrow> json_value (2 * length s + 1) d s = Some x"
  "json_elems n d s = Some y \<Longrightarrow> json_elems (2 * length s + 2) d s = Some y"
  "json_members n d s = Some z \<Longrightarrow> json_members (2 * length s + 2) d s = Some z"
proof (induction n arbitrary: d s x y z)
  case 0
  { case 1 then show ?case by simp }
  { case 2 then show ?case by simp }
  { case 3 then show ?case by simp }
next
  case (Suc n)
  { case 1
    then obtain c r where s: "skip_ws s = c # r" by (auto simp: json_value.simps(2) split: list.splits)
    have el: "json_elems (2 * length s) k (e # u) = Some w"
      if "skip_ws r = e # u" "json_elems n k (e # u) = Some w" for e u k w
      using json_value_mono(2) [OF _ Suc.IH(2) [OF that(2)], of "2 * length s"]
        skip_ws_Cons_le [OF that(1)] skip_ws_Cons_le [OF s] by simp
    have me: "json_members (2 * length s) k (e # u) = Some w"
      if "skip_ws r = e # u" "json_members n k (e # u) = Some w" for e u k w
      using json_value_mono(3) [OF _ Suc.IH(3) [OF that(2)], of "2 * length s"]
        skip_ws_Cons_le [OF that(1)] skip_ws_Cons_le [OF s] by simp
    from 1 show ?case
      by (auto simp: json_value.simps(2) [of _ d s] s el me split: if_splits list.splits) }
  { case 2
    then obtain w u c r where v: "json_value n d s = Some (w, u)" and u: "skip_ws u = c # r"
      by (auto simp: json_elems.simps(2) split: option.splits list.splits)
    have v': "json_value (Suc (2 * length s)) d s = Some (w, u)" using Suc.IH(1) [OF v] by simp
    have el: "json_elems (Suc (2 * length s)) d r = Some x" if "json_elems n d r = Some x" for x
      using json_value_mono(2) [OF _ Suc.IH(2) [OF that], of "Suc (2 * length s)"]
        json_value_consumes(1) [OF v] skip_ws_Cons_le [OF u] by simp
    from 2 v v' u el show ?case
      by (auto simp: json_elems.simps(2) [of _ d s] split: if_splits) }
  { case 3
    then obtain s1 k s2 e s3 w u c r where s: "skip_ws s = byte 34 # s1" "json_string s1 = Some (k, s2)"
        "skip_ws s2 = e # s3" "e = CHR '':''" "json_value n d s3 = Some (w, u)" "skip_ws u = c # r"
      by (auto simp: json_members.simps(2) split: option.splits list.splits if_splits)
    note l = skip_ws_Cons_le [OF s(1)] json_string_consumes [OF s(2)] skip_ws_Cons_le [OF s(3)]
    have v: "json_value (Suc (2 * length s)) d s3 = Some (w, u)"
      using json_value_mono(1) [OF _ Suc.IH(1) [OF s(5)], of "Suc (2 * length s)"] l by simp
    have me: "json_members (Suc (2 * length s)) d r = Some x" if "json_members n d r = Some x" for x
      using json_value_mono(3) [OF _ Suc.IH(3) [OF that], of "Suc (2 * length s)"] l
        json_value_consumes(1) [OF s(5)] skip_ws_Cons_le [OF s(6)] by simp
    from 3 s v me show ?case
      by (auto simp: json_members.simps(2) [of _ d s] split: if_splits) }
qed

text \<open>More fuel than twice the length changes nothing, whether the text is JSON or not.\<close>

lemma json_value_fuel:
  assumes "2 * length s + 1 \<le> n"
  shows "json_value n d s = json_value (2 * length s + 1) d s"
proof (cases "json_value n d s")
  case (Some x)
  with json_value_enough(1) [OF Some] show ?thesis by simp
next
  case None
  with json_value_mono(1) [OF assms, of d s] show ?thesis
    by (cases "json_value (2 * length s + 1) d s") auto
qed

subsection \<open>Reading without fuel\<close>

text \<open>\<open>reads d s v t\<close>: at the front of \<open>s\<close> there is the value \<open>v\<close>, and \<open>t\<close> follows it.\<close>

definition reads :: "int \<Rightarrow> string \<Rightarrow> json \<Rightarrow> string \<Rightarrow> bool" where
  "reads d s v t \<longleftrightarrow> (\<exists>n. json_value n d s = Some (v, t))"

definition reads_elems :: "int \<Rightarrow> string \<Rightarrow> json list \<Rightarrow> string \<Rightarrow> bool" where
  "reads_elems d s vs t \<longleftrightarrow> (\<exists>n. json_elems n d s = Some (vs, t))"

definition reads_members :: "int \<Rightarrow> string \<Rightarrow> (string \<times> json) list \<Rightarrow> string \<Rightarrow> bool" where
  "reads_members d s ms t \<longleftrightarrow> (\<exists>n. json_members n d s = Some (ms, t))"

lemma json_parse_reads:
  assumes "reads max_nesting s v []"
  shows "json_parse s = Some v"
proof -
  from assms obtain n where "json_value n max_nesting s = Some (v, [])" unfolding reads_def ..
  from json_value_mono(1) [OF _ json_value_enough(1) [OF this], of "2 * length s + 2"] show ?thesis
    by (simp add: json_parse_def skip_ws_def)
qed

lemma reads_word: "reads d (''null'' @ t) JNull t"
  unfolding reads_def
  by (rule exI [of _ 1]) (simp add: json_value.simps(2) skip_ws_other is_ws_iff json_literal_def)

lemma reads_fmt_d:
  assumes "\<not> is_digit e" "e \<notin> {CHR ''.'', CHR ''e'', CHR ''E''}"
  shows "reads d (fmt_d i @ e # t) (JNum (fmt_d i)) (e # t)"
proof -
  obtain x xs where "fmt_d i = x # xs" "\<not> is_ws x" "x \<noteq> CHR ''n''" "x \<noteq> CHR ''t''" "x \<noteq> CHR ''f''"
    "x \<noteq> byte 34" "x \<noteq> CHR ''[''" "x \<noteq> CHR ''{''" using fmt_d_first [of i] .
  with json_number_fmt_d [OF assms, of i t] show ?thesis
    unfolding reads_def by (intro exI [of _ 1]) (simp add: skip_ws_other json_value.simps(2))
qed

lemma literal_of_append: "literal_of (a @ byte 34 # t) t = a"
  by (simp add: literal_of_def)

lemma letter_not_quote:
  "CHR ''n'' \<noteq> byte 34" "CHR ''t'' \<noteq> byte 34" "CHR ''f'' \<noteq> byte 34"
  "CHR ''['' \<noteq> byte 34" "CHR ''{'' \<noteq> byte 34" "CHR '']'' \<noteq> byte 34" "CHR ''}'' \<noteq> byte 34"
  by (simp_all add: char_eq_byte)

lemmas quote_not_letter = letter_not_quote letter_not_quote [symmetric]

declare quote_not_letter [simp]

lemma quote_not_ws [simp]: "\<not> is_ws (byte 34)"
  by (simp add: is_ws_byte)

lemma json_value_string:
  assumes "json_string (a @ byte 34 # t) = Some (v, t)"
  shows "json_value (Suc n) d (byte 34 # a @ byte 34 # t) = Some (JStr a v, t)"
  using assms by (simp add: json_value.simps(2) skip_ws_other literal_of_append)

lemma reads_string:
  "json_string (a @ byte 34 # t) = Some (v, t) \<Longrightarrow> reads d (byte 34 # a @ byte 34 # t) (JStr a v) t"
  unfolding reads_def using json_value_string by blast

subsection \<open>Compact objects and arrays, as json.Marshal writes them\<close>

definition marshal_key :: "string \<Rightarrow> string" where
  "marshal_key k = [byte 34] @ k @ [byte 34] @ '':''"

lemma skip_ws_simps [simp]:
  "skip_ws (byte 34 # s) = byte 34 # s" "skip_ws (CHR '':'' # s) = CHR '':'' # s"
  "skip_ws (CHR '','' # s) = CHR '','' # s" "skip_ws (CHR ''{'' # s) = CHR ''{'' # s"
  "skip_ws (CHR ''}'' # s) = CHR ''}'' # s" "skip_ws (CHR ''['' # s) = CHR ''['' # s"
  "skip_ws (CHR '']'' # s) = CHR '']'' # s"
  by (simp_all add: skip_ws_other is_ws_iff)

lemma json_members_key:
  assumes "plain_name k" and "json_value n d s = Some (v, t)"
  shows "json_members (Suc n) d (marshal_key k @ s) =
     (case skip_ws t of [] \<Rightarrow> None
      | c # r \<Rightarrow>
          if c = CHR '','' then map_option (\<lambda>(ms, u). ((k, v) # ms, u)) (json_members n d r)
          else if c = CHR ''}'' then Some ([(k, v)], r) else None)"
  using json_string_name [OF assms(1)] assms(2) by (simp add: marshal_key_def json_members.simps(2))

lemma reads_members_last:
  assumes "plain_name k" and "reads d s v (CHR ''}'' # t)"
  shows "reads_members d (marshal_key k @ s) [(k, v)] t"
proof -
  from assms(2) obtain n where "json_value n d s = Some (v, CHR ''}'' # t)" unfolding reads_def ..
  from json_members_key [OF assms(1) this] show ?thesis unfolding reads_members_def by auto
qed

lemma reads_members_cons:
  assumes "plain_name k" and "reads d s v (CHR '','' # r)" and "reads_members d r ms t"
  shows "reads_members d (marshal_key k @ s) ((k, v) # ms) t"
proof -
  from assms(2,3) obtain n m where "json_value n d s = Some (v, CHR '','' # r)"
    "json_members m d r = Some (ms, t)" unfolding reads_def reads_members_def by blast
  then have "json_value (max n m) d s = Some (v, CHR '','' # r)" "json_members (max n m) d r = Some (ms, t)"
    using json_value_mono(1) [of n "max n m"] json_value_mono(3) [of m "max n m"] by auto
  with json_members_key [OF assms(1) this(1)] show ?thesis
    unfolding reads_members_def by (intro exI [of _ "Suc (max n m)"]) simp
qed

lemma reads_object:
  assumes "0 < d" and "reads_members (d - 1) (marshal_key k @ s) ms t"
  shows "reads d (CHR ''{'' # marshal_key k @ s) (JObj ms) t"
proof -
  from assms(2) obtain n where "json_members n (d - 1) (marshal_key k @ s) = Some (ms, t)"
    unfolding reads_members_def ..
  with assms(1) show ?thesis unfolding reads_def
    by (intro exI [of _ "Suc n"]) (simp add: json_value.simps(2) marshal_key_def)
qed

lemma reads_elems_last: "reads d s v (CHR '']'' # t) \<Longrightarrow> reads_elems d s [v] t"
  unfolding reads_def reads_elems_def by (elim exE) (rule_tac x = "Suc n" in exI, simp add: json_elems.simps(2))

lemma reads_elems_cons:
  assumes "reads d s v (CHR '','' # r)" and "reads_elems d r vs t"
  shows "reads_elems d s (v # vs) t"
proof -
  from assms obtain n m where "json_value n d s = Some (v, CHR '','' # r)"
    "json_elems m d r = Some (vs, t)" unfolding reads_def reads_elems_def by blast
  then have "json_value (max n m) d s = Some (v, CHR '','' # r)" "json_elems (max n m) d r = Some (vs, t)"
    using json_value_mono(1) [of n "max n m"] json_value_mono(2) [of m "max n m"] by auto
  then show ?thesis unfolding reads_elems_def
    by (intro exI [of _ "Suc (max n m)"]) (simp add: json_elems.simps(2))
qed

lemma reads_array:
  assumes "0 < d" and "reads_elems (d - 1) (CHR ''{'' # s) vs t"
  shows "reads d (CHR ''['' # CHR ''{'' # s) (JArr vs) t"
proof -
  from assms(2) obtain n where "json_elems n (d - 1) (CHR ''{'' # s) = Some (vs, t)"
    unfolding reads_elems_def ..
  with assms(1) show ?thesis unfolding reads_def
    by (intro exI [of _ "Suc n"]) (simp add: json_value.simps(2))
qed

subsection \<open>Strings as json.Marshal writes them\<close>

lemma json_string_marshal_byte:
  assumes "n < 128"
  shows "json_string (marshal_byte n @ x) = prepend [byte n] (json_string x)"
proof -
  consider "n \<in> {34, 92}" | "n \<in> {8, 9, 10, 12, 13}"
    | "n < 32 \<or> n \<in> {38, 60, 62}" "n \<notin> {8, 9, 10, 12, 13}"
    | "32 \<le> n" "n \<notin> {34, 92, 38, 60, 62}" by force
  then show ?thesis
  proof cases
    case 1
    then have "simple_escape (byte n) = Some (byte n)" by (auto simp: simple_escape_def)
    from json_string_bare_escape [OF this] 1 show ?thesis by (auto simp: marshal_byte_def)
  next
    case 2
    then show ?thesis by (auto simp: marshal_byte_def json_string_bare_escape simple_escape_letters)
  next
    case 3
    have "\<not> is_surrogate n" using assms by (simp add: is_surrogate_def)
    with json_string_u_escape [of n x] 3 assms show ?thesis
      by (auto simp: marshal_byte_def encode_rune_ascii)
  next
    case 4
    with assms have "json_string (byte n # x) = prepend (encode_rune n) (json_string (drop (1 - 1) x))"
      by (intro json_string_plain) (auto simp: byte_inject decode_rune_ascii)
    with 4 assms show ?thesis by (auto simp: marshal_byte_def encode_rune_ascii)
  qed
qed

lemma json_string_marshal:
  "valid_utf8 s \<Longrightarrow> json_string (marshal_body s @ byte 34 # t) = Some (s, t)"
proof (induction s rule: marshal_body.induct)
  case 1
  then show ?case by (simp add: json_string.simps(2))
next
  case (2 c s)
  then have dec: "decodes c s" by (simp add: valid_utf8.simps(2))
  obtain r w where d: "decode_rune c s = (r, w)" by fastforce
  show ?case
  proof (cases "(of_char c :: nat) < 128")
    case True
    then have "decode_rune c s = (of_char c, 1)" by (rule decode_rune_ascii)
    with 2 True show ?thesis by (simp add: json_string_marshal_byte prepend_def)
  next
    case False
    have n: "\<not> (r = rune_error \<and> w = 1)" using dec d by (auto simp: decodes_def)
    have IH: "json_string (marshal_body (drop (w - 1) s) @ byte 34 # t) = Some (drop (w - 1) s, t)"
      using 2(3,4) [OF False d [symmetric] refl n] 2(5) d
      by (cases "r = 8232 \<or> r = 8233") (auto simp: valid_utf8.simps(2))
    have high: "128 \<le> r" using dec False d by (cases rule: decodes_cases) auto
    have enc: "encode_rune r @ drop (w - 1) s = c # s" using decode_encode(1) [OF dec d] by simp
    show ?thesis
    proof (cases "r = 8232 \<or> r = 8233")
      case True
      then have "r < 65536" "\<not> is_surrogate r" and "r \<noteq> rune_error"
        by (auto simp: is_surrogate_def rune_error_def)
      from json_string_u_escape [OF this(1,2)] this(3) True False n d IH enc show ?thesis
        by (simp add: prepend_def)
    next
      case other: False
      from json_string_rune [OF dec d] high have
        "json_string (encode_rune r @ x) = prepend (encode_rune r) (json_string x)" for x by simp
      with other False n d IH enc show ?thesis by (auto simp: prepend_def)
    qed
  qed
qed

lemma reads_marshal_string:
  "valid_utf8 s \<Longrightarrow> reads d (marshal_string s @ t) (JStr (marshal_body s) s) t"
  using reads_string [OF json_string_marshal] by (simp add: marshal_string_def)

subsection \<open>Member names\<close>

text \<open>On ASCII names folding keeps the length.\<close>

lemma fold_name_ascii:
  "list_all (\<lambda>c. (of_char c :: nat) < 128) s \<Longrightarrow> fold_name s = map upper_ascii s"
proof (induction s)
  case Nil
  then show ?case by simp
next
  case (Cons c s)
  then have "c \<noteq> byte 226" "c \<noteq> byte 197" by auto
  with Cons show ?case by simp
qed

lemma field_matches_ascii:
  assumes "list_all (\<lambda>c. (of_char c :: nat) < 128) a" "list_all (\<lambda>c. (of_char c :: nat) < 128) b"
    and "length a \<noteq> length b"
  shows "\<not> field_matches a b"
  using assms by (auto simp: field_matches_def fold_name_ascii dest: map_eq_imp_length_eq)

lemma field_matches_first:
  assumes "list_all (\<lambda>c. (of_char c :: nat) < 128) (c # a)" "list_all (\<lambda>c. (of_char c :: nat) < 128) (d # b)"
    and "upper_ascii c \<noteq> upper_ascii d"
  shows "\<not> field_matches (c # a) (d # b)"
proof -
  have "fold_name (c # a) = map upper_ascii (c # a)" "fold_name (d # b) = map upper_ascii (d # b)"
    using assms(1,2) by (simp_all only: fold_name_ascii)
  with assms(3) show ?thesis by (auto simp: field_matches_def simp del: fold_name.simps)
qed

lemma field_matches_self: "field_matches a a"
  by (simp add: field_matches_def)

end
