(* ===== verification/Go_Time.thy ===== *)
theory Go_Time
  imports Prelude "HOL-Library.Monad_Syntax"
begin

section \<open>Package time: times as RFC 3339 texts\<close>

text \<open>
  What encoding/json calls of package time for a field of type time.Time: MarshalJSON, which
  writes the time of its zone in the layout RFC3339Nano and refuses years outside 0 to 9999 and
  zones a day or more from UTC, and UnmarshalJSON, which parses the layout RFC3339 as time.Parse
  does (it also takes an hour of one digit, a comma before the fraction and offsets up to 24:60).

  A time is an instant, the number of nanoseconds from the epoch, and the offset of its location
  at that instant, in minutes east of UTC. No other offset occurs: the columns of the program are
  TIMESTAMP without time zone, which the driver reads at offset 0, and a parsed offset is hours
  and minutes (time.Parse takes the local zone instead of a fixed one only if it has the same
  offset then). Formatting depends on nothing else of a location.
\<close>

datatype gotime = Time (unix_nano: int) (zone_minutes: int)

abbreviation utc :: "int \<Rightarrow> gotime" where
  "utc t \<equiv> Time t 0"

subsection \<open>The calendar\<close>

definition leap :: "nat \<Rightarrow> bool" where
  "leap y \<longleftrightarrow> 4 dvd y \<and> (\<not> 100 dvd y \<or> 400 dvd y)"

definition days_in_year :: "nat \<Rightarrow> nat" where
  "days_in_year y = (if leap y then 366 else 365)"

definition days_in_month :: "nat \<Rightarrow> nat \<Rightarrow> nat" where
  "days_in_month y m = (if m = 2 then (if leap y then 29 else 28)
                        else if m = 4 \<or> m = 6 \<or> m = 9 \<or> m = 11 then 30 else 31)"

text \<open>The days from the first of January of the year 0, and within a year.\<close>

definition days_before_year :: "nat \<Rightarrow> nat" where
  "days_before_year y = 365 * y + (y + 3) div 4 + (y + 399) div 400 - (y + 99) div 100"

definition days_before_month :: "nat \<Rightarrow> nat \<Rightarrow> nat" where
  "days_before_month y m = sum_list (map (days_in_month y) [1..<m])"

definition epoch_days :: nat where
  "epoch_days = 719528"

text \<open>time.Date in UTC, for a date of the calendar.\<close>

definition time_Date :: "nat \<Rightarrow> nat \<Rightarrow> nat \<Rightarrow> nat \<Rightarrow> nat \<Rightarrow> nat \<Rightarrow> nat \<Rightarrow> int" where
  "time_Date y mo d h mi s ns =
     (int (days_before_year y + days_before_month y mo + (d - 1)) - int epoch_days) * 86400000000000 +
     int (h * 3600 + mi * 60 + s) * 1000000000 + int ns"

text \<open>The year and the day in it, by whole cycles of 400 years and then year by year.\<close>

function year_loop :: "nat \<Rightarrow> nat \<Rightarrow> nat \<times> nat" where
  "year_loop y d = (if d < days_in_year y then (y, d) else year_loop (y + 1) (d - days_in_year y))"
  by auto
termination by (relation "measure snd") (auto simp: days_in_year_def split: if_splits)

function month_loop :: "nat \<Rightarrow> nat \<Rightarrow> nat \<Rightarrow> nat \<times> nat" where
  "month_loop y m d = (if d < days_in_month y m then (m, d) else month_loop y (m + 1) (d - days_in_month y m))"
  by auto
termination by (relation "measure (\<lambda>(y, m, d). d)") (auto simp: days_in_month_def split: if_splits)

declare year_loop.simps [simp del] month_loop.simps [simp del]

definition date_of_days :: "nat \<Rightarrow> nat \<times> nat \<times> nat" where
  "date_of_days n =
     (case year_loop (400 * (n div 146097)) (n mod 146097) of (y, d) \<Rightarrow>
      case month_loop y 1 d of (m, e) \<Rightarrow> (y, m, e + 1))"

subsection \<open>Formatting\<close>

text \<open>A number with leading zeros to a fixed width.\<close>

primrec dec_pad :: "nat \<Rightarrow> nat \<Rightarrow> string" where
  "dec_pad 0 n = []"
| "dec_pad (Suc k) n = dec_pad k (n div 10) @ [digit_char (n mod 10)]"

text \<open>The fraction of RFC3339Nano: nine digits without the trailing zeros.\<close>

definition format_frac :: "nat \<Rightarrow> string" where
  "format_frac ns =
     (if ns = 0 then [] else CHR ''.'' # rev (dropWhile (\<lambda>c. c = CHR ''0'') (rev (dec_pad 9 ns))))"

definition format_clock :: "nat \<Rightarrow> string" where
  "format_clock t =
     dec_pad 2 (t div 3600) @ '':'' @ dec_pad 2 (t div 60 mod 60) @ '':'' @ dec_pad 2 (t mod 60)"

text \<open>The zone: Z for UTC, else the offset with its sign.\<close>

definition format_zone :: "int \<Rightarrow> string" where
  "format_zone z =
     (if z = 0 then ''Z''
      else (if z < 0 then CHR ''-'' else CHR ''+'') #
        dec_pad 2 (nat \<bar>z\<bar> div 60) @ '':'' @ dec_pad 2 (nat \<bar>z\<bar> mod 60))"

text \<open>The seconds of the zone's own clock, from the first of January of the year 0.\<close>

definition wall_seconds :: "gotime \<Rightarrow> int" where
  "wall_seconds t = unix_nano t div 1000000000 + zone_minutes t * 60 + int epoch_days * 86400"

text \<open>The text MarshalJSON puts between the quotes, or its error.\<close>

definition format_rfc3339 :: "gotime \<Rightarrow> string + string" where
  "format_rfc3339 t =
     (let secs = wall_seconds t in
      if secs < 0 \<or> int (days_before_year 10000) * 86400 \<le> secs
      then Inl ''Time.MarshalJSON: year outside of range [0,9999]''
      else if 24 * 60 \<le> \<bar>zone_minutes t\<bar>
      then Inl ''Time.MarshalJSON: timezone hour outside of range [0,23]''
      else (case date_of_days (nat secs div 86400) of (y, m, d) \<Rightarrow>
        Inr (dec_pad 4 y @ ''-'' @ dec_pad 2 m @ ''-'' @ dec_pad 2 d @ ''T'' @
              format_clock (nat secs mod 86400) @ format_frac (nat (unix_nano t mod 1000000000)) @
              format_zone (zone_minutes t))))"

subsection \<open>Parsing\<close>

text \<open>Exactly k digits; getnum with and without its flag fixed; a character of the layout.\<close>

definition fixed_num :: "nat \<Rightarrow> string \<Rightarrow> (nat \<times> string) option" where
  "fixed_num k s =
     (if k \<le> length s \<and> list_all is_digit (take k s) then Some (dec_value (take k s), drop k s) else None)"

definition short_num :: "string \<Rightarrow> (nat \<times> string) option" where
  "short_num s = (case fixed_num 2 s of Some x \<Rightarrow> Some x | None \<Rightarrow> fixed_num 1 s)"

definition skip_char :: "char \<Rightarrow> string \<Rightarrow> string option" where
  "skip_char c s = (case s of [] \<Rightarrow> None | d # r \<Rightarrow> if d = c then Some r else None)"

text \<open>A period or comma with at least one digit after it; digits after the ninth are dropped.\<close>

definition parse_frac :: "string \<Rightarrow> nat \<times> string" where
  "parse_frac s =
     (case s of c # r \<Rightarrow>
        if (c = CHR ''.'' \<or> c = CHR '','') \<and> r \<noteq> [] \<and> is_digit (hd r) then
          (let ds = take 9 (takeWhile is_digit r) in
           (dec_value ds * 10 ^ (9 - length ds), dropWhile is_digit r))
        else (0, s)
      | [] \<Rightarrow> (0, s))"

text \<open>The zone at the end of the text, as an offset in minutes.\<close>

definition parse_zone :: "string \<Rightarrow> int option" where
  "parse_zone s =
     (case s of [] \<Rightarrow> None
      | c # r \<Rightarrow>
          if c = CHR ''Z'' then (if r = [] then Some 0 else None)
          else if c = CHR ''+'' \<or> c = CHR ''-'' then
            do { (hr, r1) \<leftarrow> fixed_num 2 r;
                 r2 \<leftarrow> skip_char CHR '':'' r1;
                 (mm, r3) \<leftarrow> fixed_num 2 r2;
                 if 24 < hr \<or> 60 < mm \<or> r3 \<noteq> [] then None
                 else Some ((if c = CHR ''-'' then - 1 else 1) * int (hr * 60 + mm)) }
          else None)"

definition parse_date :: "string \<Rightarrow> ((nat \<times> nat \<times> nat) \<times> string) option" where
  "parse_date s =
     do { (y, s1) \<leftarrow> fixed_num 4 s;
          s2 \<leftarrow> skip_char CHR ''-'' s1;
          (m, s3) \<leftarrow> fixed_num 2 s2;
          s4 \<leftarrow> skip_char CHR ''-'' s3;
          (d, s5) \<leftarrow> fixed_num 2 s4;
          if m < 1 \<or> 12 < m \<or> d < 1 \<or> days_in_month y m < d then None else Some ((y, m, d), s5) }"

definition parse_clock :: "string \<Rightarrow> ((nat \<times> nat \<times> nat) \<times> string) option" where
  "parse_clock s =
     do { (h, s1) \<leftarrow> short_num s;
          s2 \<leftarrow> skip_char CHR '':'' s1;
          (mi, s3) \<leftarrow> fixed_num 2 s2;
          s4 \<leftarrow> skip_char CHR '':'' s3;
          (sc, s5) \<leftarrow> fixed_num 2 s4;
          if 24 \<le> h \<or> 60 \<le> mi \<or> 60 \<le> sc then None else Some ((h, mi, sc), s5) }"

definition parse_rfc3339 :: "string \<Rightarrow> gotime option" where
  "parse_rfc3339 s =
     do { ((y, m, d), s1) \<leftarrow> parse_date s;
          s2 \<leftarrow> skip_char CHR ''T'' s1;
          ((h, mi, sc), s3) \<leftarrow> parse_clock s2;
          let (ns, s4) = parse_frac s3;
          off \<leftarrow> parse_zone s4;
          Some (Time (time_Date y m d h mi sc ns - off * 60000000000) off) }"

subsection \<open>The calendar counts days\<close>

lemma ceil_step:
  fixes y k :: nat
  assumes "0 < k"
  shows "(y + 1 + (k - 1)) div k = (y + (k - 1)) div k + (if k dvd y then 1 else 0)"
proof -
  have e: "y + 1 + (k - 1) = Suc (y + (k - 1))" "Suc (y + (k - 1)) = y + k" using assms by simp_all
  have "Suc (y + (k - 1)) mod k = 0 \<longleftrightarrow> k dvd y" by (simp only: e(2) mod_add_self2 mod_eq_0_iff_dvd)
  then show ?thesis unfolding e(1) by (simp only: div_Suc) simp
qed

lemma century_le: "(y + 99) div 100 \<le> 365 * (y::nat)"
  by linarith

lemma leap_count:
  assumes "r \<Longrightarrow> q" and "q \<Longrightarrow> p" and "c \<le> 365 * (y::nat)"
  shows "365 * (y + 1) + (a + (if p then 1 else 0)) + (b + (if r then 1 else 0)) - (c + (if q then 1 else 0)) =
    365 * y + a + b - c + (if p \<and> (\<not> q \<or> r) then 366 else 365)"
  using assms by (cases p; cases q; cases r; simp)

lemma days_before_year_Suc: "days_before_year (y + 1) = days_before_year y + days_in_year y"
proof -
  have "(y + 1 + 3) div 4 = (y + 3) div 4 + (if 4 dvd y then 1 else 0)"
    "(y + 1 + 399) div 400 = (y + 399) div 400 + (if 400 dvd y then 1 else 0)"
    "(y + 1 + 99) div 100 = (y + 99) div 100 + (if 100 dvd y then 1 else 0)"
    using ceil_step [of 4 y] ceil_step [of 400 y] ceil_step [of 100 y] by simp_all
  note steps = this
  have "400 dvd y \<Longrightarrow> 100 dvd y" "100 dvd y \<Longrightarrow> 4 dvd y"
    using dvd_trans [of 100 400 y] dvd_trans [of 4 100 y] by simp_all
  from leap_count [OF this century_le] show ?thesis
    unfolding days_before_year_def days_in_year_def leap_def steps .
qed

lemma days_before_year_cycle: "days_before_year (400 * c) = 146097 * c"
proof -
  have "(400 * c + 3) div 4 = 100 * c" "(400 * c + 399) div 400 = c" "(400 * c + 99) div 100 = 4 * c"
    by linarith+
  then show ?thesis by (simp add: days_before_year_def)
qed

lemma days_before_year_mono: "x \<le> y \<Longrightarrow> days_before_year x \<le> days_before_year y"
  by (induction rule: dec_induct) (simp_all add: days_before_year_Suc [simplified])

lemma year_loop_days:
  "year_loop y d = (y', r) \<Longrightarrow> days_before_year y + d = days_before_year y' + r \<and> r < days_in_year y'"
proof (induction y d rule: year_loop.induct)
  case (1 y d)
  show ?case
  proof (cases "d < days_in_year y")
    case True
    with "1.prems" show ?thesis by (simp add: year_loop.simps)
  next
    case False
    with "1.prems" "1.IH" days_before_year_Suc [of y] show ?thesis
      by (simp add: year_loop.simps [of y d])
  qed
qed

lemma days_before_month_Suc:
  "1 \<le> m \<Longrightarrow> days_before_month y (m + 1) = days_before_month y m + days_in_month y m"
  by (simp add: days_before_month_def)

lemma days_before_month_13: "days_before_month y 13 = days_in_year y"
  by (simp add: days_before_month_def upt_rec days_in_month_def days_in_year_def)

lemma days_before_month_mono: "1 \<le> m \<Longrightarrow> m \<le> n \<Longrightarrow> days_before_month y m \<le> days_before_month y n"
proof (induction n)
  case (Suc n)
  then show ?case using days_before_month_Suc [of n y] by (cases "m = Suc n") auto
qed simp

lemma month_loop_days:
  "month_loop y m d = (m', r) \<Longrightarrow> 1 \<le> m \<Longrightarrow>
   1 \<le> m' \<and> days_before_month y m + d = days_before_month y m' + r \<and> r < days_in_month y m'"
proof (induction y m d rule: month_loop.induct)
  case (1 y m d)
  show ?case
  proof (cases "d < days_in_month y m")
    case True
    with "1.prems" show ?thesis by (simp add: month_loop.simps)
  next
    case False
    with "1.prems" "1.IH" days_before_month_Suc [of m y] show ?thesis
      by (simp add: month_loop.simps [of y m d])
  qed
qed

text \<open>The date of a day is a date of the calendar, and counting back gives the day.\<close>

lemma date_of_days_ok:
  assumes "date_of_days n = (y, m, d)"
  shows "days_before_year y + days_before_month y m + (d - 1) = n"
    and "1 \<le> m" "m \<le> 12" "1 \<le> d" "d \<le> days_in_month y m"
proof -
  obtain r e where yl: "year_loop (400 * (n div 146097)) (n mod 146097) = (y, r)"
    and ml: "month_loop y 1 r = (m, e)" and d: "d = e + 1"
    using assms by (auto simp: date_of_days_def split: prod.splits)
  from year_loop_days [OF yl] have r: "n = days_before_year y + r" "r < days_in_year y"
    by (simp_all add: days_before_year_cycle)
  from month_loop_days [OF ml] have e: "r = days_before_month y m + e" "e < days_in_month y m" "1 \<le> m"
    by (simp_all add: days_before_month_def)
  show "days_before_year y + days_before_month y m + (d - 1) = n" "1 \<le> m" "1 \<le> d" "d \<le> days_in_month y m"
    using r e d by simp_all
  show "m \<le> 12"
  proof (rule ccontr)
    assume "\<not> m \<le> 12"
    then have "days_before_month y 13 \<le> days_before_month y m" by (intro days_before_month_mono) simp_all
    with r e show False by (simp add: days_before_month_13)
  qed
qed

lemma date_of_days_year:
  assumes "date_of_days n = (y, m, d)" and "n < days_before_year 10000"
  shows "y < 10000"
proof (rule ccontr)
  assume "\<not> y < 10000"
  then have "days_before_year 10000 \<le> days_before_year y" by (intro days_before_year_mono) simp
  with date_of_days_ok(1) [OF assms(1)] assms(2) show False by simp
qed

subsection \<open>Reading what was written\<close>

lemma length_dec_pad [simp]: "length (dec_pad k n) = k"
  by (induction k arbitrary: n) simp_all

lemma dec_pad_digits: "list_all is_digit (dec_pad k n)"
  by (induction k arbitrary: n) simp_all

lemma dec_value_dec_pad: "n < 10 ^ k \<Longrightarrow> dec_value (dec_pad k n) = n"
proof (induction k arbitrary: n)
  case 0
  then show ?case by (simp add: dec_value_def)
next
  case (Suc k)
  then have "n div 10 < 10 ^ k" by (simp add: div_less_iff_less_mult)
  from Suc.IH [OF this] show ?case by (simp add: dec_value_snoc)
qed

lemma fixed_num_dec_pad: "n < 10 ^ k \<Longrightarrow> fixed_num k (dec_pad k n @ s) = Some (n, s)"
  by (simp add: fixed_num_def dec_pad_digits dec_value_dec_pad)

lemma short_num_dec_pad: "n < 100 \<Longrightarrow> short_num (dec_pad 2 n @ s) = Some (n, s)"
  by (simp add: short_num_def fixed_num_dec_pad)

lemma skip_char_Cons [simp]: "skip_char c (c # s) = Some s"
  by (simp add: skip_char_def)

lemma dec_value_append_zeros: "dec_value (s @ replicate k CHR ''0'') = dec_value s * 10 ^ k"
proof (induction k)
  case (Suc k)
  have "s @ replicate (Suc k) CHR ''0'' = (s @ replicate k CHR ''0'') @ [CHR ''0'']"
    by (simp add: replicate_append_same)
  then have "dec_value (s @ replicate (Suc k) CHR ''0'') = 10 * dec_value (s @ replicate k CHR ''0'')"
    by (simp only: dec_value_snoc) (simp add: digit_value_def)
  with Suc.IH show ?case by simp
qed simp

text \<open>Digits without their trailing zeros, padded again, have the value of all of them.\<close>

lemma strip_zeros:
  obtains k where "s = rev (dropWhile (\<lambda>c. c = z) (rev s)) @ replicate k z"
proof -
  let ?t = "takeWhile (\<lambda>c. c = z) (rev s)"
  have "\<forall>c \<in> set ?t. c = z" using set_takeWhileD by fast
  then have "?t = replicate (length ?t) z" by (metis replicate_length_same)
  then have "rev ?t = replicate (length ?t) z" by (metis rev_replicate)
  moreover have "s = rev (dropWhile (\<lambda>c. c = z) (rev s)) @ rev ?t"
    by (metis rev_append rev_rev_ident takeWhile_dropWhile_id)
  ultimately show thesis using that by metis
qed

lemma span_prefix:
  "\<forall>c \<in> set ds. p c \<Longrightarrow> \<not> p z \<Longrightarrow> takeWhile p (ds @ z # r) = ds \<and> dropWhile p (ds @ z # r) = z # r"
  by (induction ds) simp_all

lemma parse_frac_format:
  assumes "ns < 1000000000" and "s = z # r" and z: "\<not> is_digit z" "z \<noteq> CHR ''.''" "z \<noteq> CHR '',''"
  shows "parse_frac (format_frac ns @ s) = (ns, s)"
proof (cases "ns = 0")
  case True
  with assms(2) z show ?thesis by (simp add: format_frac_def parse_frac_def)
next
  case False
  let ?ds = "rev (dropWhile (\<lambda>c. c = CHR ''0'') (rev (dec_pad 9 ns)))"
  obtain k where k: "dec_pad 9 ns = ?ds @ replicate k CHR ''0''" using strip_zeros .
  have digits: "\<forall>c \<in> set ?ds. is_digit c"
    using dec_pad_digits [of 9 ns] k by (metis Un_iff list_all_iff set_append)
  have len: "length ?ds + k = 9" using arg_cong [OF k, of length] by simp
  have val: "dec_value ?ds * 10 ^ k = ns"
    using dec_value_dec_pad [of ns 9] assms(1) dec_value_append_zeros [of ?ds k] k by simp
  moreover have "dec_value [] = 0" by (simp add: dec_value_def)
  ultimately have ne: "?ds \<noteq> []" using False by (metis mult_0)
  have tw: "takeWhile is_digit (?ds @ s) = ?ds" "dropWhile is_digit (?ds @ s) = s"
    using span_prefix [OF digits z(1), of r] by (simp_all only: assms(2))
  have hd: "is_digit (hd (?ds @ s))" using ne digits by (metis hd_append2 hd_in_set)
  from len have "take 9 ?ds = ?ds" "9 - length ?ds = k" by simp_all
  with False ne hd tw val show ?thesis
    by (simp add: format_frac_def parse_frac_def Let_def)
qed

lemma clock_parts:
  fixes t :: nat
  assumes "t < 86400"
  shows "t div 3600 < 24" "t div 60 mod 60 < 60" "t mod 60 < 60"
    "t div 3600 * 3600 + t div 60 mod 60 * 60 + t mod 60 = t"
proof -
  show "t div 3600 < 24" using assms by (simp add: div_less_iff_less_mult)
  show "t div 60 mod 60 < 60" "t mod 60 < 60" by simp_all
  have "t div 60 div 60 * 60 + t div 60 mod 60 = t div 60" "t div 60 * 60 + t mod 60 = t"
    by (rule div_mult_mod_eq)+
  moreover have h: "t div 60 div 60 = t div 3600" by (simp add: div_mult2_eq [symmetric])
  ultimately have "(t div 3600 * 60 + t div 60 mod 60) * 60 + t mod 60 = t" by (simp only: h)
  then show "t div 3600 * 3600 + t div 60 mod 60 * 60 + t mod 60 = t" by (simp add: algebra_simps)
qed

lemma days_in_month_le: "days_in_month y m \<le> 31"
  by (simp add: days_in_month_def)

lemma parse_date_pad:
  assumes "y < 10000" and "1 \<le> m" "m \<le> 12" "1 \<le> d" "d \<le> days_in_month y m"
  shows "parse_date (dec_pad 4 y @ ''-'' @ dec_pad 2 m @ ''-'' @ dec_pad 2 d @ r) = Some ((y, m, d), r)"
proof -
  have "fixed_num 4 (dec_pad 4 y @ s) = Some (y, s)" "fixed_num 2 (dec_pad 2 m @ s) = Some (m, s)"
    "fixed_num 2 (dec_pad 2 d @ s) = Some (d, s)" for s
    using assms days_in_month_le [of y m] by (simp_all add: fixed_num_dec_pad)
  with assms(2-5) show ?thesis by (simp add: parse_date_def)
qed

lemma parse_clock_format:
  assumes "t < 86400"
  shows "parse_clock (format_clock t @ r) = Some ((t div 3600, t div 60 mod 60, t mod 60), r)"
proof -
  obtain h mi sc where e: "h = t div 3600" "mi = t div 60 mod 60" "sc = t mod 60" by blast
  then have l: "h < 24" "mi < 60" "sc < 60" using clock_parts(1-3) [OF assms] by simp_all
  then have "short_num (dec_pad 2 h @ s) = Some (h, s)" "fixed_num 2 (dec_pad 2 mi @ s) = Some (mi, s)"
    "fixed_num 2 (dec_pad 2 sc @ s) = Some (sc, s)" for s
    by (simp_all add: fixed_num_dec_pad short_num_dec_pad)
  with l show ?thesis unfolding parse_clock_def format_clock_def e [symmetric] by simp
qed

lemma int_div_mod: "int (n div k) * int k + int (n mod k) = int n"
  by (metis div_mult_mod_eq of_nat_add of_nat_mult)

lemma instant_parts:
  fixes a b q r e t :: int
  assumes "a * 86400 + b = q + e * 86400" and "q * 1000000000 + r = t"
  shows "(a - e) * 86400000000000 + b * 1000000000 + r = t"
proof -
  have "(a - e) * 86400 + b = q" using assms(1) by (simp add: algebra_simps)
  then have "((a - e) * 86400 + b) * 1000000000 + r = t" using assms(2) by simp
  then show ?thesis by (simp add: distrib_right)
qed

lemma parse_zone_format:
  assumes "\<bar>z\<bar> < 24 * 60"
  shows "parse_zone (format_zone z) = Some z"
proof (cases "z = 0")
  case False
  let ?h = "nat \<bar>z\<bar> div 60" and ?m = "nat \<bar>z\<bar> mod 60"
  have h: "?h < 24" using assms by (simp add: div_less_iff_less_mult nat_less_iff)
  have m: "?m < 60" by simp
  have nums: "fixed_num 2 (dec_pad 2 ?h @ s) = Some (?h, s)" "fixed_num 2 (dec_pad 2 ?m) = Some (?m, [])" for s
    using h m fixed_num_dec_pad [of ?h 2 s] fixed_num_dec_pad [of ?m 2 "[]"] by simp_all
  have "int (?h * 60 + ?m) = \<bar>z\<bar>" using div_mult_mod_eq [of "nat \<bar>z\<bar>" 60] by simp
  with False h m nums show ?thesis
    by (cases "z < 0") (simp_all add: format_zone_def parse_zone_def)
qed (simp add: format_zone_def parse_zone_def)

lemma format_zone_start:
  obtains c r where "format_zone z = c # r" "\<not> is_digit c" "c \<noteq> CHR ''.''" "c \<noteq> CHR '',''"
proof (rule that)
  show "format_zone z = hd (format_zone z) # tl (format_zone z)" by (simp add: format_zone_def)
qed (auto simp: format_zone_def is_digit_def)

lemma parse_format_rfc3339:
  assumes "format_rfc3339 t = Inr s"
  shows "parse_rfc3339 s = Some t"
proof -
  let ?secs = "wall_seconds t" and ?z = "zone_minutes t"
  obtain y m d where date: "date_of_days (nat ?secs div 86400) = (y, m, d)" by (metis prod_cases3)
  have range: "0 \<le> ?secs" "?secs < int (days_before_year 10000) * 86400" and z: "\<bar>?z\<bar> < 24 * 60"
    and s: "s = dec_pad 4 y @ ''-'' @ dec_pad 2 m @ ''-'' @ dec_pad 2 d @ ''T'' @
      format_clock (nat ?secs mod 86400) @ format_frac (nat (unix_nano t mod 1000000000)) @ format_zone ?z"
    using assms date by (auto simp: format_rfc3339_def Let_def split: if_splits)
  note ok = date_of_days_ok [OF date]
  have "nat ?secs div 86400 < days_before_year 10000"
    using range by (simp add: div_less_iff_less_mult nat_less_iff)
  from date_of_days_year [OF date this] have y: "y < 10000" .
  let ?c = "nat ?secs mod 86400"
  have "?c < 86400" by simp
  note c = clock_parts [OF this]
  let ?ns = "nat (unix_nano t mod 1000000000)"
  have ns_int: "int ?ns = unix_nano t mod 1000000000" by simp
  have ns: "?ns < 1000000000" by (simp add: nat_less_iff)
  obtain e r where e: "format_zone ?z = e # r" "\<not> is_digit e" "e \<noteq> CHR ''.''" "e \<noteq> CHR '',''"
    by (rule format_zone_start)
  have "time_Date y m d (?c div 3600) (?c div 60 mod 60) (?c mod 60) ?ns = unix_nano t + ?z * 60000000000"
  proof -
    have "int (nat ?secs div 86400) * 86400 + int ?c =
        unix_nano t div 1000000000 + ?z * 60 + int epoch_days * 86400"
      using range(1) int_div_mod [of "nat ?secs" 86400] by (simp add: wall_seconds_def [symmetric])
    moreover have "unix_nano t div 1000000000 * 1000000000 + unix_nano t mod 1000000000 = unix_nano t" by simp
    then have "(unix_nano t div 1000000000 + ?z * 60) * 1000000000 + unix_nano t mod 1000000000 =
        unix_nano t + ?z * 60000000000" by (simp only: distrib_right)
    ultimately show ?thesis unfolding time_Date_def ok(1) c(4) ns_int by (rule instant_parts)
  qed
  moreover have "parse_rfc3339 s =
      Some (Time (time_Date y m d (?c div 3600) (?c div 60 mod 60) (?c mod 60) ?ns - ?z * 60000000000) ?z)"
    unfolding parse_rfc3339_def s append_assoc parse_date_pad [OF y ok(2-5)]
    by (simp add: parse_clock_format [simplified append_assoc] parse_frac_format [OF ns e] parse_zone_format [OF z])
  ultimately show ?thesis by simp
qed

text \<open>The times MarshalJSON writes: in the years 0 to 9999 of a zone less than a day from UTC.\<close>

definition writable :: "gotime \<Rightarrow> bool" where
  "writable t \<longleftrightarrow>
     - 62167219200 \<le> unix_nano t div 1000000000 + zone_minutes t * 60 \<and>
     unix_nano t div 1000000000 + zone_minutes t * 60 < 253402300800 \<and>
     \<bar>zone_minutes t\<bar> < 24 * 60"

lemma format_rfc3339_range: "isl (format_rfc3339 t) \<longleftrightarrow> \<not> writable t"
  by (auto simp: writable_def format_rfc3339_def wall_seconds_def Let_def epoch_days_def days_before_year_def
      split: prod.splits)

end
