(* ===== verification/Models.thy ===== *)
theory Models
  imports Quote_Lemmas Go_Time
begin

section \<open>Models and schema: internal/task/model.go, internal/user/model.go, migrations\<close>

text \<open>
  The structs Task, TaskPayload, TaskResponse and User, and the two tables the migrations
  build. A row of a table carries the same columns as its struct, so the tables are lists of
  structs; a nullable column is an option, a timestamp a time in UTC.
  What the database driver and the server report is the record \<open>driver\<close>, whether a call
  reaches the server at all is the record of the call (\<open>sql_stmt\<close>, \<open>sql_query\<close>): both are
  parameters of every operation on the tables.
\<close>

subsection \<open>Structs\<close>

record task =
  ID :: int
  UserID :: int
  TaskType :: string
  Status :: string
  ResultFile :: "string option"
  ErrorMessage :: "string option"
  CreatedAt :: gotime
  UpdatedAt :: gotime

record task_payload =
  payload_ID :: int
  payload_UserID :: int
  payload_TaskType :: string

text \<open>TaskResponse, which no code of the program uses.\<close>

record task_response =
  response_ID :: int
  response_Status :: string
  response_ResultFile :: "string option"
  response_Error :: "string option"

record user =
  user_ID :: int
  Username :: string
  Password :: string
  user_CreatedAt :: gotime

text \<open>The zero value of time.Time: the first of January of the year 1, in UTC.\<close>

definition zero_time :: gotime where
  "zero_time = utc (- 62135596800 * 1000000000)"

subsection \<open>The two tables\<close>

record database =
  tasks_tbl :: "task list"
  users_tbl :: "user list"

definition task_at :: "database \<Rightarrow> int \<Rightarrow> task option" where
  "task_at db = row_at ID (tasks_tbl db)"

definition user_at :: "database \<Rightarrow> int \<Rightarrow> user option" where
  "user_at db = row_at user_ID (users_tbl db)"

subsection \<open>Column types\<close>

text \<open>INTEGER holds 32-bit values.\<close>

definition int4_ok :: "int \<Rightarrow> bool" where
  "int4_ok i \<longleftrightarrow> - (2 ^ 31) \<le> i \<and> i < 2 ^ 31"

lemma int4_int64: "int4_ok i \<Longrightarrow> in_int64 i"
  by (simp add: int4_ok_def in_int64_def)

text \<open>
  The number of runes of a UTF-8 string: its bytes that do not continue a sequence.
  VARCHAR(n) bounds it; a longer value is an error unless what is over the bound is spaces,
  which are cut.
\<close>

definition is_continuation :: "char \<Rightarrow> bool" where
  "is_continuation c \<longleftrightarrow> 128 \<le> (of_char c :: nat) \<and> (of_char c :: nat) < 192"

definition rune_count :: "string \<Rightarrow> nat" where
  "rune_count s = length (filter (\<lambda>c. \<not> is_continuation c) s)"

fun varchar :: "nat \<Rightarrow> string \<Rightarrow> string option" where
  "varchar n s =
     (if rune_count s \<le> n then Some s
      else if s \<noteq> [] \<and> last s = CHR '' '' then varchar n (butlast s) else None)"

declare varchar.simps [simp del]

lemma varchar_fits: "rune_count s \<le> n \<Longrightarrow> varchar n s = Some s"
  by (simp add: varchar.simps)

lemma varchar_bound: "varchar n s = Some v \<Longrightarrow> rune_count v \<le> n"
proof (induction n s rule: varchar.induct)
  case (1 n s)
  show ?case
  proof (cases "rune_count s \<le> n")
    case True
    with "1.prems" show ?thesis by (simp add: varchar_fits)
  next
    case False
    with "1.prems" have "s \<noteq> [] \<and> last s = CHR '' '' \<and> varchar n (butlast s) = Some v"
      by (subst (asm) varchar.simps) (auto split: if_splits)
    with False "1.IH" show ?thesis by blast
  qed
qed

lemma varchar_valid: "varchar n s = Some v \<Longrightarrow> valid_utf8 s \<Longrightarrow> valid_utf8 v"
proof (induction n s rule: varchar.induct)
  case (1 n s)
  show ?case
  proof (cases "rune_count s \<le> n")
    case True
    with "1.prems" show ?thesis by (simp add: varchar_fits)
  next
    case False
    with "1.prems"(1) have s: "s \<noteq> []" "last s = CHR '' ''" "varchar n (butlast s) = Some v"
      by (subst (asm) varchar.simps, simp split: if_splits)+
    from s(1,2) "1.prems"(2) have "valid_utf8 (butlast s @ [CHR '' ''])" by (metis append_butlast_last_id)
    from valid_utf8_cut [OF this] have "valid_utf8 (butlast s)" by simp
    with False s "1.IH" show ?thesis by blast
  qed
qed

text \<open>What the columns of a row can hold; the database is encoded in UTF-8.\<close>

definition row_fits :: "task \<Rightarrow> bool" where
  "row_fits t \<longleftrightarrow> int4_ok (ID t) \<and> int4_ok (UserID t) \<and>
     valid_utf8 (TaskType t) \<and> rune_count (TaskType t) \<le> 50 \<and>
     valid_utf8 (Status t) \<and> rune_count (Status t) \<le> 20 \<and>
     pred_option valid_utf8 (ResultFile t) \<and> pred_option valid_utf8 (ErrorMessage t)"

definition user_fits :: "user \<Rightarrow> bool" where
  "user_fits u \<longleftrightarrow> int4_ok (user_ID u) \<and> valid_utf8 (Username u) \<and> rune_count (Username u) \<le> 50 \<and>
     valid_utf8 (Password u)"

text \<open>
  The rows fit their columns, and the primary keys of both tables and the constraint UNIQUE on
  users.username hold.
\<close>

definition wf_db :: "database \<Rightarrow> bool" where
  "wf_db db \<longleftrightarrow> list_all row_fits (tasks_tbl db) \<and> list_all user_fits (users_tbl db) \<and>
     distinct (map ID (tasks_tbl db)) \<and> distinct (map user_ID (users_tbl db)) \<and>
     distinct (map Username (users_tbl db))"

subsection \<open>What the driver and the server contribute\<close>

text \<open>
  The errors of the driver: a value outside INTEGER (an argument or a generated id), a value
  too long for VARCHAR, a text that is not UTF-8, any other text the server does not accept
  (None when it does), a unique constraint violated (by its name).
\<close>

record driver =
  drv_int4 :: goerr
  drv_varchar :: goerr
  drv_encoding :: "string \<Rightarrow> goerr"
  drv_text :: "string \<Rightarrow> goerr option"
  drv_unique :: "string \<Rightarrow> goerr"

definition text_error :: "driver \<Rightarrow> string \<Rightarrow> goerr option" where
  "text_error drv s = (if valid_utf8 s then drv_text drv s else Some (drv_encoding drv s))"

lemma text_error_None: "text_error drv s = None \<longleftrightarrow> valid_utf8 s \<and> drv_text drv s = None"
  by (simp add: text_error_def)

text \<open>
  One statement: the transaction's NOW() in nanoseconds, the value the identity column generates, and the
  error of a call that fails before it has any effect (lost connection, timeout).
\<close>

record sql_stmt =
  st_now :: int
  st_gen_id :: int
  st_fault :: "goerr option"

text \<open>
  One query: the error of the call, the order in which the server returns the rows (no query
  of the program has ORDER BY), the error of Scan on a row, the error of rows.Err.
\<close>

record sql_query =
  q_fault :: "goerr option"
  q_order :: "task list \<Rightarrow> task list"
  q_scan :: "task \<Rightarrow> goerr option"
  q_rows_err :: "goerr option"

text \<open>A query whose order is a reordering of the rows, the only thing SELECT promises.\<close>

definition order_ok :: "sql_query \<Rightarrow> bool" where
  "order_ok q \<longleftrightarrow> (\<forall>ts. set (q_order q ts) = set ts \<and> length (q_order q ts) = length ts)"

definition plain_stmt :: "int \<Rightarrow> int \<Rightarrow> sql_stmt" where
  "plain_stmt now i = \<lparr>st_now = now, st_gen_id = i, st_fault = None\<rparr>"

definition plain_query :: sql_query where
  "plain_query = \<lparr>q_fault = None, q_order = (\<lambda>ts. ts), q_scan = (\<lambda>_. None), q_rows_err = None\<rparr>"

lemma order_ok_plain: "order_ok plain_query"
  by (simp add: order_ok_def plain_query_def)

end
