(* ===== verification/Tx.thy ===== *)
theory Tx
  imports Models
begin

section \<open>Transactions: internal/utils/tx.go\<close>

text \<open>
  WithTransaction over a store of any type. The closure runs on the store as the transaction
  sees it and on the variables of the caller it captures, which no rollback restores; it
  returns an error or nil, or it panics. Begin may fail; Commit may succeed, fail with the
  work lost, or report an error although the server has made the work durable (the
  connection was lost in between): the three outcomes are a parameter of the call.
  The error of Rollback is dropped by the code; the server abandons an unfinished
  transaction in any case.
\<close>

datatype outcome = Returned "goerr option" | Panicked string

datatype commit_outcome = Commit_ok | Commit_lost goerr | Commit_unknown goerr

record tx_env =
  tx_begin_err :: "goerr option"
  tx_commit :: commit_outcome

definition plain_tx :: tx_env where
  "plain_tx = \<lparr>tx_begin_err = None, tx_commit = Commit_ok\<rparr>"

definition WithTransaction ::
  "tx_env \<Rightarrow> ('l \<Rightarrow> 's \<Rightarrow> outcome \<times> 'l \<times> 's) \<Rightarrow> 'l \<Rightarrow> 's \<Rightarrow> outcome \<times> 'l \<times> 's" where
  "WithTransaction env fn l db =
     (case tx_begin_err env of
        Some e \<Rightarrow> (Returned (Some e), l, db)
      | None \<Rightarrow>
          (case fn l db of
             (Panicked p, l', db') \<Rightarrow> (Panicked p, l', db)
           | (Returned (Some e), l', db') \<Rightarrow> (Returned (Some e), l', db)
           | (Returned None, l', db') \<Rightarrow>
               (case tx_commit env of
                  Commit_ok \<Rightarrow> (Returned None, l', db')
                | Commit_lost e \<Rightarrow> (Returned (Some e), l', db)
                | Commit_unknown e \<Rightarrow> (Returned (Some e), l', db'))))"

lemmas tx_splits = option.splits outcome.splits commit_outcome.splits prod.splits

text \<open>A closure without captured variables: what the worker passes.\<close>

definition stmt_closure ::
  "('s \<Rightarrow> goerr option \<times> 's) \<Rightarrow> unit \<Rightarrow> 's \<Rightarrow> outcome \<times> unit \<times> 's" where
  "stmt_closure f l db = (case f db of (r, db') \<Rightarrow> (Returned r, l, db'))"

text \<open>The one database call of a transaction of the worker, with the faults of the three parts.\<close>

definition run_stmt ::
  "tx_env \<Rightarrow> ('s \<Rightarrow> goerr option \<times> 's) \<Rightarrow> 's \<Rightarrow> goerr option \<times> 's" where
  "run_stmt env f db =
     (case WithTransaction env (stmt_closure f) () db of
        (Returned r, _, db') \<Rightarrow> (r, db')
      | (Panicked p, _, db') \<Rightarrow> (None, db'))"

subsection \<open>Atomicity\<close>

text \<open>The store afterwards is the one before or the one the closure made, never a third.\<close>

lemma WithTransaction_store:
  "WithTransaction env fn l db = (r, l', db') \<Longrightarrow> db' = db \<or> db' = snd (snd (fn l db))"
  by (auto simp: WithTransaction_def split: tx_splits)

lemma WithTransaction_commit:
  "WithTransaction env fn l db = (Returned None, l', db') \<Longrightarrow>
   fn l db = (Returned None, l', db')"
  by (auto simp: WithTransaction_def split: tx_splits)

lemma WithTransaction_panic:
  "WithTransaction env fn l db = (Panicked p, l', db') \<Longrightarrow>
   db' = db \<and> (\<exists>db''. fn l db = (Panicked p, l', db''))"
  by (auto simp: WithTransaction_def split: tx_splits)

lemma WithTransaction_error:
  "WithTransaction env fn l db = (Returned (Some e), l', db') \<Longrightarrow>
   \<forall>e'. tx_commit env \<noteq> Commit_unknown e' \<Longrightarrow> db' = db"
  by (auto simp: WithTransaction_def split: tx_splits)

lemma WithTransaction_invariant:
  assumes "I db" and "\<And>r l' db'. fn l db = (r, l', db') \<Longrightarrow> I db'"
    and "WithTransaction env fn l db = (r, l', db')"
  shows "I db'"
  using assms WithTransaction_store [OF assms(3)] by (metis prod.collapse)

text \<open>The same facts for the single statement.\<close>

lemma run_stmt_eq:
  "run_stmt env f db =
     (case tx_begin_err env of
        Some e \<Rightarrow> (Some e, db)
      | None \<Rightarrow>
          (case f db of
             (Some e, db') \<Rightarrow> (Some e, db)
           | (None, db') \<Rightarrow>
               (case tx_commit env of
                  Commit_ok \<Rightarrow> (None, db')
                | Commit_lost e \<Rightarrow> (Some e, db)
                | Commit_unknown e \<Rightarrow> (Some e, db'))))"
  by (auto simp: run_stmt_def WithTransaction_def stmt_closure_def split: tx_splits)

lemma run_stmt_None: "run_stmt env f db = (None, db') \<Longrightarrow> f db = (None, db')"
  by (auto simp: run_stmt_eq split: tx_splits)

lemma run_stmt_store:
  "run_stmt env f db = (r, db') \<Longrightarrow> db' = db \<or> f db = (None, db')"
  by (auto simp: run_stmt_eq split: tx_splits)

lemma run_stmt_plain: "run_stmt plain_tx f db = (case f db of (None, db') \<Rightarrow> (None, db') | (Some e, _) \<Rightarrow> (Some e, db))"
  by (auto simp: run_stmt_eq plain_tx_def split: tx_splits)

end
