(* ===== verification/Task_Repository.thy ===== *)
theory Task_Repository
  imports Models
begin

section \<open>Task repository: internal/task/repository.go\<close>

text \<open>
  The six queries of TaskRepository on the table \<open>tasks\<close>, the interface
  TaskRepositoryInterface as a record of operations, and the laws its clients (the task
  service and the worker) rely on as the locale \<open>task_repository\<close>, interpreted on
  TaskRepository itself.
\<close>

subsection \<open>The operations\<close>

text \<open>
  Create: INSERT with the arguments user_id, task_type and status, both timestamps NOW() and
  the generated id; result_file and error_message stay NULL. The statement fails without
  effect on a fault of the call, an argument or generated id outside its column type, or an id
  that is taken.
\<close>

definition TaskRepository_Create ::
  "driver \<Rightarrow> sql_stmt \<Rightarrow> task \<Rightarrow> database \<Rightarrow> int result \<times> database" where
  "TaskRepository_Create drv st t db =
     (case st_fault st of Some e \<Rightarrow> (Inl e, db) | None \<Rightarrow>
      if \<not> int4_ok (UserID t) \<or> \<not> int4_ok (st_gen_id st) then (Inl (drv_int4 drv), db) else
      case text_error drv (TaskType t) of Some e \<Rightarrow> (Inl e, db) | None \<Rightarrow>
      case text_error drv (Status t) of Some e \<Rightarrow> (Inl e, db) | None \<Rightarrow>
      case (varchar 50 (TaskType t), varchar 20 (Status t)) of
        (Some ty, Some stat) \<Rightarrow>
          if task_at db (st_gen_id st) \<noteq> None then (Inl (drv_unique drv ''tasks_pkey''), db)
          else (Inr (st_gen_id st),
                db\<lparr>tasks_tbl := tasks_tbl db @
                  [\<lparr>ID = st_gen_id st, UserID = UserID t, TaskType = ty, Status = stat,
                    ResultFile = None, ErrorMessage = None,
                    CreatedAt = utc (st_now st), UpdatedAt = utc (st_now st)\<rparr>]\<rparr>)
      | _ \<Rightarrow> (Inl (drv_varchar drv), db))"

text \<open>GetByID: the row with the id; no row becomes the error task not found.\<close>

definition TaskRepository_GetByID ::
  "driver \<Rightarrow> sql_query \<Rightarrow> database \<Rightarrow> int \<Rightarrow> task result" where
  "TaskRepository_GetByID drv q db i =
     (let scanned =
        (case q_fault q of Some e \<Rightarrow> Inl e | None \<Rightarrow>
         if \<not> int4_ok i then Inl (drv_int4 drv) else
         case task_at db i of None \<Rightarrow> Inl ErrNoRows | Some t \<Rightarrow>
         case q_scan q t of Some e \<Rightarrow> Inl e | None \<Rightarrow> Inr t)
      in case scanned of
           Inl e \<Rightarrow> if e = ErrNoRows then Inl (ErrorString ''task not found'') else Inl e
         | Inr t \<Rightarrow> Inr t)"

text \<open>
  GetByUserID: the loop over the rows appends every row that scans and skips a row that does
  not; an error of the iteration as a whole is returned after it.
\<close>

primrec scan_rows :: "(task \<Rightarrow> goerr option) \<Rightarrow> task list \<Rightarrow> task list \<Rightarrow> task list" where
  "scan_rows scan [] tasks = tasks"
| "scan_rows scan (t # ts) tasks =
     (case scan t of Some e \<Rightarrow> scan_rows scan ts tasks
      | None \<Rightarrow> scan_rows scan ts (tasks @ [t]))"

definition TaskRepository_GetByUserID ::
  "driver \<Rightarrow> sql_query \<Rightarrow> database \<Rightarrow> int \<Rightarrow> task list result" where
  "TaskRepository_GetByUserID drv q db u =
     (case q_fault q of Some e \<Rightarrow> Inl e | None \<Rightarrow>
      if \<not> int4_ok u then Inl (drv_int4 drv) else
      let tasks = scan_rows (q_scan q)
                    (q_order q (filter (\<lambda>t. UserID t = u) (tasks_tbl db))) [] in
      case q_rows_err q of Some e \<Rightarrow> Inl e | None \<Rightarrow> Inr tasks)"

text \<open>UPDATE tasks SET ... WHERE id = $n: every row with the id, none is no error.\<close>

definition update_tasks :: "int \<Rightarrow> (task \<Rightarrow> task) \<Rightarrow> database \<Rightarrow> database" where
  "update_tasks i f db = db\<lparr>tasks_tbl := update_at ID i f (tasks_tbl db)\<rparr>"

definition TaskRepository_MarkProcessing ::
  "driver \<Rightarrow> sql_stmt \<Rightarrow> int \<Rightarrow> database \<Rightarrow> goerr option \<times> database" where
  "TaskRepository_MarkProcessing drv st i db =
     (case st_fault st of Some e \<Rightarrow> (Some e, db) | None \<Rightarrow>
      if \<not> int4_ok i then (Some (drv_int4 drv), db) else
      (None, update_tasks i (\<lambda>t. t\<lparr>Status := ''PROCESSING'', UpdatedAt := utc (st_now st)\<rparr>) db))"

definition TaskRepository_MarkSuccess ::
  "driver \<Rightarrow> sql_stmt \<Rightarrow> int \<Rightarrow> string \<Rightarrow> database \<Rightarrow> goerr option \<times> database" where
  "TaskRepository_MarkSuccess drv st i resultFile db =
     (case st_fault st of Some e \<Rightarrow> (Some e, db) | None \<Rightarrow>
      case text_error drv resultFile of Some e \<Rightarrow> (Some e, db) | None \<Rightarrow>
      if \<not> int4_ok i then (Some (drv_int4 drv), db) else
      (None, update_tasks i (\<lambda>t. t\<lparr>Status := ''SUCCESS'', ResultFile := Some resultFile,
                                  UpdatedAt := utc (st_now st)\<rparr>) db))"

definition TaskRepository_MarkFailed ::
  "driver \<Rightarrow> sql_stmt \<Rightarrow> int \<Rightarrow> string \<Rightarrow> database \<Rightarrow> goerr option \<times> database" where
  "TaskRepository_MarkFailed drv st i errorMessage db =
     (case st_fault st of Some e \<Rightarrow> (Some e, db) | None \<Rightarrow>
      case text_error drv errorMessage of Some e \<Rightarrow> (Some e, db) | None \<Rightarrow>
      if \<not> int4_ok i then (Some (drv_int4 drv), db) else
      (None, update_tasks i (\<lambda>t. t\<lparr>Status := ''FAILED'', ErrorMessage := Some errorMessage,
                                  UpdatedAt := utc (st_now st)\<rparr>) db))"

subsection \<open>The interface\<close>

record task_repo =
  repo_Create :: "sql_stmt \<Rightarrow> task \<Rightarrow> database \<Rightarrow> int result \<times> database"
  repo_GetByID :: "sql_query \<Rightarrow> database \<Rightarrow> int \<Rightarrow> task result"
  repo_GetByUserID :: "sql_query \<Rightarrow> database \<Rightarrow> int \<Rightarrow> task list result"
  repo_MarkProcessing :: "sql_stmt \<Rightarrow> int \<Rightarrow> database \<Rightarrow> goerr option \<times> database"
  repo_MarkSuccess :: "sql_stmt \<Rightarrow> int \<Rightarrow> string \<Rightarrow> database \<Rightarrow> goerr option \<times> database"
  repo_MarkFailed :: "sql_stmt \<Rightarrow> int \<Rightarrow> string \<Rightarrow> database \<Rightarrow> goerr option \<times> database"

definition NewTaskRepository :: "driver \<Rightarrow> task_repo" where
  "NewTaskRepository drv =
     \<lparr>repo_Create = TaskRepository_Create drv, repo_GetByID = TaskRepository_GetByID drv,
      repo_GetByUserID = TaskRepository_GetByUserID drv,
      repo_MarkProcessing = TaskRepository_MarkProcessing drv,
      repo_MarkSuccess = TaskRepository_MarkSuccess drv,
      repo_MarkFailed = TaskRepository_MarkFailed drv\<rparr>"

lemmas task_repo_defs [op_defs] = TaskRepository_Create_def TaskRepository_GetByID_def
  TaskRepository_GetByUserID_def TaskRepository_MarkProcessing_def
  TaskRepository_MarkSuccess_def TaskRepository_MarkFailed_def

subsection \<open>Lemmas on the tables\<close>

lemma update_tasks_users [frame_simps]: "users_tbl (update_tasks i f db) = users_tbl db"
  by (simp add: update_tasks_def)

lemma task_at_update_tasks:
  assumes "\<And>t. ID (f t) = ID t"
  shows "task_at (update_tasks i f db) j =
    (if j = i then map_option f (task_at db i) else task_at db j)"
  using assms by (simp add: task_at_def update_tasks_def row_at_update)

lemma wf_db_update_tasks:
  assumes "\<And>t. ID (f t) = ID t" and "\<And>t. row_fits t \<Longrightarrow> row_fits (f t)" and "wf_db db"
  shows "wf_db (update_tasks i f db)"
proof -
  have "list_all row_fits (update_at ID i f (tasks_tbl db))"
    using assms(2,3) by (auto simp: wf_db_def update_at_def list_all_iff)
  with assms(1,3) show ?thesis by (simp add: wf_db_def update_tasks_def keys_update_at)
qed

lemma task_at_SomeD: "task_at db i = Some t \<Longrightarrow> t \<in> set (tasks_tbl db) \<and> ID t = i"
  unfolding task_at_def by (rule row_at_SomeD)

lemma task_at_mem: "wf_db db \<Longrightarrow> t \<in> set (tasks_tbl db) \<Longrightarrow> task_at db (ID t) = Some t"
  by (simp add: task_at_def wf_db_def row_at_in)

lemma task_at_fits: "wf_db db \<Longrightarrow> task_at db i = Some t \<Longrightarrow> row_fits t"
  using task_at_SomeD by (fastforce simp: wf_db_def list_all_iff)

lemma scan_rows_eq: "scan_rows scan ts acc = acc @ filter (\<lambda>t. scan t = None) ts"
  by (induction ts arbitrary: acc) (auto split: option.splits)

text \<open>What a new row looks like.\<close>

definition created_row :: "sql_stmt \<Rightarrow> task \<Rightarrow> task \<Rightarrow> bool" where
  "created_row st t r \<longleftrightarrow> row_fits r \<and> ID r = st_gen_id st \<and> UserID r = UserID t
     \<and> varchar 50 (TaskType t) = Some (TaskType r) \<and> varchar 20 (Status t) = Some (Status r)
     \<and> ResultFile r = None \<and> ErrorMessage r = None
     \<and> CreatedAt r = utc (st_now st) \<and> UpdatedAt r = utc (st_now st)"

lemma Create_ok:
  assumes "TaskRepository_Create drv st t db = (Inr i, db')"
  shows "i = st_gen_id st \<and> task_at db i = None \<and> users_tbl db' = users_tbl db \<and>
    (\<exists>r. created_row st t r \<and> tasks_tbl db' = tasks_tbl db @ [r])"
  using assms
  by (auto simp: TaskRepository_Create_def created_row_def row_fits_def text_error_None varchar_bound
      dest: varchar_valid split: option.splits if_splits)

lemma Create_err: "TaskRepository_Create drv st t db = (Inl e, db') \<Longrightarrow> db' = db"
  by (auto simp: TaskRepository_Create_def split: option.splits if_splits)

subsection \<open>Identity of a row\<close>

text \<open>What never changes of a row: its id, its owner, its type and its time of creation.\<close>

definition same_identity :: "task \<Rightarrow> task \<Rightarrow> bool" where
  "same_identity r t \<longleftrightarrow> ID r = ID t \<and> UserID r = UserID t \<and> TaskType r = TaskType t
     \<and> CreatedAt r = CreatedAt t"

definition backed :: "database \<Rightarrow> task \<Rightarrow> bool" where
  "backed db t \<longleftrightarrow> (\<exists>r. task_at db (ID t) = Some r \<and> same_identity r t)"

lemma backed_self: "task_at db (ID t) = Some t \<Longrightarrow> backed db t"
  by (auto simp: backed_def same_identity_def)

lemma backed_extend: "backed db t \<Longrightarrow> task_at db' = (task_at db)(i \<mapsto> r) \<Longrightarrow>
  task_at db i = None \<Longrightarrow> backed db' t"
  by (auto simp: backed_def)

subsection \<open>The laws of the interface\<close>

text \<open>
  What every client may assume of a repository, on the view of the table as a map from ids
  to rows: a successful create adds one row under a fresh id, a successful mark rewrites the
  row of its id and no other, with a text that is UTF-8, a failed call leaves the store as it was, a read returns rows
  of the table, and the keys stay distinct.
\<close>

locale task_repository =
  fixes R :: task_repo
  assumes create_ok: "repo_Create R st t db = (Inr i, db') \<Longrightarrow>
      i = st_gen_id st \<and> task_at db i = None \<and> users_tbl db' = users_tbl db \<and>
      (\<exists>r. created_row st t r \<and> task_at db' = (task_at db)(i \<mapsto> r))"
    and create_wf: "wf_db db \<Longrightarrow> repo_Create R st t db = (x, db') \<Longrightarrow> wf_db db'"
    and create_err: "repo_Create R st t db = (Inl e, db') \<Longrightarrow> db' = db"
    and processing_ok: "repo_MarkProcessing R st i db = (None, db') \<Longrightarrow>
      db' = update_tasks i (\<lambda>t. t\<lparr>Status := ''PROCESSING'', UpdatedAt := utc (st_now st)\<rparr>) db"
    and success_ok: "repo_MarkSuccess R st i f db = (None, db') \<Longrightarrow>
      valid_utf8 f \<and> db' = update_tasks i (\<lambda>t. t\<lparr>Status := ''SUCCESS'', ResultFile := Some f, UpdatedAt := utc (st_now st)\<rparr>) db"
    and failed_ok: "repo_MarkFailed R st i m db = (None, db') \<Longrightarrow>
      valid_utf8 m \<and> db' = update_tasks i (\<lambda>t. t\<lparr>Status := ''FAILED'', ErrorMessage := Some m, UpdatedAt := utc (st_now st)\<rparr>) db"
    and get_ok: "repo_GetByID R q db i = Inr t \<Longrightarrow> task_at db i = Some t"
    and list_ok: "order_ok q \<Longrightarrow> repo_GetByUserID R q db u = Inr ts \<Longrightarrow>
      set ts = {t \<in> set (tasks_tbl db). UserID t = u \<and> q_scan q t = None}"

interpretation task_repo: task_repository "NewTaskRepository drv" for drv
proof (unfold_locales, goal_cases)
  case (1 st t db i db')
  then have *: "TaskRepository_Create drv st t db = (Inr i, db')"
    by (simp add: NewTaskRepository_def)
  from Create_ok [OF *] show ?case
    by (auto simp: task_at_def row_at_append created_row_def fun_eq_iff split: option.splits)
next
  case (2 db st t x db')
  then have *: "TaskRepository_Create drv st t db = (x, db')"
    by (simp add: NewTaskRepository_def)
  show ?case
  proof (cases x)
    case (Inl e)
    with * have "TaskRepository_Create drv st t db = (Inl e, db')" by simp
    then have "db' = db" by (rule Create_err)
    with "2"(1) show ?thesis by simp
  next
    case (Inr i)
    with * have "TaskRepository_Create drv st t db = (Inr i, db')" by simp
    from Create_ok [OF this] "2"(1) show ?thesis
      by (auto simp: wf_db_def task_at_def row_at_None_iff created_row_def)
  qed
next
  case (3 st t db e db')
  then show ?case by (auto simp: NewTaskRepository_def dest: Create_err)
qed (auto simp: NewTaskRepository_def op_defs scan_rows_eq order_ok_def Let_def text_error_None
       split: option.splits if_splits sum.splits)

text \<open>The rows a repository returns for a user belong to that user.\<close>

context task_repository
begin

lemma list_owner: "order_ok q \<Longrightarrow> repo_GetByUserID R q db u = Inr ts \<Longrightarrow> t \<in> set ts \<Longrightarrow> UserID t = u"
  using list_ok by auto

lemma list_rows:
  "wf_db db \<Longrightarrow> order_ok q \<Longrightarrow> repo_GetByUserID R q db u = Inr ts \<Longrightarrow> t \<in> set ts \<Longrightarrow>
   task_at db (ID t) = Some t"
  using list_ok task_at_mem by auto

lemma get_id: "repo_GetByID R q db i = Inr t \<Longrightarrow> ID t = i"
  using get_ok task_at_SomeD by blast

end

end
