(* ===== verification/Task_Json.thy ===== *)
theory Task_Json
  imports Models Json_Lemmas Go_Time
begin

section \<open>Tasks as JSON: json.Marshal and json.Unmarshal on Task\<close>

text \<open>
  What cache/task_cache.go and task/service.go store in Redis: encoding/json applied to the
  struct Task, which has no tags, so that the member names are the field names. A nil pointer
  is null, a nil slice is null, times are texts of package time. The decoder takes members in
  any order and case, lets later ones overrule earlier ones, ignores unknown ones and leaves a
  field of which there is no member, or null, at its zero value. The round trip is
  \<open>unmarshal_marshal_task\<close> and \<open>unmarshal_marshal_tasks\<close>.
\<close>

subsection \<open>Marshalling\<close>

definition marshal_ptr :: "string option \<Rightarrow> string" where
  "marshal_ptr p = (case p of None \<Rightarrow> ''null'' | Some s \<Rightarrow> marshal_string s)"

definition marshal_time :: "gotime \<Rightarrow> string result" where
  "marshal_time t =
     (case format_rfc3339 t of
        Inr s \<Rightarrow> Inr ([byte 34] @ s @ [byte 34])
      | Inl e \<Rightarrow> Inl (LibError (''json: error calling MarshalJSON for type time.Time: '' @ e) [ErrorString e]))"

definition task_text :: "task \<Rightarrow> string \<Rightarrow> string \<Rightarrow> string" where
  "task_text t created updated =
     ''{'' @ marshal_key ''ID'' @ fmt_d (ID t) @
     '','' @ marshal_key ''UserID'' @ fmt_d (UserID t) @
     '','' @ marshal_key ''TaskType'' @ marshal_string (TaskType t) @
     '','' @ marshal_key ''Status'' @ marshal_string (Status t) @
     '','' @ marshal_key ''ResultFile'' @ marshal_ptr (ResultFile t) @
     '','' @ marshal_key ''ErrorMessage'' @ marshal_ptr (ErrorMessage t) @
     '','' @ marshal_key ''CreatedAt'' @ created @
     '','' @ marshal_key ''UpdatedAt'' @ updated @ ''}''"

definition marshal_task :: "task \<Rightarrow> string result" where
  "marshal_task t =
     (case marshal_time (CreatedAt t) of Inl e \<Rightarrow> Inl e
      | Inr created \<Rightarrow>
          (case marshal_time (UpdatedAt t) of Inl e \<Rightarrow> Inl e
           | Inr updated \<Rightarrow> Inr (task_text t created updated)))"

text \<open>The elements of a slice from its first one to the closing bracket.\<close>

fun marshal_elems :: "task list \<Rightarrow> string result" where
  "marshal_elems [] = Inr '']''"
| "marshal_elems [t] = (case marshal_task t of Inl e \<Rightarrow> Inl e | Inr s \<Rightarrow> Inr (s @ '']''))"
| "marshal_elems (t # ts) =
     (case marshal_task t of Inl e \<Rightarrow> Inl e
      | Inr s \<Rightarrow> (case marshal_elems ts of Inl e \<Rightarrow> Inl e | Inr r \<Rightarrow> Inr (s @ '','' @ r)))"

text \<open>The slice the repository returns: it appends to the nil slice, so without tasks it is nil.\<close>

definition marshal_tasks :: "task list \<Rightarrow> string result" where
  "marshal_tasks ts =
     (if ts = [] then Inr ''null''
      else (case marshal_elems ts of Inl e \<Rightarrow> Inl e | Inr s \<Rightarrow> Inr (''['' @ s)))"

definition task_writable :: "task \<Rightarrow> bool" where
  "task_writable t \<longleftrightarrow> writable (CreatedAt t) \<and> writable (UpdatedAt t)"

lemma marshal_task_ok: "isl (marshal_task t) \<longleftrightarrow> \<not> task_writable t"
  using format_rfc3339_range [of "CreatedAt t"] format_rfc3339_range [of "UpdatedAt t"]
  by (auto simp: task_writable_def marshal_task_def marshal_time_def split: sum.splits)

lemma marshal_elems_ok: "isl (marshal_elems ts) \<longleftrightarrow> list_ex (\<lambda>t. isl (marshal_task t)) ts"
  by (induction ts rule: marshal_elems.induct) (auto split: sum.split)

lemma marshal_tasks_ok: "isl (marshal_tasks ts) \<longleftrightarrow> list_ex (\<lambda>t. isl (marshal_task t)) ts"
  using marshal_elems_ok [of ts] by (auto simp: marshal_tasks_def split: sum.split)

subsection \<open>Unmarshalling\<close>

definition store_ptr :: "json \<Rightarrow> string option option" where
  "store_ptr v = (case v of JNull \<Rightarrow> Some None | JStr l s \<Rightarrow> Some (Some s) | _ \<Rightarrow> None)"

definition store_time :: "json \<Rightarrow> gotime \<Rightarrow> gotime option" where
  "store_time v old = (case v of JNull \<Rightarrow> Some old | JStr l s \<Rightarrow> parse_rfc3339 l | _ \<Rightarrow> None)"

definition zero_task :: task where
  "zero_task = \<lparr>ID = 0, UserID = 0, TaskType = [], Status = [], ResultFile = None,
     ErrorMessage = None, CreatedAt = zero_time, UpdatedAt = zero_time\<rparr>"

definition store_task_member :: "string \<Rightarrow> json \<Rightarrow> task \<Rightarrow> task option" where
  "store_task_member k v t =
     (if field_matches ''ID'' k then map_option (\<lambda>x. t\<lparr>ID := x\<rparr>) (store_int v (ID t))
      else if field_matches ''UserID'' k then map_option (\<lambda>x. t\<lparr>UserID := x\<rparr>) (store_int v (UserID t))
      else if field_matches ''TaskType'' k then
        map_option (\<lambda>x. t\<lparr>TaskType := x\<rparr>) (store_string v (TaskType t))
      else if field_matches ''Status'' k then map_option (\<lambda>x. t\<lparr>Status := x\<rparr>) (store_string v (Status t))
      else if field_matches ''ResultFile'' k then map_option (\<lambda>x. t\<lparr>ResultFile := x\<rparr>) (store_ptr v)
      else if field_matches ''ErrorMessage'' k then map_option (\<lambda>x. t\<lparr>ErrorMessage := x\<rparr>) (store_ptr v)
      else if field_matches ''CreatedAt'' k then
        map_option (\<lambda>x. t\<lparr>CreatedAt := x\<rparr>) (store_time v (CreatedAt t))
      else if field_matches ''UpdatedAt'' k then
        map_option (\<lambda>x. t\<lparr>UpdatedAt := x\<rparr>) (store_time v (UpdatedAt t))
      else Some t)"

primrec store_task_members :: "(string \<times> json) list \<Rightarrow> task \<Rightarrow> task option" where
  "store_task_members [] t = Some t"
| "store_task_members (m # ms) t =
     (case store_task_member (fst m) (snd m) t of None \<Rightarrow> None | Some t' \<Rightarrow> store_task_members ms t')"

definition unmarshal_task :: "string \<Rightarrow> task option" where
  "unmarshal_task s =
     (case json_parse s of
        Some JNull \<Rightarrow> Some zero_task
      | Some (JObj ms) \<Rightarrow> store_task_members ms zero_task
      | _ \<Rightarrow> None)"

text \<open>A slice of pointers: null is the nil slice, an empty array an empty one, an element null a nil pointer.\<close>

definition unmarshal_elem :: "json \<Rightarrow> task option option" where
  "unmarshal_elem v =
     (case v of JNull \<Rightarrow> Some None
      | JObj ms \<Rightarrow> map_option Some (store_task_members ms zero_task)
      | _ \<Rightarrow> None)"

definition unmarshal_tasks :: "string \<Rightarrow> task option list option option" where
  "unmarshal_tasks s =
     (case json_parse s of
        Some JNull \<Rightarrow> Some None
      | Some (JArr vs) \<Rightarrow> map_option Some (those (map unmarshal_elem vs))
      | _ \<Rightarrow> None)"

subsection \<open>Names\<close>

lemma task_names:
  "plain_name ''ID''" "plain_name ''UserID''" "plain_name ''TaskType''" "plain_name ''Status''" "plain_name ''ResultFile''" "plain_name ''ErrorMessage''" "plain_name ''CreatedAt''" "plain_name ''UpdatedAt''"
  by (simp_all add: plain_name_def)

lemma task_fields_length:
  "\<not> field_matches ''ID'' ''UserID''" "\<not> field_matches ''ID'' ''TaskType''" "\<not> field_matches ''UserID'' ''TaskType''"
  "\<not> field_matches ''ID'' ''Status''" "\<not> field_matches ''TaskType'' ''Status''" "\<not> field_matches ''ID'' ''ResultFile''"
  "\<not> field_matches ''UserID'' ''ResultFile''" "\<not> field_matches ''TaskType'' ''ResultFile''" "\<not> field_matches ''Status'' ''ResultFile''"
  "\<not> field_matches ''ID'' ''ErrorMessage''" "\<not> field_matches ''UserID'' ''ErrorMessage''" "\<not> field_matches ''TaskType'' ''ErrorMessage''"
  "\<not> field_matches ''Status'' ''ErrorMessage''" "\<not> field_matches ''ResultFile'' ''ErrorMessage''" "\<not> field_matches ''ID'' ''CreatedAt''"
  "\<not> field_matches ''UserID'' ''CreatedAt''" "\<not> field_matches ''TaskType'' ''CreatedAt''" "\<not> field_matches ''Status'' ''CreatedAt''"
  "\<not> field_matches ''ResultFile'' ''CreatedAt''" "\<not> field_matches ''ErrorMessage'' ''CreatedAt''" "\<not> field_matches ''ID'' ''UpdatedAt''"
  "\<not> field_matches ''UserID'' ''UpdatedAt''" "\<not> field_matches ''TaskType'' ''UpdatedAt''" "\<not> field_matches ''Status'' ''UpdatedAt''"
  "\<not> field_matches ''ResultFile'' ''UpdatedAt''" "\<not> field_matches ''ErrorMessage'' ''UpdatedAt''"
  by (rule field_matches_ascii; simp)+

lemma task_fields_first:
  "\<not> field_matches ''UserID'' ''Status''" "\<not> field_matches ''CreatedAt'' ''UpdatedAt''"
  by (rule field_matches_first; simp add: upper_ascii_def)+

lemmas task_fields = task_fields_length task_fields_first

subsection \<open>Times are plain texts\<close>

lemma plain_name_append [simp]: "plain_name (a @ b) \<longleftrightarrow> plain_name a \<and> plain_name b"
  by (simp add: plain_name_def)

lemma plain_name_Cons [simp]:
  "plain_name (c # s) \<longleftrightarrow> 32 \<le> (of_char c :: nat) \<and> (of_char c :: nat) < 128 \<and>
     (of_char c :: nat) \<noteq> 34 \<and> (of_char c :: nat) \<noteq> 92 \<and> plain_name s"
  "plain_name []"
  by (auto simp: plain_name_def)

lemma plain_digits: "\<forall>c \<in> set s. is_digit c \<Longrightarrow> plain_name s"
  by (auto simp: plain_name_def list_all_iff is_digit_def)

lemma plain_dec_pad [simp]: "plain_name (dec_pad k n)"
  using dec_pad_digits [of k n] by (intro plain_digits) (simp add: list_all_iff)

lemma plain_format_frac: "plain_name (format_frac n)"
proof -
  have "\<forall>c \<in> set (rev (dropWhile (\<lambda>c. c = CHR ''0'') (rev (dec_pad 9 n)))). is_digit c"
    using dec_pad_digits [of 9 n] set_dropWhileD by (fastforce simp: list_all_iff)
  from plain_digits [OF this] show ?thesis by (simp add: format_frac_def plain_name_def)
qed

lemma plain_format_zone: "plain_name (format_zone z)"
  by (simp add: format_zone_def)

lemma plain_format_time: "format_rfc3339 t = Inr s \<Longrightarrow> plain_name s"
  by (auto simp: format_rfc3339_def Let_def format_clock_def plain_format_frac plain_format_zone split: if_splits prod.splits)

subsection \<open>The round trip\<close>

text \<open>
  Which tasks survive it: ints of 64 bits and texts that are UTF-8. A text that is not comes
  back with the error rune in place of its bad bytes.
\<close>

definition storable :: "task \<Rightarrow> bool" where
  "storable t \<longleftrightarrow> in_int64 (ID t) \<and> in_int64 (UserID t) \<and> valid_utf8 (TaskType t) \<and>
     valid_utf8 (Status t) \<and> pred_option valid_utf8 (ResultFile t) \<and> pred_option valid_utf8 (ErrorMessage t)"

definition ptr_json :: "string option \<Rightarrow> json" where
  "ptr_json p = (case p of None \<Rightarrow> JNull | Some s \<Rightarrow> JStr (marshal_body s) s)"

definition task_members :: "task \<Rightarrow> string \<Rightarrow> string \<Rightarrow> (string \<times> json) list" where
  "task_members t c u =
     [(''ID'', JNum (fmt_d (ID t))), (''UserID'', JNum (fmt_d (UserID t))),
      (''TaskType'', JStr (marshal_body (TaskType t)) (TaskType t)),
      (''Status'', JStr (marshal_body (Status t)) (Status t)),
      (''ResultFile'', ptr_json (ResultFile t)), (''ErrorMessage'', ptr_json (ErrorMessage t)),
      (''CreatedAt'', JStr c c), (''UpdatedAt'', JStr u u)]"

lemma reads_ptr: "pred_option valid_utf8 p \<Longrightarrow> reads d (marshal_ptr p @ t) (ptr_json p) t"
  by (cases p) (simp_all add: marshal_ptr_def ptr_json_def reads_word [simplified] reads_marshal_string)

lemma reads_time:
  "format_rfc3339 x = Inr s \<Longrightarrow> reads d ([byte 34] @ s @ [byte 34] @ t) (JStr s s) t"
  using reads_string [OF json_string_name [OF plain_format_time]] by simp

lemma reads_int: "reads d (fmt_d i @ '','' @ t) (JNum (fmt_d i)) ('','' @ t)"
  using reads_fmt_d [of "CHR '',''"] by (simp add: is_digit_def)

lemma reads_task:
  assumes "storable t" and c: "format_rfc3339 (CreatedAt t) = Inr c"
    and u: "format_rfc3339 (UpdatedAt t) = Inr u" and "0 < d"
  shows "reads d (task_text t ([byte 34] @ c @ [byte 34]) ([byte 34] @ u @ [byte 34]) @ r)
    (JObj (task_members t c u)) r"
proof -
  have valid: "valid_utf8 (TaskType t)" "valid_utf8 (Status t)" "pred_option valid_utf8 (ResultFile t)"
    "pred_option valid_utf8 (ErrorMessage t)" using assms(1) by (simp_all add: storable_def)
  note names = task_names
  have 8: "reads_members (d - 1) (marshal_key ''UpdatedAt'' @ [byte 34] @ u @ [byte 34] @ ''}'' @ r)
      [(''UpdatedAt'', JStr u u)] r"
    by (rule reads_members_last [OF names(8)]) (use reads_time [OF u] in simp)
  note 7 = reads_members_cons [OF names(7) reads_time [OF c, of _ "'','' @ _", simplified] 8]
  note 6 = reads_members_cons [OF names(6) reads_ptr [OF valid(4), of _ "'','' @ _", simplified] 7]
  note 5 = reads_members_cons [OF names(5) reads_ptr [OF valid(3), of _ "'','' @ _", simplified] 6]
  note 4 = reads_members_cons [OF names(4) reads_marshal_string [OF valid(2), of _ "'','' @ _", simplified] 5]
  note 3 = reads_members_cons [OF names(3) reads_marshal_string [OF valid(1), of _ "'','' @ _", simplified] 4]
  note 2 = reads_members_cons [OF names(2) reads_int [simplified] 3]
  note 1 = reads_members_cons [OF names(1) reads_int [simplified] 2]
  from reads_object [OF assms(4) 1] show ?thesis
    by (simp add: task_text_def task_members_def)
qed

lemma store_task_members_ok:
  assumes "storable t" and "format_rfc3339 (CreatedAt t) = Inr c" "format_rfc3339 (UpdatedAt t) = Inr u"
  shows "store_task_members (task_members t c u) zero_task = Some t"
proof -
  have "store_ptr (ptr_json p) = Some p" for p by (cases p) (simp_all add: store_ptr_def ptr_json_def)
  with assms show ?thesis
    by (simp add: task_members_def store_task_member_def task_fields field_matches_self store_int_def
        store_string_def store_time_def atoi_fmt_d storable_def parse_format_rfc3339 zero_task_def)
qed

lemma marshal_task_text:
  assumes "marshal_task t = Inr s"
  obtains c u where "format_rfc3339 (CreatedAt t) = Inr c" "format_rfc3339 (UpdatedAt t) = Inr u"
    "s = task_text t ([byte 34] @ c @ [byte 34]) ([byte 34] @ u @ [byte 34])"
  using assms by (auto simp: marshal_task_def marshal_time_def split: sum.splits)

lemma unmarshal_marshal_task:
  assumes "storable t" and "marshal_task t = Inr s"
  shows "unmarshal_task s = Some t"
proof -
  from marshal_task_text [OF assms(2)] obtain c u where c: "format_rfc3339 (CreatedAt t) = Inr c"
    and u: "format_rfc3339 (UpdatedAt t) = Inr u"
    and s: "s = task_text t ([byte 34] @ c @ [byte 34]) ([byte 34] @ u @ [byte 34])" .
  have "reads max_nesting s (JObj (task_members t c u)) []"
    using reads_task [OF assms(1) c u, of max_nesting "[]"] by (simp add: max_nesting_def s)
  from json_parse_reads [OF this] store_task_members_ok [OF assms(1) c u] show ?thesis
    by (simp add: unmarshal_task_def)
qed

lemma unmarshal_elem_object:
  "unmarshal_elem (JObj ms) = map_option Some (store_task_members ms zero_task)"
  by (simp add: unmarshal_elem_def)

lemma reads_marshal_elems:
  assumes "list_all storable ts" and "ts \<noteq> []" and "marshal_elems ts = Inr s" and "0 < d"
  shows "\<exists>vs. reads_elems d (s @ r) vs r \<and> map unmarshal_elem vs = map (\<lambda>t. Some (Some t)) ts \<and>
    (\<exists>x. s = CHR ''{'' # x)"
  using assms(1-3)
proof (induction ts arbitrary: s rule: marshal_elems.induct)
  case 1
  then show ?case by simp
next
  case (2 t)
  then obtain x where x: "marshal_task t = Inr x" "s = x @ '']''" by (auto split: sum.splits)
  from marshal_task_text [OF x(1)] obtain c u where c: "format_rfc3339 (CreatedAt t) = Inr c"
    and u: "format_rfc3339 (UpdatedAt t) = Inr u"
    and s: "x = task_text t ([byte 34] @ c @ [byte 34]) ([byte 34] @ u @ [byte 34])" .
  from 2 have ok: "storable t" by simp
  have "reads_elems d (s @ r) [JObj (task_members t c u)] r"
    using reads_elems_last reads_task [OF ok c u assms(4), of "'']'' @ r"] by (simp add: x s)
  moreover have "\<exists>y. s = CHR ''{'' # y" by (simp add: x s task_text_def)
  ultimately show ?case using store_task_members_ok [OF ok c u]
    by (intro exI [of _ "[JObj (task_members t c u)]"]) (simp add: unmarshal_elem_object)
next
  case (3 t t2 ts)
  then obtain x y where x: "marshal_task t = Inr x" "marshal_elems (t2 # ts) = Inr y" "s = x @ '','' @ y"
    by (auto split: sum.splits)
  from marshal_task_text [OF x(1)] obtain c u where c: "format_rfc3339 (CreatedAt t) = Inr c"
    and u: "format_rfc3339 (UpdatedAt t) = Inr u"
    and s: "x = task_text t ([byte 34] @ c @ [byte 34]) ([byte 34] @ u @ [byte 34])" .
  from 3 have ok: "storable t" by simp
  from "3.IH" [OF x(1)] 3 x(2) obtain vs where
    vs: "reads_elems d (y @ r) vs r" "map unmarshal_elem vs = map (\<lambda>t. Some (Some t)) (t2 # ts)"
    by auto
  have "reads d (s @ r) (JObj (task_members t c u)) (CHR '','' # y @ r)"
    using reads_task [OF ok c u assms(4), of "'','' @ y @ r"] by (simp add: x s)
  from reads_elems_cons [OF this vs(1)] vs(2) store_task_members_ok [OF ok c u] show ?case
    by (intro exI [of _ "JObj (task_members t c u) # vs"]) (simp add: unmarshal_elem_object x s task_text_def)
qed

lemma those_Somes: "those (map Some xs) = Some xs"
  by (induction xs) simp_all

lemma unmarshal_marshal_tasks:
  assumes "list_all storable ts" and "marshal_tasks ts = Inr s"
  shows "unmarshal_tasks s = Some (appended (map Some ts))"
proof (cases "ts = []")
  case True
  with assms(2) have "s = ''null''" by (simp add: marshal_tasks_def)
  moreover have "json_parse (''null'' @ []) = Some JNull"
    by (rule json_parse_reads [OF reads_word])
  ultimately show ?thesis using True by (simp add: unmarshal_tasks_def)
next
  case False
  with assms(2) obtain x where x: "marshal_elems ts = Inr x" "s = CHR ''['' # x"
    by (auto simp: marshal_tasks_def split: sum.splits)
  from reads_marshal_elems [OF assms(1) False x(1), of "max_nesting - 1" "[]"] obtain vs y where
    vs: "reads_elems (max_nesting - 1) x vs []" "map unmarshal_elem vs = map (\<lambda>t. Some (Some t)) ts"
      "x = CHR ''{'' # y"
    by (auto simp: max_nesting_def)
  from reads_array [of max_nesting y vs "[]"] vs have "reads max_nesting s (JArr vs) []"
    by (simp add: max_nesting_def x)
  from json_parse_reads [OF this] vs(2) those_Somes [of "map Some ts"] show ?thesis
    using False by (simp add: unmarshal_tasks_def comp_def appended_def)
qed

end
