(* ===== verification/Task_Cache.thy ===== *)
theory Task_Cache
  imports Task_Json
begin

section \<open>Task cache: internal/cache/task_cache.go\<close>

text \<open>
  The cache of the task service in Redis. The client of Redis is a parameter: a record of
  its operations Get and Set over a state of any type. What the code relies on is
  \<open>redis_laws\<close>: a read returns only what was written under that key, since Redis neither
  invents nor mixes up values; that a value is still there, or is the latest, is not
  promised (expiry, eviction, failed writes). The JSON text a value is stored as is that of
  Task_Json.
\<close>

datatype redis_reply = Redis_value string | Redis_nil | Redis_error goerr

record 'r redis_client =
  redis_Get :: "'r \<Rightarrow> string \<Rightarrow> redis_reply"
  redis_Set :: "'r \<Rightarrow> string \<Rightarrow> string \<Rightarrow> int \<Rightarrow> goerr option \<times> 'r"

definition redis_laws :: "'r redis_client \<Rightarrow> ('r \<Rightarrow> string \<Rightarrow> string option) \<Rightarrow> bool" where
  "redis_laws C view \<longleftrightarrow>
     (\<forall>r k v. redis_Get C r k = Redis_value v \<longrightarrow> view r k = Some v) \<and>
     (\<forall>r k v ttl e r' k' v'. redis_Set C r k v ttl = (e, r') \<longrightarrow> view r' k' = Some v' \<longrightarrow>
        view r k' = Some v' \<or> k' = k \<and> v' = v)"

subsection \<open>The operations of TaskCache\<close>

text \<open>One hour, in nanoseconds.\<close>

definition TaskCacheTTL :: int where
  "TaskCacheTTL = 3600 * 1000000000"

text \<open>Get: a missing key is no error but nil data.\<close>

definition TaskCache_Get :: "'r redis_client \<Rightarrow> 'r \<Rightarrow> string \<Rightarrow> string option result" where
  "TaskCache_Get C r key =
     (case redis_Get C r key of
        Redis_nil \<Rightarrow> Inr None
      | Redis_error e \<Rightarrow> Inl e
      | Redis_value v \<Rightarrow> Inr (Some v))"

text \<open>Set: the data in JSON form, stored for the cache's lifetime.\<close>

definition TaskCache_Set ::
  "'r redis_client \<Rightarrow> 'r \<Rightarrow> string \<Rightarrow> string result \<Rightarrow> goerr option \<times> 'r" where
  "TaskCache_Set C r key marshalled =
     (case marshalled of
        Inl e \<Rightarrow> (Some e, r)
      | Inr jsonData \<Rightarrow> redis_Set C r key jsonData TaskCacheTTL)"

definition TaskKey :: "int \<Rightarrow> string" where
  "TaskKey taskID = ''task:'' @ fmt_d taskID"

definition UserTasksKey :: "int \<Rightarrow> string" where
  "UserTasksKey userID = ''tasks:user:'' @ fmt_d userID"

subsection \<open>Keys\<close>

lemma TaskKey_inject [simp]: "TaskKey i = TaskKey j \<longleftrightarrow> i = j"
  by (simp add: TaskKey_def)

lemma UserTasksKey_inject [simp]: "UserTasksKey i = UserTasksKey j \<longleftrightarrow> i = j"
  by (simp add: UserTasksKey_def)

lemma TaskKey_neq_UserTasksKey [simp]: "TaskKey i \<noteq> UserTasksKey u" "UserTasksKey u \<noteq> TaskKey i"
  by (simp_all add: TaskKey_def UserTasksKey_def)

subsection \<open>What the cache promises\<close>

lemma redis_Get_view: "redis_laws C view \<Longrightarrow> redis_Get C r k = Redis_value v \<Longrightarrow> view r k = Some v"
  unfolding redis_laws_def by blast

lemma redis_Set_view:
  "redis_laws C view \<Longrightarrow> redis_Set C r k v ttl = (e, r') \<Longrightarrow> view r' k' = Some v' \<Longrightarrow>
   view r k' = Some v' \<or> k' = k \<and> v' = v"
  unfolding redis_laws_def by blast

lemma TaskCache_Get_view:
  "redis_laws C view \<Longrightarrow> TaskCache_Get C r k = Inr (Some v) \<Longrightarrow> view r k = Some v"
  by (auto simp: TaskCache_Get_def redis_Get_view split: redis_reply.splits)

lemma TaskCache_Set_view:
  "redis_laws C view \<Longrightarrow> TaskCache_Set C r k m = (e, r') \<Longrightarrow> view r' k' = Some v' \<Longrightarrow>
   view r k' = Some v' \<or> k' = k \<and> m = Inr v'"
  by (auto simp: TaskCache_Set_def dest: redis_Set_view split: sum.splits)

subsection \<open>A client that satisfies the laws\<close>

text \<open>For examples: Redis as a map that never loses a value.\<close>

definition map_redis :: "(string \<rightharpoonup> string) redis_client" where
  "map_redis = \<lparr>redis_Get = (\<lambda>r k. case r k of None \<Rightarrow> Redis_nil | Some v \<Rightarrow> Redis_value v),
                redis_Set = (\<lambda>r k v ttl. (None, r(k \<mapsto> v)))\<rparr>"

lemma map_redis_laws: "redis_laws map_redis (\<lambda>r. r)"
  by (auto simp: redis_laws_def map_redis_def split: option.splits if_splits)

end
