(* ===== verification/Rabbit.thy ===== *)
theory Rabbit
  imports Prelude "HOL-Library.Word"
begin

section \<open>Message queue: internal/queue/rabbitmq.go\<close>

text \<open>
  Messages as the AMQP library carries them, the name of the queue, and the three functions
  of rabbitmq.go. Connections, channels and the broker are the library's: a call is modelled
  by its outcome, a parameter.
\<close>

subsection \<open>Messages\<close>

text \<open>A value of a header table: a 32-bit integer, or anything else.\<close>

datatype amqp_val = AmqpInt32 "32 word" | AmqpOther string

type_synonym amqp_table = "string \<rightharpoonup> amqp_val"

record publishing =
  ContentType :: string
  Body :: string
  Headers :: "amqp_table option"

record delivery = publishing +
  RoutingKey :: string

text \<open>
  A publish may succeed, fail before the broker has the message, or report an error although
  the broker has it.
\<close>

datatype publish_outcome = Publish_ok | Publish_failed goerr | Publish_unknown goerr

definition publish_err :: "publish_outcome \<Rightarrow> goerr option" where
  "publish_err p = (case p of Publish_ok \<Rightarrow> None | Publish_failed e \<Rightarrow> Some e
                    | Publish_unknown e \<Rightarrow> Some e)"

definition publish_sent :: "publish_outcome \<Rightarrow> bool" where
  "publish_sent p = (case p of Publish_failed e \<Rightarrow> False | _ \<Rightarrow> True)"

subsection \<open>CreateChannel and DeclareQueue\<close>

definition CreateChannel :: "'ch result \<Rightarrow> 'ch result" where
  "CreateChannel opened =
     (case opened of
        Inl e \<Rightarrow> Inl (Wrapped ''failed to open a channel: '' e)
      | Inr ch \<Rightarrow> Inr ch)"

text \<open>
  DeclareQueue passes the flags durable true and delete when unused, exclusive and no-wait
  false to the library's QueueDeclare.
\<close>

definition DeclareQueue ::
  "(string \<Rightarrow> bool \<Rightarrow> bool \<Rightarrow> bool \<Rightarrow> bool \<Rightarrow> 'q result) \<Rightarrow> string \<Rightarrow> 'q result" where
  "DeclareQueue queue_declare queueName =
     (case queue_declare queueName True False False False of
        Inl e \<Rightarrow> Inl (Wrapped ''failed to declare queue: '' e)
      | Inr q \<Rightarrow> Inr q)"

subsection \<open>SetupRabbitMQ: five attempts with a growing pause\<close>

text \<open>
  The loop of SetupRabbitMQ. Attempt i gets the answer \<open>dial i\<close>; after a failure the code
  sleeps i + 1 seconds. The result is the last error or the connection, with the seconds
  slept; log.Fatalf ends the process after five failures.
\<close>

datatype 'a startup = Started 'a | Fatal string

fun dial_loop :: "nat \<Rightarrow> (nat \<Rightarrow> 'c result) \<Rightarrow> nat \<Rightarrow> 'c result \<Rightarrow> nat \<Rightarrow> 'c result \<times> nat" where
  "dial_loop 0 dial i conn slept = (conn, slept)"
| "dial_loop (Suc n) dial i conn slept =
     (case dial i of
        Inl e \<Rightarrow> dial_loop n dial (Suc i) (Inl e) (slept + (i + 1))
      | Inr c \<Rightarrow> (Inr c, slept))"

definition maxRetries :: nat where
  "maxRetries = 5"

definition SetupRabbitMQ :: "(nat \<Rightarrow> 'c result) \<Rightarrow> 'c startup \<times> nat" where
  "SetupRabbitMQ dial =
     (case dial_loop maxRetries dial 0 (Inl (ErrorString [])) 0 of
        (Inl e, s) \<Rightarrow> (Fatal (''Failed to connect to RabbitMQ after '' @ fmt_d (int maxRetries)
                            @ '' attempts: '' @ err_text e), s)
      | (Inr c, s) \<Rightarrow> (Started c, s))"

lemma pause_sum: "(\<Sum>j<k. Suc (Suc (i + j))) = (\<Sum>j<k. Suc (i + j)) + (k::nat)"
  by (induction k) auto

lemma dial_loop_success:
  "(\<And>j. j < k \<Longrightarrow> \<exists>e. dial (i + j) = Inl e) \<Longrightarrow> k < n \<Longrightarrow> dial (i + k) = Inr c \<Longrightarrow>
   dial_loop n dial i l s = (Inr c, s + (\<Sum>j<k. i + j + 1))"
proof (induction k arbitrary: n i l s)
  case 0
  then show ?case by (cases n) auto
next
  case (Suc k)
  obtain m where n: "n = Suc m" using Suc.prems(2) by (cases n) auto
  obtain e where e: "dial i = Inl e" using Suc.prems(1) [of 0] by auto
  have "dial_loop m dial (Suc i) (Inl e) (s + (i + 1)) =
      (Inr c, s + (i + 1) + (\<Sum>j<k. Suc i + j + 1))"
  proof (rule Suc.IH)
    fix j assume "j < k"
    then show "\<exists>e. dial (Suc i + j) = Inl e" using Suc.prems(1) [of "Suc j"] by simp
  qed (use Suc.prems n in auto)
  then show ?case by (simp add: n e sum.lessThan_Suc_shift pause_sum)
qed

lemma dial_loop_failure:
  "(\<And>j. j < n \<Longrightarrow> dial (i + j) = Inl (err j)) \<Longrightarrow> 0 < n \<Longrightarrow>
   dial_loop n dial i l s = (Inl (err (n - 1)), s + (\<Sum>j<n. i + j + 1))"
proof (induction n arbitrary: i l s err)
  case 0
  then show ?case by simp
next
  case (Suc n)
  have e: "dial i = Inl (err 0)" using Suc.prems(1) [of 0] by simp
  show ?case
  proof (cases n)
    case 0
    with e show ?thesis by simp
  next
    case (Suc m)
    have "dial_loop n dial (Suc i) (Inl (err 0)) (s + (i + 1)) =
        (Inl (err (Suc (n - 1))), s + (i + 1) + (\<Sum>j<n. Suc i + j + 1))"
      using Suc.IH [of "Suc i" "\<lambda>j. err (Suc j)" "Inl (err 0)" "s + (i + 1)"]
        Suc.prems(1) [of "Suc _"] Suc by simp
    with e Suc show ?thesis by (simp add: sum.lessThan_Suc_shift pause_sum)
  qed
qed

text \<open>The loop with its five attempts written out.\<close>

lemma dial_loop_five:
  "dial_loop 5 dial 0 l 0 =
     (case dial 0 of Inr c \<Rightarrow> (Inr c, 0) | Inl _ \<Rightarrow>
      (case dial 1 of Inr c \<Rightarrow> (Inr c, 1) | Inl _ \<Rightarrow>
      (case dial 2 of Inr c \<Rightarrow> (Inr c, 3) | Inl _ \<Rightarrow>
      (case dial 3 of Inr c \<Rightarrow> (Inr c, 6) | Inl _ \<Rightarrow>
      (case dial 4 of Inr c \<Rightarrow> (Inr c, 10) | Inl e \<Rightarrow> (Inl e, 15))))))"
  by (simp add: eval_nat_numeral split: sum.split)

lemma upt_five: "[0..<5] = [0, 1, 2, 3, 4 :: nat]" "[0..<4] = [0, 1, 2, 3 :: nat]" "[0..<3] = [0, 1, 2 :: nat]"
  "[0..<2] = [0, 1 :: nat]" "[0..<1] = [0 :: nat]"
  by code_simp+

lemma fmt_five: "fmt_d 5 = ''5''"
  by code_simp

end
