(* ===== verification/Task_Service.thy ===== *)
theory Task_Service
  imports Tx Task_Repository Task_Cache Rabbit Go_Json
begin

section \<open>Task service: internal/task/service.go\<close>

text \<open>
  TaskService over a repository, a Redis client and a message channel. Its world holds the
  database, the state of Redis and the messages the program has handed to the broker. The
  faults of one call are the records \<open>create_env\<close> and \<open>sql_query\<close>.
\<close>

record 'r svc_world =
  w_db :: database
  w_redis :: 'r
  w_published :: "delivery list"

record create_env =
  ce_tx :: tx_env
  ce_stmt :: sql_stmt
  ce_channel :: "goerr option"
  ce_publish :: publish_outcome

subsection \<open>The message body\<close>

text \<open>The JSON text CreateTask builds by hand, tabs and line breaks included.\<close>

definition tabs :: "nat \<Rightarrow> string" where
  "tabs n = byte 10 # replicate n (byte 9)"

definition member_name :: "string \<Rightarrow> string" where
  "member_name k = [byte 34] @ k @ [byte 34] @ '': ''"

definition task_body :: "(nat \<Rightarrow> bool) \<Rightarrow> task \<Rightarrow> string" where
  "task_body is_print t =
     ''{'' @ tabs 3 @ member_name ''id'' @ fmt_d (ID t) @ '','' @
     tabs 3 @ member_name ''user_id'' @ fmt_d (UserID t) @ '','' @
     tabs 3 @ member_name ''task_type'' @ strconv_Quote is_print (TaskType t) @
     tabs 2 @ ''}''"

definition task_queue :: string where
  "task_queue = ''task_queue''"

definition task_message :: "(nat \<Rightarrow> bool) \<Rightarrow> task \<Rightarrow> delivery" where
  "task_message is_print t =
     \<lparr>ContentType = ''application/json'', Body = task_body is_print t, Headers = None,
      RoutingKey = task_queue\<rparr>"

subsection \<open>CreateTask\<close>

text \<open>
  The closure of the transaction: it stores the generated id in the task of the caller, which
  keeps it even when the transaction is rolled back.
\<close>

definition create_closure ::
  "task_repo \<Rightarrow> sql_stmt \<Rightarrow> task \<Rightarrow> database \<Rightarrow> outcome \<times> task \<times> database" where
  "create_closure R st t db =
     (case repo_Create R st t db of
        (Inl e, db') \<Rightarrow> (Returned (Some e), t, db')
      | (Inr taskID, db') \<Rightarrow> (Returned None, t\<lparr>ID := taskID\<rparr>, db'))"

text \<open>
  CreateTask: the guard, the insert in a transaction, then the channel and the publish. (A
  panic would pass through; the closure has none, \<open>create_closure_not_Panicked\<close>.)
\<close>

definition TaskService_CreateTask ::
  "task_repo \<Rightarrow> (nat \<Rightarrow> bool) \<Rightarrow> create_env \<Rightarrow> task \<Rightarrow> 'r svc_world \<Rightarrow>
     goerr option \<times> task \<times> 'r svc_world" where
  "TaskService_CreateTask R is_print env t w =
     (if UserID t = 0 \<or> TaskType t = [] then (Some (ErrorString ''invalid task payload''), t, w)
      else case WithTransaction (ce_tx env) (create_closure R (ce_stmt env)) t (w_db w) of
        (Panicked p, t', db') \<Rightarrow> (Some (ErrorString p), t', w\<lparr>w_db := db'\<rparr>)
      | (Returned (Some e), t', db') \<Rightarrow> (Some e, t', w\<lparr>w_db := db'\<rparr>)
      | (Returned None, t', db') \<Rightarrow>
          (case CreateChannel (case ce_channel env of Some e \<Rightarrow> Inl e | None \<Rightarrow> Inr ()) of
             Inl e \<Rightarrow> (Some e, t', w\<lparr>w_db := db'\<rparr>)
           | Inr ch \<Rightarrow>
               (publish_err (ce_publish env), t',
                w\<lparr>w_db := db',
                  w_published := w_published w @
                    (if publish_sent (ce_publish env) then [task_message is_print t'] else [])\<rparr>)))"

subsection \<open>GetTask and GetTasks\<close>

text \<open>The cached value under a key, when the read succeeds, is no miss and decodes.\<close>

definition cached :: "'r redis_client \<Rightarrow> (string \<Rightarrow> 'a option) \<Rightarrow> 'r \<Rightarrow> string \<Rightarrow> 'a option" where
  "cached C dec r key =
     (case TaskCache_Get C r key of
        Inr (Some cachedData) \<Rightarrow> dec cachedData
      | _ \<Rightarrow> None)"

definition TaskService_GetTask ::
  "task_repo \<Rightarrow> 'r redis_client \<Rightarrow> sql_query \<Rightarrow> int \<Rightarrow> 'r svc_world \<Rightarrow>
     task result \<times> 'r svc_world" where
  "TaskService_GetTask R C q taskID w =
     (case cached C unmarshal_task (w_redis w) (TaskKey taskID) of
        Some t \<Rightarrow> (Inr t, w)
      | None \<Rightarrow>
          (case repo_GetByID R q (w_db w) taskID of
             Inl e \<Rightarrow> (Inl e, w)
           | Inr t \<Rightarrow>
               (Inr t, w\<lparr>w_redis :=
                  snd (TaskCache_Set C (w_redis w) (TaskKey taskID) (marshal_task t))\<rparr>)))"

definition TaskService_GetTasks ::
  "task_repo \<Rightarrow> 'r redis_client \<Rightarrow> sql_query \<Rightarrow> int \<Rightarrow> 'r svc_world \<Rightarrow>
     task option list option result \<times> 'r svc_world" where
  "TaskService_GetTasks R C q userID w =
     (case cached C unmarshal_tasks (w_redis w) (UserTasksKey userID) of
        Some ts \<Rightarrow> (Inr ts, w)
      | None \<Rightarrow>
          (case repo_GetByUserID R q (w_db w) userID of
             Inl e \<Rightarrow> (Inl e, w)
           | Inr ts \<Rightarrow>
               (Inr (appended (map Some ts)), w\<lparr>w_redis :=
                  snd (TaskCache_Set C (w_redis w) (UserTasksKey userID) (marshal_tasks ts))\<rparr>)))"

subsection \<open>The interface TaskServiceInterface\<close>

record 'w task_service =
  svc_CreateTask :: "task \<Rightarrow> 'w \<Rightarrow> goerr option \<times> task \<times> 'w"
  svc_GetTask :: "int \<Rightarrow> 'w \<Rightarrow> task result \<times> 'w"
  svc_GetTasks :: "int \<Rightarrow> 'w \<Rightarrow> task option list option result \<times> 'w"

definition NewTaskService ::
  "task_repo \<Rightarrow> 'r redis_client \<Rightarrow> (nat \<Rightarrow> bool) \<Rightarrow> create_env \<Rightarrow> sql_query \<Rightarrow>
     'r svc_world task_service" where
  "NewTaskService R C is_print env q =
     \<lparr>svc_CreateTask = TaskService_CreateTask R is_print env,
      svc_GetTask = TaskService_GetTask R C q,
      svc_GetTasks = TaskService_GetTasks R C q\<rparr>"

subsection \<open>What every branch does\<close>

lemma CreateTask_rejects:
  "UserID t = 0 \<or> TaskType t = [] \<Longrightarrow>
   TaskService_CreateTask R is_print env t w = (Some (ErrorString ''invalid task payload''), t, w)"
  by (simp add: TaskService_CreateTask_def)

lemma create_closure_not_Panicked [simp]: "create_closure R st t db \<noteq> (Panicked p, t', db')"
  by (auto simp: create_closure_def split: sum.splits prod.splits)

text \<open>A successful call: the row is there, the message is with the broker, nothing else moved.\<close>

lemma CreateTask_success:
  assumes "TaskService_CreateTask R is_print env t w = (None, t', w')"
  shows "UserID t \<noteq> 0 \<and> TaskType t \<noteq> [] \<and>
    (\<exists>i. repo_Create R (ce_stmt env) t (w_db w) = (Inr i, w_db w') \<and> t' = t\<lparr>ID := i\<rparr> \<and>
      w_published w' = w_published w @ [task_message is_print t'] \<and> w_redis w' = w_redis w)"
  using assms
  by (auto simp: TaskService_CreateTask_def WithTransaction_def create_closure_def
        CreateChannel_def publish_err_def publish_sent_def
      split: tx_splits sum.splits if_splits publish_outcome.splits)

text \<open>Any call: the store is the old one or has the new row; at most the one message is sent, after the row.\<close>

lemma CreateTask_cases:
  assumes "TaskService_CreateTask R is_print env t w = (e, t', w')"
  shows "w_redis w' = w_redis w \<and>
    (w_db w' = w_db w \<and> w_published w' = w_published w \<or>
     (\<exists>i. repo_Create R (ce_stmt env) t (w_db w) = (Inr i, w_db w') \<and> t' = t\<lparr>ID := i\<rparr> \<and>
       (w_published w' = w_published w \<or>
        w_published w' = w_published w @ [task_message is_print t'])))"
  using assms
  by (auto simp: TaskService_CreateTask_def WithTransaction_def create_closure_def
        CreateChannel_def
      split: tx_splits sum.splits if_splits)

lemma cached_SomeD:
  "cached C dec r k = Some x \<Longrightarrow> \<exists>v. TaskCache_Get C r k = Inr (Some v) \<and> dec v = Some x"
  by (auto simp: cached_def split: sum.splits option.splits)

subsection \<open>The invariant of the service's world\<close>

definition owner_of :: "'r svc_world \<Rightarrow> int \<Rightarrow> int option" where
  "owner_of w i = map_option UserID (task_at (w_db w) i)"

text \<open>
  The cache holds only old versions of rows: under the key of a task a task with that id,
  under the key of a user tasks of that user and no nil pointer, each backed by a row with the
  same identity. The predicate carries the laws of the library parameters it is stated over.
\<close>

definition cache_backed ::
  "('r \<Rightarrow> string \<Rightarrow> string option) \<Rightarrow> database \<Rightarrow> 'r \<Rightarrow> bool" where
  "cache_backed view db r \<longleftrightarrow>
     (\<forall>i v t. view r (TaskKey i) = Some v \<longrightarrow> unmarshal_task v = Some t \<longrightarrow>
        ID t = i \<and> backed db t) \<and>
     (\<forall>u v ts. view r (UserTasksKey u) = Some v \<longrightarrow> unmarshal_tasks v = Some ts \<longrightarrow>
        (\<forall>x \<in> set (slice_elems ts). \<exists>t. x = Some t \<and> UserID t = u \<and> backed db t))"

definition svc_inv ::
  "'r redis_client \<Rightarrow> ('r \<Rightarrow> string \<Rightarrow> string option) \<Rightarrow> sql_query \<Rightarrow>
     'r svc_world \<Rightarrow> bool" where
  "svc_inv C view q w \<longleftrightarrow> redis_laws C view \<and> order_ok q \<and>
     wf_db (w_db w) \<and> cache_backed view (w_db w) (w_redis w)"

lemma svc_invD:
  assumes "svc_inv C view q w"
  shows "redis_laws C view" "order_ok q" "wf_db (w_db w)"
    "cache_backed view (w_db w) (w_redis w)"
  using assms by (auto simp: svc_inv_def)

lemma cache_backed_mono:
  "cache_backed view db r \<Longrightarrow> (\<And>t. backed db t \<Longrightarrow> backed db' t) \<Longrightarrow> cache_backed view db' r"
  unfolding cache_backed_def by blast

lemma cache_backedD:
  assumes "cache_backed view db r"
  shows "view r (TaskKey i) = Some v \<Longrightarrow> unmarshal_task v = Some t \<Longrightarrow> ID t = i \<and> backed db t"
    and "view r (UserTasksKey u) = Some v \<Longrightarrow> unmarshal_tasks v = Some ts \<Longrightarrow> x \<in> set (slice_elems ts) \<Longrightarrow>
      \<exists>t. x = Some t \<and> UserID t = u \<and> backed db t"
  using assms by (auto simp: cache_backed_def)

lemma cache_backedI:
  assumes "\<And>i v t. view r (TaskKey i) = Some v \<Longrightarrow> unmarshal_task v = Some t \<Longrightarrow> ID t = i \<and> backed db t"
    and "\<And>u v ts x. view r (UserTasksKey u) = Some v \<Longrightarrow> unmarshal_tasks v = Some ts \<Longrightarrow>
      x \<in> set (slice_elems ts) \<Longrightarrow> \<exists>t. x = Some t \<and> UserID t = u \<and> backed db t"
  shows "cache_backed view db r"
  using assms by (auto simp: cache_backed_def)

text \<open>Every row of the table comes back from its JSON text unchanged.\<close>

lemma row_fits_storable: "row_fits t \<Longrightarrow> storable t"
  by (simp add: row_fits_def storable_def int4_int64)

text \<open>Storing a row under its own key, or a list of rows of a user, keeps it.\<close>

lemma cache_backed_task:
  assumes cb: "cache_backed view db r" and laws: "redis_laws C view"
    and t: "ID t = i" "backed db t" "row_fits t"
    and set: "TaskCache_Set C r (TaskKey i) (marshal_task t) = (e, r')"
  shows "cache_backed view db r'"
proof (rule cache_backedI)
  fix j v t' assume "view r' (TaskKey j) = Some v" and dec: "unmarshal_task v = Some t'"
  from TaskCache_Set_view [OF laws set this(1)]
  consider "view r (TaskKey j) = Some v" | "j = i" "marshal_task t = Inr v" by auto
  then show "ID t' = j \<and> backed db t'"
    using cache_backedD(1) [OF cb] dec unmarshal_marshal_task [OF row_fits_storable [OF t(3)]] t
    by cases fastforce+
next
  fix u v ts x assume "view r' (UserTasksKey u) = Some v" "unmarshal_tasks v = Some ts" "x \<in> set (slice_elems ts)"
  then show "\<exists>t. x = Some t \<and> UserID t = u \<and> backed db t"
    using cache_backedD(2) [OF cb] TaskCache_Set_view [OF laws set] by fastforce
qed

lemma cache_backed_tasks:
  assumes cb: "cache_backed view db r" and laws: "redis_laws C view"
    and ts: "\<And>t. t \<in> set ts \<Longrightarrow> UserID t = u \<and> backed db t \<and> row_fits t"
    and set: "TaskCache_Set C r (UserTasksKey u) (marshal_tasks ts) = (e, r')"
  shows "cache_backed view db r'"
proof (rule cache_backedI)
  fix j v t' assume "view r' (TaskKey j) = Some v" "unmarshal_task v = Some t'"
  then show "ID t' = j \<and> backed db t'"
    using cache_backedD(1) [OF cb] TaskCache_Set_view [OF laws set] by fastforce
next
  fix u' v ts' x assume "view r' (UserTasksKey u') = Some v" and dec: "unmarshal_tasks v = Some ts'"
    and x: "x \<in> set (slice_elems ts')"
  have storable: "list_all storable ts" using ts row_fits_storable by (simp add: list_all_iff)
  from TaskCache_Set_view [OF laws set \<open>view r' (UserTasksKey u') = Some v\<close>]
  consider "view r (UserTasksKey u') = Some v" | "u' = u" "marshal_tasks ts = Inr v" by auto
  then show "\<exists>t. x = Some t \<and> UserID t = u' \<and> backed db t"
  proof cases
    case 1
    from cache_backedD(2) [OF cb 1 dec x] show ?thesis .
  next
    case 2
    from unmarshal_marshal_tasks [OF storable 2(2)] dec have "ts' = appended (map Some ts)" by simp
    with x ts 2(1) show ?thesis by auto
  qed
qed

subsection \<open>The contract of the service\<close>

text \<open>
  What a client of TaskServiceInterface relies on: every operation keeps the invariant and
  the owner of every task; a task that is read has the id asked for and its true owner; a
  list that is read holds only tasks of the user asked for, and no nil pointer.
\<close>

locale task_service_contract =
  fixes S :: "'w task_service" and I :: "'w \<Rightarrow> bool" and owner :: "'w \<Rightarrow> int \<Rightarrow> int option"
  assumes create_inv: "I w \<Longrightarrow> svc_CreateTask S t w = (e, t', w') \<Longrightarrow>
      I w' \<and> (\<forall>i u. owner w i = Some u \<longrightarrow> owner w' i = Some u)"
    and create_owner: "I w \<Longrightarrow> svc_CreateTask S t w = (None, t', w') \<Longrightarrow>
      owner w (ID t') = None \<and> owner w' (ID t') = Some (UserID t) \<and> Status t' = Status t"
    and get_inv: "I w \<Longrightarrow> svc_GetTask S i w = (x, w') \<Longrightarrow> I w' \<and> owner w' = owner w"
    and get_ok: "I w \<Longrightarrow> svc_GetTask S i w = (Inr t, w') \<Longrightarrow>
      ID t = i \<and> owner w i = Some (UserID t)"
    and list_inv: "I w \<Longrightarrow> svc_GetTasks S u w = (y, w') \<Longrightarrow> I w' \<and> owner w' = owner w"
    and list_ok: "I w \<Longrightarrow> svc_GetTasks S u w = (Inr ts, w') \<Longrightarrow> p \<in> set (slice_elems ts) \<Longrightarrow>
      \<exists>t. p = Some t \<and> UserID t = u \<and> owner w (ID t) = Some u"

lemma CreateTask_svc_inv:
  assumes inv: "svc_inv C view q w"
    and run: "TaskService_CreateTask (NewTaskRepository drv) is_print env t w = (e, t', w')"
  shows "svc_inv C view q w' \<and> (\<forall>i u. owner_of w i = Some u \<longrightarrow> owner_of w' i = Some u)"
proof (cases "w_db w' = w_db w")
  case True
  with CreateTask_cases [OF run] inv show ?thesis by (simp add: svc_inv_def owner_of_def)
next
  case False
  with CreateTask_cases [OF run] obtain i where red: "w_redis w' = w_redis w"
    and cr: "repo_Create (NewTaskRepository drv) (ce_stmt env) t (w_db w) = (Inr i, w_db w')"
    by auto
  from task_repo.create_ok [OF cr] obtain r where fresh: "task_at (w_db w) i = None"
    and upd: "task_at (w_db w') = (task_at (w_db w))(i \<mapsto> r)" by blast
  have "wf_db (w_db w')"
    using task_repo.create_wf [OF _ cr] inv by (simp add: svc_inv_def)
  moreover have "cache_backed view (w_db w') (w_redis w')"
    using cache_backed_mono [OF svc_invD(4) [OF inv]] backed_extend [OF _ upd fresh]
    by (simp add: red)
  ultimately show ?thesis
    using inv fresh upd by (auto simp: svc_inv_def owner_of_def)
qed

lemma CreateTask_new_owner:
  assumes run: "TaskService_CreateTask (NewTaskRepository drv) is_print env t w = (None, t', w')"
  shows "owner_of w (ID t') = None \<and> owner_of w' (ID t') = Some (UserID t) \<and> Status t' = Status t"
proof -
  from CreateTask_success [OF run] obtain i where t': "t' = t\<lparr>ID := i\<rparr>"
    and cr: "repo_Create (NewTaskRepository drv) (ce_stmt env) t (w_db w) = (Inr i, w_db w')"
    by blast
  from task_repo.create_ok [OF cr] t' show ?thesis
    by (auto simp: owner_of_def created_row_def)
qed

lemma cached_task_backed:
  assumes "svc_inv C view q w" and "cached C unmarshal_task (w_redis w) (TaskKey i) = Some t"
  shows "ID t = i \<and> backed (w_db w) t"
  using cached_SomeD [OF assms(2)] TaskCache_Get_view [OF svc_invD(1) [OF assms(1)]]
    cache_backedD(1) [OF svc_invD(4) [OF assms(1)]] by metis

lemma cached_tasks_backed:
  assumes "svc_inv C view q w"
    and "cached C unmarshal_tasks (w_redis w) (UserTasksKey u) = Some ts" and "x \<in> set (slice_elems ts)"
  shows "\<exists>t. x = Some t \<and> UserID t = u \<and> backed (w_db w) t"
  using cached_SomeD [OF assms(2)] TaskCache_Get_view [OF svc_invD(1) [OF assms(1)]]
    cache_backedD(2) [OF svc_invD(4) [OF assms(1)]] assms(3) by metis

lemma GetTask_svc_inv:
  assumes inv: "svc_inv C view q w"
    and run: "TaskService_GetTask (NewTaskRepository drv) C q i w = (x, w')"
  shows "svc_inv C view q w' \<and> w_db w' = w_db w \<and>
    (\<forall>t. x = Inr t \<longrightarrow> ID t = i \<and> backed (w_db w) t)"
proof (cases "cached C unmarshal_task (w_redis w) (TaskKey i)")
  case (Some t)
  with cached_task_backed [OF inv Some] run inv show ?thesis
    by (auto simp: TaskService_GetTask_def)
next
  case None
  show ?thesis
  proof (cases "repo_GetByID (NewTaskRepository drv) q (w_db w) i")
    case (Inl e)
    with None run inv show ?thesis by (auto simp: TaskService_GetTask_def)
  next
    case (Inr t)
    note id = task_repo.get_id [OF Inr]
    with backed_self task_repo.get_ok [OF Inr] have b: "backed (w_db w) t" by blast
    obtain e r' where set: "TaskCache_Set C (w_redis w) (TaskKey i) (marshal_task t) = (e, r')"
      by fastforce
    have fits: "row_fits t"
      by (rule task_at_fits [OF svc_invD(3) [OF inv] task_repo.get_ok [OF Inr]])
    from cache_backed_task [OF svc_invD(4,1) [OF inv] id b fits set] None Inr set run inv b id
    show ?thesis by (auto simp: TaskService_GetTask_def svc_inv_def)
  qed
qed

lemma GetTasks_svc_inv:
  assumes inv: "svc_inv C view q w"
    and run: "TaskService_GetTasks (NewTaskRepository drv) C q u w = (y, w')"
  shows "svc_inv C view q w' \<and> w_db w' = w_db w \<and>
    (\<forall>ts x. y = Inr ts \<longrightarrow> x \<in> set (slice_elems ts) \<longrightarrow>
      (\<exists>t. x = Some t \<and> UserID t = u \<and> backed (w_db w) t))"
proof (cases "cached C unmarshal_tasks (w_redis w) (UserTasksKey u)")
  case (Some ts)
  with cached_tasks_backed [OF inv Some] run inv show ?thesis
    by (auto simp: TaskService_GetTasks_def)
next
  case None
  show ?thesis
  proof (cases "repo_GetByUserID (NewTaskRepository drv) q (w_db w) u")
    case (Inl e)
    with None run inv show ?thesis by (auto simp: TaskService_GetTasks_def)
  next
    case (Inr ts)
    have own: "UserID t = u \<and> backed (w_db w) t \<and> row_fits t" if "t \<in> set ts" for t
      using that task_repo.list_owner [OF svc_invD(2) [OF inv] Inr]
        task_repo.list_rows [OF svc_invD(3,2) [OF inv] Inr] backed_self
        task_at_fits [OF svc_invD(3) [OF inv]] by blast
    obtain e r' where set: "TaskCache_Set C (w_redis w) (UserTasksKey u) (marshal_tasks ts) = (e, r')"
      by fastforce
    from cache_backed_tasks [OF svc_invD(4,1) [OF inv] own set] None Inr set run inv own
    show ?thesis by (auto simp: TaskService_GetTasks_def svc_inv_def)
  qed
qed

lemma backed_owner: "backed (w_db w) t \<Longrightarrow> owner_of w (ID t) = Some (UserID t)"
  by (auto simp: backed_def owner_of_def same_identity_def)

lemma owner_of_db: "w_db w' = w_db w \<Longrightarrow> owner_of w' = owner_of w"
  by (simp add: owner_of_def fun_eq_iff)

interpretation svc: task_service_contract
  "NewTaskService (NewTaskRepository drv) C is_print env q" "svc_inv C view q" owner_of
  for drv C is_print env q view
proof (unfold_locales, goal_cases)
  case (1 w t e t' w')
  then show ?case
    using CreateTask_svc_inv by (fastforce simp: NewTaskService_def)
next
  case (2 w t t' w')
  then show ?case
    using CreateTask_new_owner by (fastforce simp: NewTaskService_def)
next
  case (3 w i x w')
  then show ?case
    using GetTask_svc_inv owner_of_db by (fastforce simp: NewTaskService_def)
next
  case (4 w i t w')
  then show ?case
    using GetTask_svc_inv [of C view q w drv i "Inr t" w'] backed_owner
    by (fastforce simp: NewTaskService_def)
next
  case (5 w u y w')
  then show ?case
    using GetTasks_svc_inv owner_of_db by (fastforce simp: NewTaskService_def)
next
  case (6 w u ts w' x)
  then show ?case
    using GetTasks_svc_inv [of C view q w drv u "Inr ts" w'] backed_owner
    by (fastforce simp: NewTaskService_def)
qed

end
