(* ===== verification/Worker.thy ===== *)
theory Worker
  imports Tx Task_Repository Rabbit Go_Json
begin

section \<open>Worker: internal/worker/proc.go and internal/worker/worker.go\<close>

text \<open>
  One iteration of the worker's loop over its deliveries, as a function of the message, the
  database and the faults of the iteration (\<open>worker_env\<close>) to the database afterwards and the
  commands sent to the broker in their order. The errors of Ack and Nack are only logged.
  The pauses of the task processors are the milliseconds they return.
\<close>

subsection \<open>Decoding a message body into TaskPayload\<close>

definition zero_payload :: task_payload where
  "zero_payload = \<lparr>payload_ID = 0, payload_UserID = 0, payload_TaskType = []\<rparr>"

definition store_member :: "string \<times> json \<Rightarrow> task_payload \<Rightarrow> task_payload option" where
  "store_member kv p =
     (case kv of (k, v) \<Rightarrow>
        if field_matches ''id'' k then
          map_option (\<lambda>i. p\<lparr>payload_ID := i\<rparr>) (store_int v (payload_ID p))
        else if field_matches ''user_id'' k then
          map_option (\<lambda>i. p\<lparr>payload_UserID := i\<rparr>) (store_int v (payload_UserID p))
        else if field_matches ''task_type'' k then
          map_option (\<lambda>s. p\<lparr>payload_TaskType := s\<rparr>) (store_string v (payload_TaskType p))
        else Some p)"

primrec store_members :: "(string \<times> json) list \<Rightarrow> task_payload \<Rightarrow> task_payload option" where
  "store_members [] p = Some p"
| "store_members (m # ms) p =
     (case store_member m p of None \<Rightarrow> None | Some p' \<Rightarrow> store_members ms p')"

text \<open>json.Unmarshal: a null document stores nothing, any other non-object is a type error.\<close>

definition unmarshal_payload :: "string \<Rightarrow> task_payload option" where
  "unmarshal_payload body =
     (case json_parse body of
        Some JNull \<Rightarrow> Some zero_payload
      | Some (JObj ms) \<Rightarrow> store_members ms zero_payload
      | _ \<Rightarrow> None)"

subsection \<open>proc.go\<close>

definition processSendEmail :: "task_payload \<Rightarrow> goerr option \<times> nat" where
  "processSendEmail p = (None, 500)"

definition processGenerateReport :: "task_payload \<Rightarrow> goerr option \<times> nat" where
  "processGenerateReport p = (None, 5000)"

definition processResizeImage :: "task_payload \<Rightarrow> goerr option \<times> nat" where
  "processResizeImage p = (None, 2000)"

definition processCleanupTemp :: "task_payload \<Rightarrow> goerr option \<times> nat" where
  "processCleanupTemp p = (None, 1000)"

definition handleTask :: "task_payload \<Rightarrow> goerr option \<times> nat" where
  "handleTask p =
     (if payload_TaskType p = ''send_email'' then processSendEmail p
      else if payload_TaskType p = ''generate_report'' then processGenerateReport p
      else if payload_TaskType p = ''resize_image'' then processResizeImage p
      else if payload_TaskType p = ''cleanup_temp'' then processCleanupTemp p
      else (Some (ErrorString (''unknown task type: '' @ payload_TaskType p)), 0))"

definition known_types :: "string list" where
  "known_types = [''send_email'', ''generate_report'', ''resize_image'', ''cleanup_temp'']"

lemma handleTask_known: "fst (handleTask p) = None \<longleftrightarrow> payload_TaskType p \<in> set known_types"
  by (auto simp: handleTask_def known_types_def processSendEmail_def processGenerateReport_def
      processResizeImage_def processCleanupTemp_def)

lemma handleTask_unknown:
  "fst (handleTask p) = Some e \<Longrightarrow> e = ErrorString (''unknown task type: '' @ payload_TaskType p)"
  by (auto simp: handleTask_def processSendEmail_def processGenerateReport_def
      processResizeImage_def processCleanupTemp_def split: if_splits)

subsection \<open>Retry header\<close>

definition retry_header :: string where
  "retry_header = ''x-retry-count''"

definition retry_count :: "delivery \<Rightarrow> 32 word" where
  "retry_count msg =
     (case Headers msg of None \<Rightarrow> 0
      | Some h \<Rightarrow> (case h retry_header of Some (AmqpInt32 count) \<Rightarrow> count | _ \<Rightarrow> 0))"

text \<open>
  What republishWithRetry publishes to the queue named by the routing key: content type and
  body of the message, its headers with the counter set, no other property.
\<close>

definition retry_message :: "delivery \<Rightarrow> 32 word \<Rightarrow> delivery" where
  "retry_message msg n =
     \<lparr>ContentType = ContentType msg, Body = Body msg,
      Headers = Some ((case Headers msg of None \<Rightarrow> Map.empty | Some h \<Rightarrow> h)(retry_header \<mapsto> AmqpInt32 n)),
      RoutingKey = RoutingKey msg\<rparr>"

lemma retry_count_retry_message [simp]: "retry_count (retry_message msg n) = n"
  by (simp add: retry_count_def retry_message_def)

lemma Body_retry_message [simp]: "Body (retry_message msg n) = Body msg"
  by (simp add: retry_message_def)

subsection \<open>One iteration of the loop of StartWorker\<close>

datatype broker_cmd = Ack | Nack bool | Republish delivery publish_outcome

record worker_env =
  we_tx1 :: tx_env
  we_st1 :: sql_stmt
  we_tx2 :: tx_env
  we_st2 :: sql_stmt
  we_tx3 :: tx_env
  we_st3 :: sql_stmt
  we_publish :: publish_outcome

definition plain_worker_env :: "int \<Rightarrow> worker_env" where
  "plain_worker_env now =
     \<lparr>we_tx1 = plain_tx, we_st1 = plain_stmt now 0, we_tx2 = plain_tx, we_st2 = plain_stmt now 0,
      we_tx3 = plain_tx, we_st3 = plain_stmt now 0, we_publish = Publish_ok\<rparr>"

definition mark_result ::
  "task_repo \<Rightarrow> sql_stmt \<Rightarrow> int \<Rightarrow> goerr option \<Rightarrow> database \<Rightarrow> goerr option \<times> database" where
  "mark_result R st i taskErr db =
     (case taskErr of
        Some e \<Rightarrow> repo_MarkFailed R st i (err_text e) db
      | None \<Rightarrow> repo_MarkSuccess R st i ''result.txt'' db)"

text \<open>The branch taken when the second transaction fails: give up, or republish.\<close>

definition retry_or_give_up ::
  "task_repo \<Rightarrow> worker_env \<Rightarrow> delivery \<Rightarrow> int \<Rightarrow> database \<Rightarrow> database \<times> broker_cmd list" where
  "retry_or_give_up R env msg i db =
     (let retryCount = retry_count msg in
      if 3 <=s retryCount then
        (snd (run_stmt (we_tx3 env) (repo_MarkFailed R (we_st3 env) i ''max retries reached'') db),
         [Nack False])
      else
        let again = Republish (retry_message msg (retryCount + 1)) (we_publish env) in
        case publish_err (we_publish env) of
          Some e \<Rightarrow> (db, [again, Nack False])
        | None \<Rightarrow> (db, [again, Ack]))"

definition handle_delivery ::
  "task_repo \<Rightarrow> worker_env \<Rightarrow> delivery \<Rightarrow> database \<Rightarrow> database \<times> broker_cmd list" where
  "handle_delivery R env msg db =
     (case unmarshal_payload (Body msg) of
        None \<Rightarrow> (db, [Nack False])
      | Some p \<Rightarrow>
          (case run_stmt (we_tx1 env) (repo_MarkProcessing R (we_st1 env) (payload_ID p)) db of
             (Some e, db1) \<Rightarrow> (db1, [Nack True])
           | (None, db1) \<Rightarrow>
               (case run_stmt (we_tx2 env)
                       (mark_result R (we_st2 env) (payload_ID p) (fst (handleTask p))) db1 of
                  (Some e, db2) \<Rightarrow> retry_or_give_up R env msg (payload_ID p) db2
                | (None, db2) \<Rightarrow> (db2, [Ack]))))"

subsection \<open>StartWorker\<close>

text \<open>The loop over the deliveries of the channel, each with its faults.\<close>

fun worker_loop ::
  "task_repo \<Rightarrow> (worker_env \<times> delivery) list \<Rightarrow> database \<Rightarrow> database \<times> broker_cmd list list" where
  "worker_loop R [] db = (db, [])"
| "worker_loop R ((env, msg) # rest) db =
     (let (db1, cmds) = handle_delivery R env msg db; (db2, more) = worker_loop R rest db1
      in (db2, cmds # more))"

text \<open>
  StartWorker: channel, QoS with one unacknowledged message, consumer on task_queue, each a
  fatal error when it fails, then the loop.
\<close>

definition StartWorker ::
  "goerr option \<Rightarrow> goerr option \<Rightarrow> goerr option \<Rightarrow> int \<Rightarrow> task_repo \<Rightarrow>
     (worker_env \<times> delivery) list \<Rightarrow> database \<Rightarrow> (broker_cmd list list) startup \<times> database" where
  "StartWorker channel_err qos_err consume_err i R msgs db =
     (case channel_err of
        Some e \<Rightarrow> (Fatal (''Worker '' @ fmt_d i @ '' failed to open channel: '' @ err_text e), db)
      | None \<Rightarrow>
     (case qos_err of
        Some e \<Rightarrow> (Fatal (''Worker '' @ fmt_d i @ '' failed to set QoS: '' @ err_text e), db)
      | None \<Rightarrow>
     (case consume_err of
        Some e \<Rightarrow> (Fatal (''Worker '' @ fmt_d i @ '' failed to start consuming messages: '' @ err_text e), db)
      | None \<Rightarrow> (case worker_loop R msgs db of (db', cmds) \<Rightarrow> (Started cmds, db')))))"

end
