(* ===== verification/Task_Message.thy ===== *)
theory Task_Message
  imports Json_Lemmas Task_Service Worker
begin

section \<open>The message from the service to the worker\<close>

text \<open>
  The body the service builds by hand (task_body) against the decoder of the worker
  (unmarshal_payload): the worker reads back id, user and type of the task exactly when the
  type is a string whose Go quotation is JSON, and rejects the message otherwise.
\<close>

subsection \<open>The parts of the body\<close>

lemma skip_ws_tabs [simp]: "skip_ws (tabs n @ s) = skip_ws s"
  by (induction n) (simp_all add: skip_ws_def tabs_def is_ws_byte)

lemma member_names: "plain_name ''id''" "plain_name ''user_id''" "plain_name ''task_type''"
  by (simp_all add: plain_name_def)

lemma json_value_fmt_d:
  "json_value (Suc n) d (CHR '' '' # fmt_d i @ CHR '','' # rest) = Some (JNum (fmt_d i), CHR '','' # rest)"
proof -
  obtain x xs where "fmt_d i = x # xs" "\<not> is_ws x" "x \<noteq> CHR ''n''" "x \<noteq> CHR ''t''" "x \<noteq> CHR ''f''"
    "x \<noteq> byte 34" "x \<noteq> CHR ''[''" "x \<noteq> CHR ''{''" using fmt_d_first [of i] .
  with json_number_fmt_d [of "CHR '',''" i rest] show ?thesis
    by (simp add: skip_ws_other json_value.simps(2) is_digit_def)
qed

subsection \<open>The whole body\<close>

lemma json_members_step:
  assumes "plain_name k" and "json_value n d (CHR '' '' # v) = Some (j, t)"
  shows "json_members (Suc n) d (tabs a @ member_name k @ v) =
     (case skip_ws t of [] \<Rightarrow> None
      | c # r \<Rightarrow>
          if c = CHR '','' then map_option (\<lambda>(ms, u). ((k, j) # ms, u)) (json_members n d r)
          else if c = CHR ''}'' then Some ([(k, j)], r) else None)"
proof -
  show ?thesis
    using json_string_name [OF assms(1)] assms(2)
    by (simp add: member_name_def json_members.simps(2))
qed

lemma json_members_bad:
  assumes "plain_name k" and "json_value n d (CHR '' '' # v) = None"
  shows "json_members (Suc n) d (tabs a @ member_name k @ v) = None"
proof -
  show ?thesis
    using json_string_name [OF assms(1)] assms(2)
    by (simp add: member_name_def json_members.simps(2))
qed

lemma json_value_quote:
  "json_value (Suc n) d (CHR '' '' # strconv_Quote is_print s @ rest) =
     (if json_safe is_print s then Some (JStr (quote_body is_print s) s, rest) else None)"
  by (auto simp: strconv_Quote_def json_string_quote json_value.simps(2) literal_of_append)

lemma json_members_body:
  "json_members (Suc (Suc (Suc (Suc n)))) d
     (tabs 3 @ member_name ''id'' @ fmt_d i @ '','' @
      tabs 3 @ member_name ''user_id'' @ fmt_d u @ '','' @
      tabs 3 @ member_name ''task_type'' @ strconv_Quote is_print s @ tabs 2 @ ''}'') =
   (if json_safe is_print s
    then Some ([(''id'', JNum (fmt_d i)), (''user_id'', JNum (fmt_d u)), (''task_type'', JStr (quote_body is_print s) s)], [])
    else None)"
proof -
  let ?c = "strconv_Quote is_print s @ tabs 2 @ ''}''"
  let ?b = "tabs 3 @ member_name ''task_type'' @ ?c"
  let ?a = "tabs 3 @ member_name ''user_id'' @ fmt_d u @ '','' @ ?b"
  have 3: "json_members (Suc (Suc n)) d ?b =
      (if json_safe is_print s then Some ([(''task_type'', JStr (quote_body is_print s) s)], []) else None)"
  proof (cases "json_safe is_print s")
    case True
    with json_members_step [OF member_names(3), of "Suc n" d ?c "JStr (quote_body is_print s) s" "tabs 2 @ ''}''" 3]
    show ?thesis by (simp add: json_value_quote)
  next
    case False
    with json_members_bad [OF member_names(3), of "Suc n" d ?c 3] show ?thesis
      by (simp add: json_value_quote)
  qed
  have 2: "json_members (Suc (Suc (Suc n))) d ?a =
      map_option (\<lambda>(ms, r). ((''user_id'', JNum (fmt_d u)) # ms, r)) (json_members (Suc (Suc n)) d ?b)"
    using json_members_step [OF member_names(2), of "Suc (Suc n)" d "fmt_d u @ CHR '','' # ?b"]
    by (simp add: json_value_fmt_d)
  show ?thesis
    using json_members_step [OF member_names(1), of "Suc (Suc (Suc n))" d "fmt_d i @ CHR '','' # ?a"]
      2 3 by (simp add: json_value_fmt_d)
qed

lemma json_value_object:
  assumes "0 < d"
  shows "json_value (Suc n) d (CHR ''{'' # tabs a @ member_name k @ v) =
     map_option (\<lambda>(ms, t). (JObj ms, t)) (json_members n (d - 1) (tabs a @ member_name k @ v))"
proof -
  have "json_members n (d - 1) (tabs a @ member_name k @ v) = json_members n (d - 1) (member_name k @ v)"
    by (cases n) (simp_all add: json_members.simps(2) member_name_def)
  with assms show ?thesis by (simp add: json_value.simps(2) member_name_def)
qed

lemma json_parse_body:
  "json_parse (task_body is_print t) =
     (if json_safe is_print (TaskType t)
      then Some (JObj [(''id'', JNum (fmt_d (ID t))), (''user_id'', JNum (fmt_d (UserID t))),
                       (''task_type'', JStr (quote_body is_print (TaskType t)) (TaskType t))])
      else None)"
proof -
  have "3 \<le> length (task_body is_print t)"
    by (simp add: task_body_def tabs_def)
  then have "\<exists>m. 2 * length (task_body is_print t) + 2 = Suc (Suc (Suc (Suc (Suc m))))"
    by presburger
  then obtain m where m: "2 * length (task_body is_print t) + 2 = Suc (Suc (Suc (Suc (Suc m))))"
    by blast
  have body: "json_value (Suc (Suc (Suc (Suc (Suc m))))) max_nesting (task_body is_print t) =
      (if json_safe is_print (TaskType t)
       then Some (JObj [(''id'', JNum (fmt_d (ID t))), (''user_id'', JNum (fmt_d (UserID t))),
                        (''task_type'', JStr (quote_body is_print (TaskType t)) (TaskType t))], [])
       else None)"
    using json_members_body [of m "max_nesting - 1" "ID t" "UserID t" is_print "TaskType t"]
    by (simp add: task_body_def json_value_object max_nesting_def)
  show ?thesis unfolding json_parse_def m body by (simp add: skip_ws_def)
qed

text \<open>The three names differ in length.\<close>

lemma ascii_names:
  "list_all (\<lambda>c. (of_char c :: nat) < 128) ''id''"
  "list_all (\<lambda>c. (of_char c :: nat) < 128) ''user_id''"
  "list_all (\<lambda>c. (of_char c :: nat) < 128) ''task_type''"
  by simp_all

lemma field_matches_names:
  "\<not> field_matches ''id'' ''user_id''" "\<not> field_matches ''id'' ''task_type''"
  "\<not> field_matches ''user_id'' ''task_type''"
  by (rule field_matches_ascii [OF ascii_names(1,2)], simp)
    (rule field_matches_ascii [OF ascii_names(1,3)], simp,
     rule field_matches_ascii [OF ascii_names(2,3)], simp)

text \<open>The round trip, in both directions of the condition.\<close>

lemma unmarshal_task_body:
  assumes "in_int64 (ID t)" and "in_int64 (UserID t)"
  shows "unmarshal_payload (task_body is_print t) =
    (if json_safe is_print (TaskType t)
     then Some \<lparr>payload_ID = ID t, payload_UserID = UserID t, payload_TaskType = TaskType t\<rparr>
     else None)"
  using assms
  by (simp add: unmarshal_payload_def json_parse_body store_member_def field_matches_self
      field_matches_names store_int_def store_string_def atoi_fmt_d zero_payload_def)

text \<open>Every message the service publishes is of this form, and so are its republications.\<close>

lemma Body_task_message [simp]: "Body (task_message is_print t) = task_body is_print t"
  by (simp add: task_message_def)

lemma retry_count_task_message [simp]: "retry_count (task_message is_print t) = 0"
  by (simp add: task_message_def retry_count_def)

end
