(* ===== verification/Worker_Lifecycle.thy ===== *)
theory Worker_Lifecycle
  imports Worker
begin

section \<open>What the worker does to a task and to a message\<close>

text \<open>
  The life of a task row as a step relation, the refinement of the worker's iteration to it,
  the settlement of every message, and the bound on republication. The lemmas are proved for
  any repository that keeps the laws of \<open>task_repository\<close>.
\<close>

subsection \<open>The steps of a row\<close>

inductive task_step :: "task \<Rightarrow> task \<Rightarrow> bool" where
  processing: "task_step t (t\<lparr>Status := ''PROCESSING'', UpdatedAt := n\<rparr>)"
| success: "valid_utf8 f \<Longrightarrow>
    task_step t (t\<lparr>Status := ''SUCCESS'', ResultFile := Some f, UpdatedAt := n\<rparr>)"
| failed: "valid_utf8 m \<Longrightarrow>
    task_step t (t\<lparr>Status := ''FAILED'', ErrorMessage := Some m, UpdatedAt := n\<rparr>)"

inductive_cases task_stepE: "task_step t t'"

inductive_simps task_step_iff: "task_step t t'"

lemma task_step_identity: "task_step t t' \<Longrightarrow> same_identity t t'"
  by (auto elim!: task_stepE simp: same_identity_def)

lemma same_identity_refl [simp]: "same_identity t t"
  by (simp add: same_identity_def)

lemma same_identity_trans: "same_identity r s \<Longrightarrow> same_identity s t \<Longrightarrow> same_identity r t"
  by (simp add: same_identity_def)

lemma task_steps_identity: "task_step\<^sup>*\<^sup>* t t' \<Longrightarrow> same_identity t t'"
  by (induction rule: rtranclp_induct) (auto dest: task_step_identity intro: same_identity_trans)

text \<open>
  What holds of every row the program has written: one of the four states; a row that ended
  well has a result, one that failed has a message, a pending one has neither.
\<close>

definition row_ok :: "task \<Rightarrow> bool" where
  "row_ok t \<longleftrightarrow> Status t \<in> {''PENDING'', ''PROCESSING'', ''SUCCESS'', ''FAILED''} \<and>
     (Status t = ''SUCCESS'' \<longrightarrow> ResultFile t \<noteq> None) \<and>
     (Status t = ''FAILED'' \<longrightarrow> ErrorMessage t \<noteq> None) \<and>
     (Status t = ''PENDING'' \<longrightarrow> ResultFile t = None \<and> ErrorMessage t = None)"

lemma task_step_row_ok: "task_step t t' \<Longrightarrow> row_ok t'"
  by (auto elim!: task_stepE simp: row_ok_def)

lemma task_steps_row_ok: "task_step\<^sup>*\<^sup>* t t' \<Longrightarrow> row_ok t \<Longrightarrow> row_ok t'"
  by (induction rule: rtranclp_induct) (auto dest: task_step_row_ok)

lemma task_step_fits: "task_step t t' \<Longrightarrow> row_fits t \<Longrightarrow> row_fits t'"
  by (auto elim!: task_stepE simp: row_fits_def rune_count_def is_continuation_def)

lemma task_steps_fits: "task_step\<^sup>*\<^sup>* t t' \<Longrightarrow> row_fits t \<Longrightarrow> row_fits t'"
  by (induction rule: rtranclp_induct) (auto dest: task_step_fits)

lemma task_step_not_pending: "task_step t t' \<Longrightarrow> Status t' \<noteq> ''PENDING''"
  by (auto elim!: task_stepE)

subsection \<open>Steps of the row of one id, in the table\<close>

definition steps_at :: "int \<Rightarrow> database \<Rightarrow> database \<Rightarrow> bool" where
  "steps_at i db db' \<longleftrightarrow> (\<exists>f. db' = update_tasks i f db \<and> (\<forall>t. task_step\<^sup>*\<^sup>* t (f t)))"

lemma update_tasks_ident: "update_tasks i (\<lambda>t. t) db = db"
  by (simp add: update_tasks_def update_at_def)

lemma update_tasks_twice:
  assumes "\<And>t. ID (f t) = ID t"
  shows "update_tasks i g (update_tasks i f db) = update_tasks i (\<lambda>t. g (f t)) db"
  using assms by (auto simp: update_tasks_def update_at_def)

lemma steps_at_refl [simp, intro]: "steps_at i db db"
  unfolding steps_at_def by (rule exI [of _ "\<lambda>t. t"]) (simp add: update_tasks_ident)

lemma steps_at_update: "(\<And>t. task_step t (f t)) \<Longrightarrow> steps_at i db (update_tasks i f db)"
  unfolding steps_at_def by (rule exI [of _ f]) auto

lemma steps_at_trans:
  assumes "steps_at i db db1" and "steps_at i db1 db2"
  shows "steps_at i db db2"
proof -
  obtain f g where fg: "db1 = update_tasks i f db" "db2 = update_tasks i g db1"
    and f: "\<And>t. task_step\<^sup>*\<^sup>* t (f t)" and g: "\<And>t. task_step\<^sup>*\<^sup>* t (g t)"
    using assms unfolding steps_at_def by blast
  have "ID (f t) = ID t" for t
    using task_steps_identity [OF f [of t]] by (simp add: same_identity_def)
  then have "db2 = update_tasks i (\<lambda>t. g (f t)) db" by (simp add: fg update_tasks_twice)
  moreover have "task_step\<^sup>*\<^sup>* t (g (f t))" for t
    using f [of t] g [of "f t"] by (rule rtranclp_trans)
  ultimately show ?thesis unfolding steps_at_def by blast
qed

lemma steps_at_row:
  assumes "steps_at i db db'"
  shows "users_tbl db' = users_tbl db" and "j \<noteq> i \<Longrightarrow> task_at db' j = task_at db j"
    and "task_at db j = None \<longleftrightarrow> task_at db' j = None"
    and "task_at db i = Some t \<Longrightarrow> \<exists>t'. task_at db' i = Some t' \<and> task_step\<^sup>*\<^sup>* t t'"
proof -
  obtain f where db': "db' = update_tasks i f db" and f: "\<And>t. task_step\<^sup>*\<^sup>* t (f t)"
    using assms unfolding steps_at_def by blast
  have id: "ID (f t) = ID t" for t
    using task_steps_identity [OF f [of t]] by (simp add: same_identity_def)
  show "users_tbl db' = users_tbl db" by (simp add: db' frame_simps)
  show "j \<noteq> i \<Longrightarrow> task_at db' j = task_at db j"
    "task_at db j = None \<longleftrightarrow> task_at db' j = None"
    by (simp_all add: db' task_at_update_tasks [OF id])
  show "task_at db i = Some t \<Longrightarrow> \<exists>t'. task_at db' i = Some t' \<and> task_step\<^sup>*\<^sup>* t t'"
    using f by (simp add: db' task_at_update_tasks [OF id])
qed

lemma steps_at_keys: "steps_at i db db' \<Longrightarrow> map ID (tasks_tbl db') = map ID (tasks_tbl db)"
proof -
  assume "steps_at i db db'"
  then obtain f where db': "db' = update_tasks i f db" and f: "\<And>t. task_step\<^sup>*\<^sup>* t (f t)"
    unfolding steps_at_def by blast
  have "ID (f t) = ID t" for t
    using task_steps_identity [OF f [of t]] by (simp add: same_identity_def)
  then show ?thesis by (simp add: db' update_tasks_def keys_update_at)
qed

lemma steps_at_wf:
  assumes "steps_at i db db'" and "wf_db db"
  shows "wf_db db'"
proof -
  obtain f where db': "db' = update_tasks i f db" and f: "\<And>t. task_step\<^sup>*\<^sup>* t (f t)"
    using assms unfolding steps_at_def by blast
  have "ID (f t) = ID t" for t
    using task_steps_identity [OF f [of t]] by (simp add: same_identity_def)
  moreover have "row_fits t \<Longrightarrow> row_fits (f t)" for t
    using task_steps_fits [OF f] .
  ultimately show ?thesis using assms(2) by (simp add: db' wf_db_update_tasks)
qed

lemma steps_at_backed: 
  assumes "steps_at i db db'" and "backed db t"
  shows "backed db' t"
proof (cases "ID t = i")
  case True
  from assms(2) obtain r where r: "task_at db i = Some r" "same_identity r t"
    using True by (auto simp: backed_def)
  from steps_at_row(4) [OF assms(1) r(1)] obtain r' where
    "task_at db' i = Some r'" "same_identity r r'" using task_steps_identity by blast
  with r(2) True show ?thesis by (auto simp: backed_def same_identity_def)
next
  case False
  with assms(2) steps_at_row(2) [OF assms(1) False] show ?thesis by (simp add: backed_def)
qed

lemma steps_at_rows_ok:
  assumes "steps_at i db db'" and "\<forall>t \<in> set (tasks_tbl db). row_ok t"
  shows "\<forall>t \<in> set (tasks_tbl db'). row_ok t"
  using assms task_steps_row_ok
  by (fastforce simp: steps_at_def update_tasks_def update_at_def)

subsection \<open>The iteration of the worker takes only such steps\<close>

context task_repository
begin

lemma processing_steps:
  "run_stmt env (repo_MarkProcessing R st i) db = (r, db') \<Longrightarrow> steps_at i db db'"
  by (drule run_stmt_store) (auto dest!: processing_ok intro!: steps_at_update task_step.processing)

lemma failed_steps:
  "run_stmt env (repo_MarkFailed R st i m) db = (r, db') \<Longrightarrow> steps_at i db db'"
  by (drule run_stmt_store) (auto dest!: failed_ok intro!: steps_at_update task_step.failed)

lemma result_steps:
  "run_stmt env (mark_result R st i taskErr) db = (r, db') \<Longrightarrow> steps_at i db db'"
  by (drule run_stmt_store)
    (auto simp: mark_result_def split: option.splits dest!: success_ok failed_ok
      intro!: steps_at_update task_step.success task_step.failed)

lemma give_up_steps: "retry_or_give_up R env msg i db = (db', cmds) \<Longrightarrow> steps_at i db db'"
  using failed_steps [of "we_tx3 env" "we_st3 env" i "''max retries reached''" db]
  by (cases "run_stmt (we_tx3 env) (repo_MarkFailed R (we_st3 env) i ''max retries reached'') db")
    (auto simp: retry_or_give_up_def Let_def split: if_splits option.splits)

lemma handle_delivery_steps:
  assumes "handle_delivery R env msg db = (db', cmds)"
  shows "db' = db \<or> (\<exists>p. unmarshal_payload (Body msg) = Some p \<and> steps_at (payload_ID p) db db')"
proof (cases "unmarshal_payload (Body msg)")
  case None
  with assms show ?thesis by (simp add: handle_delivery_def)
next
  case (Some p)
  let ?i = "payload_ID p"
  obtain r1 db1 where 1: "run_stmt (we_tx1 env) (repo_MarkProcessing R (we_st1 env) ?i) db = (r1, db1)"
    by fastforce
  obtain r2 db2 where 2: "run_stmt (we_tx2 env)
      (mark_result R (we_st2 env) ?i (fst (handleTask p))) db1 = (r2, db2)"
    by fastforce
  note s1 = processing_steps [OF 1]
  note s2 = steps_at_trans [OF s1 result_steps [OF 2]]
  have "steps_at ?i db db'"
    using assms Some 1 2 s1 s2 steps_at_trans [OF s2 give_up_steps]
    by (auto simp: handle_delivery_def split: option.splits)
  with Some show ?thesis by blast
qed

lemma worker_loop_inv:
  assumes step: "\<And>env msg db db' cmds. P db \<Longrightarrow> handle_delivery R env msg db = (db', cmds) \<Longrightarrow> P db'"
  shows "P db \<Longrightarrow> P (fst (worker_loop R msgs db))"
proof (induction msgs arbitrary: db)
  case Nil
  then show ?case by simp
next
  case (Cons m msgs)
  obtain env msg where m: "m = (env, msg)" by (cases m)
  obtain db1 cmds where h: "handle_delivery R env msg db = (db1, cmds)" by fastforce
  from Cons.IH [OF step [OF Cons.prems h]] show ?case
    by (auto simp: m h split: prod.split)
qed

end

subsection \<open>Settlement: exactly one acknowledgement, and it is the last command\<close>

definition is_settle :: "broker_cmd \<Rightarrow> bool" where
  "is_settle c = (case c of Ack \<Rightarrow> True | Nack _ \<Rightarrow> True | Republish _ _ \<Rightarrow> False)"

lemma give_up_settles:
  "\<exists>pre c. snd (retry_or_give_up R env msg i db) = pre @ [c] \<and> is_settle c \<and>
    (\<forall>x \<in> set pre. \<not> is_settle x)"
  by (auto simp: retry_or_give_up_def is_settle_def Let_def split: option.split)

lemma handle_delivery_settles:
  "\<exists>pre c. snd (handle_delivery R env msg db) = pre @ [c] \<and> is_settle c \<and>
    (\<forall>x \<in> set pre. \<not> is_settle x)"
  using give_up_settles
  by (auto simp: handle_delivery_def is_settle_def split: option.split prod.split)

subsection \<open>Republication\<close>

text \<open>The message a handling of another one republishes, whatever the faults.\<close>

definition republishes :: "delivery \<Rightarrow> delivery \<Rightarrow> bool" where
  "republishes msg msg' \<longleftrightarrow>
     (\<exists>R env db out. Republish msg' out \<in> set (snd (handle_delivery R env msg db)))"

lemma give_up_republish:
  "Republish msg' out \<in> set (snd (retry_or_give_up R env msg i db)) \<Longrightarrow>
   \<not> 3 <=s retry_count msg \<and> msg' = retry_message msg (retry_count msg + 1)"
  by (auto simp: retry_or_give_up_def Let_def split: if_splits option.splits)

lemma handle_delivery_republish:
  "Republish msg' out \<in> set (snd (handle_delivery R env msg db)) \<Longrightarrow>
   \<not> 3 <=s retry_count msg \<and> msg' = retry_message msg (retry_count msg + 1)"
  by (auto simp: handle_delivery_def dest: give_up_republish split: option.splits prod.splits)

text \<open>The counter is a 32-bit int: the increment below the limit does not wrap.\<close>

lemma sint_count_inc:
  fixes n :: "32 word"
  assumes "\<not> 3 <=s n"
  shows "sint (n + 1) = sint n + 1" "sint n < 3"
proof -
  show lt: "sint n < 3" using assms by (simp add: word_sle_eq)
  have "- (2 ^ 31) \<le> sint n" using sint_ge [of n] by simp
  with lt show "sint (n + 1) = sint n + 1"
    by (simp add: sint_word_ariths signed_take_bit_int_eq_self)
qed

lemma republishes_count:
  assumes "republishes msg msg'"
  shows "sint (retry_count msg') = sint (retry_count msg) + 1" "sint (retry_count msg) < 3"
    "Body msg' = Body msg" "RoutingKey msg' = RoutingKey msg" "ContentType msg' = ContentType msg"
  using assms sint_count_inc
  by (auto simp: republishes_def dest!: handle_delivery_republish) (simp_all add: retry_message_def)

lemma republishes_wf: "wfP (\<lambda>msg' msg. republishes msg msg')"
proof (rule wfp_if_convertible_to_nat [of _ "\<lambda>m. nat (3 - sint (retry_count m))"])
  fix m' m assume "republishes m m'"
  from republishes_count(1,2) [OF this]
  show "nat (3 - sint (retry_count m')) < nat (3 - sint (retry_count m))" by simp
qed

lemma republishes_relpow:
  "(republishes ^^ n) msg msg' \<Longrightarrow> sint (retry_count msg') = sint (retry_count msg) + int n"
proof (induction n arbitrary: msg')
  case 0
  then show ?case by simp
next
  case (Suc n)
  then obtain m where "(republishes ^^ n) msg m" "republishes m msg'" by auto
  with Suc.IH republishes_count(1) show ?case by fastforce
qed

lemma republishes_bound:
  assumes "(republishes ^^ n) msg msg'" and "0 < n"
  shows "sint (retry_count msg) + int n \<le> 3"
proof -
  obtain k where n: "n = Suc k" using assms(2) by (cases n) auto
  with assms(1) obtain m where m: "(republishes ^^ k) msg m" "republishes m msg'" by auto
  from republishes_relpow [OF m(1)] republishes_count(2) [OF m(2)] n show ?thesis by simp
qed

end
