(* ===== verification/Gin.thy ===== *)
theory Gin
  imports Models
begin

section \<open>Requests, responses and handlers\<close>

text \<open>
  What the handlers see of the web framework: the keys middlewares set on the context (values
  of type any), headers and path parameters (empty when absent), and the response a handler
  writes: a status and the members of its JSON object. The framework itself, which runs the
  handlers of a route, is a parameter of the route table (theory Routes).
\<close>

datatype any = AnyInt int | AnyString string | AnyOther

record gin_ctx =
  ctx_keys :: "string \<rightharpoonup> any"
  ctx_header :: "string \<Rightarrow> string"
  ctx_param :: "string \<Rightarrow> string"

datatype resp_val = RInt int | RString string | RStringPtr "string option" | RTime gotime
  | RTasks "task option list option"

record response =
  http_status :: nat
  http_body :: "(string \<times> resp_val) list"

text \<open>
  The outcome of one handler: it wrote a response and the chain ends (it aborted, or it is
  the last handler), it called Next with its context, or it panicked.
\<close>

datatype handled = Respond response | Next gin_ctx | Panic string

type_synonym 'w handler = "gin_ctx \<Rightarrow> 'w \<Rightarrow> handled \<times> 'w"

definition JSON :: "nat \<Rightarrow> (string \<times> resp_val) list \<Rightarrow> handled" where
  "JSON code body = Respond \<lparr>http_status = code, http_body = body\<rparr>"

definition error_json :: "nat \<Rightarrow> string \<Rightarrow> handled" where
  "error_json code msg = JSON code [(''error'', RString msg)]"

definition set_key :: "string \<Rightarrow> any \<Rightarrow> gin_ctx \<Rightarrow> gin_ctx" where
  "set_key k v ctx = ctx\<lparr>ctx_keys := (ctx_keys ctx)(k \<mapsto> v)\<rparr>"

definition status_of :: "handled \<Rightarrow> nat option" where
  "status_of h = (case h of Respond r \<Rightarrow> Some (http_status r) | _ \<Rightarrow> None)"

lemma JSON_eq [simp]:
  "JSON c b = JSON c' b' \<longleftrightarrow> c = c' \<and> b = b'"
  "status_of (JSON c b) = Some c" "JSON c b \<noteq> Next ctx" "JSON c b \<noteq> Panic p"
  by (auto simp: JSON_def status_of_def)

lemma error_json_eq [simp]:
  "error_json c m = JSON c' b \<longleftrightarrow> c = c' \<and> b = [(''error'', RString m)]"
  "JSON c' b = error_json c m \<longleftrightarrow> c = c' \<and> b = [(''error'', RString m)]"
  "error_json c m = error_json c' m' \<longleftrightarrow> c = c' \<and> m = m'"
  "status_of (error_json c m) = Some c" "error_json c m \<noteq> Next ctx" "error_json c m \<noteq> Panic p"
  by (auto simp: error_json_def)

subsection \<open>auth.GetUserIDFromContext\<close>

definition UserIDKey :: string where
  "UserIDKey = ''userID''"

definition GetUserIDFromContext :: "gin_ctx \<Rightarrow> int result" where
  "GetUserIDFromContext c =
     (case ctx_keys c UserIDKey of
        None \<Rightarrow> Inl (ErrorString ''user ID not found in context'')
      | Some (AnyInt i) \<Rightarrow> Inr i
      | Some _ \<Rightarrow> Inl (ErrorString ''invalid user ID type''))"

lemma GetUserID_set [simp]: "GetUserIDFromContext (set_key UserIDKey (AnyInt i) c) = Inr i"
  by (simp add: GetUserIDFromContext_def set_key_def)

lemma GetUserID_Inr: "GetUserIDFromContext c = Inr i \<longleftrightarrow> ctx_keys c UserIDKey = Some (AnyInt i)"
  by (auto simp: GetUserIDFromContext_def split: option.splits any.splits)

text \<open>A request without keys, headers and parameters, for examples.\<close>

definition plain_ctx :: gin_ctx where
  "plain_ctx = \<lparr>ctx_keys = Map.empty, ctx_header = (\<lambda>_. []), ctx_param = (\<lambda>_. [])\<rparr>"

end
