(* ===== verification/Task_Controller.thy ===== *)
theory Task_Controller
  imports Gin Task_Service
begin

section \<open>Task controller: internal/task/controller.go\<close>

text \<open>
  The three handlers over any TaskServiceInterface. The result of ShouldBindJSON on the
  request is an argument (\<open>bound\<close>); what the tag binding:"required" promises of it is
  \<open>bind_required\<close>.
\<close>

record 'w task_controller =
  tc_service :: "'w task_service"

definition NewTaskController :: "'w task_service \<Rightarrow> 'w task_controller" where
  "NewTaskController service = \<lparr>tc_service = service\<rparr>"

definition bind_required :: "string result \<Rightarrow> bool" where
  "bind_required bound \<longleftrightarrow> (\<forall>s. bound = Inr s \<longrightarrow> s \<noteq> [])"

definition pending_task :: "int \<Rightarrow> string \<Rightarrow> task" where
  "pending_task userID taskType =
     \<lparr>ID = 0, UserID = userID, TaskType = taskType, Status = ''PENDING'', ResultFile = None,
      ErrorMessage = None, CreatedAt = zero_time, UpdatedAt = zero_time\<rparr>"

definition TaskController_CreateTask :: "'w task_service \<Rightarrow> string result \<Rightarrow> 'w handler" where
  "TaskController_CreateTask S bound c w =
     (case bound of Inl e \<Rightarrow> (error_json 400 (err_text e), w)
      | Inr taskType \<Rightarrow>
      case GetUserIDFromContext c of Inl e \<Rightarrow> (error_json 401 ''User not authenticated'', w)
      | Inr userID \<Rightarrow>
      case svc_CreateTask S (pending_task userID taskType) w of
        (Some e, t, w') \<Rightarrow> (error_json 500 (err_text e), w')
      | (None, t, w') \<Rightarrow>
          (JSON 201 [(''task_id'', RInt (ID t)), (''status'', RString (Status t)),
                     (''message'', RString ''Task created successfully'')], w'))"

definition task_json :: "task \<Rightarrow> (string \<times> resp_val) list" where
  "task_json t =
     [(''id'', RInt (ID t)), (''user_id'', RInt (UserID t)), (''task_type'', RString (TaskType t)),
      (''status'', RString (Status t)), (''result_file'', RStringPtr (ResultFile t)),
      (''error_message'', RStringPtr (ErrorMessage t)), (''created_at'', RTime (CreatedAt t)),
      (''updated_at'', RTime (UpdatedAt t))]"

definition TaskController_GetTask :: "'w task_service \<Rightarrow> 'w handler" where
  "TaskController_GetTask S c w =
     (case strconv_Atoi (ctx_param c ''id'') of Inl e \<Rightarrow> (error_json 400 ''Invalid task ID'', w)
      | Inr i \<Rightarrow>
      case svc_GetTask S i w of
        (Inl e, w') \<Rightarrow> (error_json 404 ''Task not found'', w')
      | (Inr t, w') \<Rightarrow>
          (case GetUserIDFromContext c of
             Inl e \<Rightarrow> (error_json 401 ''User ID not found in context'', w')
           | Inr authenticatedUserID \<Rightarrow>
               if UserID t \<noteq> authenticatedUserID
               then (error_json 403 ''You can only view your own tasks'', w')
               else (JSON 200 (task_json t), w')))"

definition TaskController_GetTasksByUser :: "'w task_service \<Rightarrow> 'w handler" where
  "TaskController_GetTasksByUser S c w =
     (case GetUserIDFromContext c of Inl e \<Rightarrow> (error_json 401 ''User not authenticated'', w)
      | Inr userID \<Rightarrow>
      case svc_GetTasks S userID w of
        (Inl e, w') \<Rightarrow> (error_json 500 ''Failed to get tasks'', w')
      | (Inr tasks, w') \<Rightarrow>
          (JSON 200 [(''tasks'', RTasks tasks), (''count'', RInt (int (length (slice_elems tasks))))], w'))"

lemmas task_controller_defs [op_defs] = TaskController_CreateTask_def
  TaskController_GetTask_def TaskController_GetTasksByUser_def

lemma task_json_inject: "task_json t = task_json t' \<Longrightarrow> t = t'"
  by (cases t; cases t') (simp add: task_json_def)

subsection \<open>Ownership, for any service that keeps its contract\<close>

context task_service_contract
begin

text \<open>A task is shown only to the user who owns it, and it is the task that was asked for.\<close>

lemma GetTask_shows:
  assumes "I w" and "TaskController_GetTask S c w = (JSON 200 body, w')"
  shows "\<exists>t u. body = task_json t \<and> strconv_Atoi (ctx_param c ''id'') = Inr (ID t) \<and>
    GetUserIDFromContext c = Inr u \<and> UserID t = u \<and> owner w (ID t) = Some u"
  using assms get_ok
  by (fastforce simp: TaskController_GetTask_def split: sum.splits if_splits prod.splits)

text \<open>A task of another user is refused.\<close>

lemma GetTask_foreign:
  assumes "I w" and "strconv_Atoi (ctx_param c ''id'') = Inr i" and "owner w i = Some v"
    and "GetUserIDFromContext c = Inr u" and "u \<noteq> v"
  shows "status_of (fst (TaskController_GetTask S c w)) \<in> {Some 403, Some 404}"
  using assms get_ok [OF assms(1)]
  by (fastforce simp: TaskController_GetTask_def split: sum.splits if_splits prod.splits)

text \<open>A listing holds only tasks of the user who asks, no nil pointer, and counts them.\<close>

lemma list_shows:
  assumes "I w" and "TaskController_GetTasksByUser S c w = (JSON 200 body, w')"
  shows "\<exists>ts u. body = [(''tasks'', RTasks ts), (''count'', RInt (int (length (slice_elems ts))))] \<and>
    GetUserIDFromContext c = Inr u \<and>
    (\<forall>p \<in> set (slice_elems ts). \<exists>t. p = Some t \<and> UserID t = u \<and> owner w (ID t) = Some u)"
  using assms list_ok
  by (fastforce simp: TaskController_GetTasksByUser_def split: sum.splits prod.splits)

text \<open>A created task is new, pending, and belongs to the user who created it.\<close>

lemma CreateTask_owner:
  assumes "I w" and "TaskController_CreateTask S bound c w = (JSON 201 body, w')"
  shows "\<exists>i u. body = [(''task_id'', RInt i), (''status'', RString ''PENDING''),
      (''message'', RString ''Task created successfully'')] \<and>
    GetUserIDFromContext c = Inr u \<and> owner w i = None \<and> owner w' i = Some u"
  using assms create_owner
  by (fastforce simp: TaskController_CreateTask_def pending_task_def
      split: sum.splits prod.splits option.splits)

text \<open>Every handler keeps the invariant.\<close>

lemma CreateTask_inv: "I w \<Longrightarrow> I (snd (TaskController_CreateTask S bound c w))"
  using create_inv
  by (auto simp: TaskController_CreateTask_def split: sum.split prod.split option.split)

lemma GetTask_inv: "I w \<Longrightarrow> I (snd (TaskController_GetTask S c w))"
  using get_inv by (auto simp: TaskController_GetTask_def split: sum.split prod.split)

lemma GetTasksByUser_inv: "I w \<Longrightarrow> I (snd (TaskController_GetTasksByUser S c w))"
  using list_inv by (auto simp: TaskController_GetTasksByUser_def split: sum.split prod.split)

end

end
