(* ===== verification/User_Repository.thy ===== *)
theory User_Repository
  imports Models
begin

section \<open>User repository: internal/user/repository.go\<close>

text \<open>
  The four queries of UserRepository on the table \<open>users\<close>, the interface
  UserRepositoryInterface as a record, and its laws as the locale \<open>user_repository\<close>,
  interpreted on UserRepository. The column username is VARCHAR(50) and unique, password is
  TEXT.
\<close>

subsection \<open>The operations\<close>

text \<open>One query for a user: the error of the call and the error of Scan on the row.\<close>

record user_query =
  uq_fault :: "goerr option"
  uq_scan :: "user \<Rightarrow> goerr option"

definition plain_user_query :: user_query where
  "plain_user_query = \<lparr>uq_fault = None, uq_scan = (\<lambda>_. None)\<rparr>"

text \<open>The row with a user name; the constraint makes it the only one.\<close>

definition user_named :: "database \<Rightarrow> string \<Rightarrow> user option" where
  "user_named db = row_at Username (users_tbl db)"

definition UserRepository_Create ::
  "driver \<Rightarrow> sql_stmt \<Rightarrow> user \<Rightarrow> database \<Rightarrow> int result \<times> database" where
  "UserRepository_Create drv st usr db =
     (case st_fault st of Some e \<Rightarrow> (Inl e, db) | None \<Rightarrow>
      case text_error drv (Username usr) of Some e \<Rightarrow> (Inl e, db) | None \<Rightarrow>
      case text_error drv (Password usr) of Some e \<Rightarrow> (Inl e, db) | None \<Rightarrow>
      case varchar 50 (Username usr) of None \<Rightarrow> (Inl (drv_varchar drv), db) | Some name \<Rightarrow>
        if \<not> int4_ok (st_gen_id st) then (Inl (drv_int4 drv), db)
        else if user_at db (st_gen_id st) \<noteq> None then (Inl (drv_unique drv ''users_pkey''), db)
        else if user_named db name \<noteq> None then (Inl (drv_unique drv ''users_username_key''), db)
        else (Inr (st_gen_id st),
              db\<lparr>users_tbl := users_tbl db @
                [\<lparr>user_ID = st_gen_id st, Username = name, Password = Password usr,
                  user_CreatedAt = utc (st_now st)\<rparr>]\<rparr>))"

text \<open>The tail both reads share: Scan of the single row, and no row as user not found.\<close>

definition scan_user :: "user_query \<Rightarrow> user option \<Rightarrow> user result" where
  "scan_user q row =
     (let scanned = (case row of None \<Rightarrow> Inl ErrNoRows | Some usr \<Rightarrow>
                     case uq_scan q usr of Some e \<Rightarrow> Inl e | None \<Rightarrow> Inr usr)
      in case scanned of
           Inl e \<Rightarrow> if errors_Is e ErrNoRows then Inl (ErrorString ''user not found'') else Inl e
         | Inr usr \<Rightarrow> Inr usr)"

text \<open>A failed call gives the driver's error; it is turned too if it wraps the one of no row.\<close>

definition call_error :: "goerr \<Rightarrow> user result" where
  "call_error e = (if errors_Is e ErrNoRows then Inl (ErrorString ''user not found'') else Inl e)"

definition UserRepository_GetByID ::
  "driver \<Rightarrow> user_query \<Rightarrow> database \<Rightarrow> int \<Rightarrow> user result" where
  "UserRepository_GetByID drv q db i =
     (case uq_fault q of Some e \<Rightarrow> call_error e | None \<Rightarrow>
      if \<not> int4_ok i then call_error (drv_int4 drv) else scan_user q (user_at db i))"

definition UserRepository_GetByUsername ::
  "driver \<Rightarrow> user_query \<Rightarrow> database \<Rightarrow> string \<Rightarrow> user result" where
  "UserRepository_GetByUsername drv q db username =
     (case uq_fault q of Some e \<Rightarrow> call_error e | None \<Rightarrow>
      case text_error drv username of Some e \<Rightarrow> call_error e | None \<Rightarrow>
        scan_user q (user_named db username))"

text \<open>UpdatePassword: the error of RowsAffected is an argument; no row is user not found.\<close>

definition update_users :: "int \<Rightarrow> (user \<Rightarrow> user) \<Rightarrow> database \<Rightarrow> database" where
  "update_users i f db = db\<lparr>users_tbl := update_at user_ID i f (users_tbl db)\<rparr>"

definition UserRepository_UpdatePassword ::
  "driver \<Rightarrow> sql_stmt \<Rightarrow> goerr option \<Rightarrow> int \<Rightarrow> string \<Rightarrow> database \<Rightarrow> goerr option \<times> database" where
  "UserRepository_UpdatePassword drv st rows_err i hashedPassword db =
     (case st_fault st of Some e \<Rightarrow> (Some e, db) | None \<Rightarrow>
      case text_error drv hashedPassword of Some e \<Rightarrow> (Some e, db) | None \<Rightarrow>
      if \<not> int4_ok i then (Some (drv_int4 drv), db) else
      let db' = update_users i (\<lambda>usr. usr\<lparr>Password := hashedPassword\<rparr>) db;
          rowsAffected = length (filter (\<lambda>usr. user_ID usr = i) (users_tbl db))
      in case rows_err of Some e \<Rightarrow> (Some e, db')
         | None \<Rightarrow>
             if rowsAffected = 0 then (Some (ErrorString ''user not found''), db')
             else (None, db'))"

subsection \<open>The interface\<close>

record user_repo =
  ur_Create :: "sql_stmt \<Rightarrow> user \<Rightarrow> database \<Rightarrow> int result \<times> database"
  ur_GetByID :: "user_query \<Rightarrow> database \<Rightarrow> int \<Rightarrow> user result"
  ur_GetByUsername :: "user_query \<Rightarrow> database \<Rightarrow> string \<Rightarrow> user result"
  ur_UpdatePassword :: "sql_stmt \<Rightarrow> goerr option \<Rightarrow> int \<Rightarrow> string \<Rightarrow> database \<Rightarrow> goerr option \<times> database"

definition NewUserRepository :: "driver \<Rightarrow> user_repo" where
  "NewUserRepository drv =
     \<lparr>ur_Create = UserRepository_Create drv, ur_GetByID = UserRepository_GetByID drv,
      ur_GetByUsername = UserRepository_GetByUsername drv,
      ur_UpdatePassword = UserRepository_UpdatePassword drv\<rparr>"

lemmas user_repo_defs [op_defs] = UserRepository_Create_def UserRepository_GetByID_def
  UserRepository_GetByUsername_def UserRepository_UpdatePassword_def call_error_def scan_user_def

subsection \<open>Lemmas on the table\<close>

lemma user_at_SomeD: "user_at db i = Some x \<Longrightarrow> x \<in> set (users_tbl db) \<and> user_ID x = i"
  unfolding user_at_def by (rule row_at_SomeD)

lemma user_named_SomeD: "user_named db n = Some x \<Longrightarrow> x \<in> set (users_tbl db) \<and> Username x = n"
  unfolding user_named_def by (rule row_at_SomeD)

lemma user_named_mem: "wf_db db \<Longrightarrow> x \<in> set (users_tbl db) \<Longrightarrow> user_named db (Username x) = Some x"
  by (simp add: user_named_def wf_db_def row_at_in)

lemma user_at_mem: "wf_db db \<Longrightarrow> x \<in> set (users_tbl db) \<Longrightarrow> user_at db (user_ID x) = Some x"
  by (simp add: user_at_def wf_db_def row_at_in)

lemma scan_user_Inr: "scan_user q row = Inr x \<longleftrightarrow> row = Some x \<and> uq_scan q x = None"
  by (auto simp: scan_user_def split: option.splits)

lemma scan_user_None [simp]: "scan_user q None = Inl (ErrorString ''user not found'')"
  by (simp add: scan_user_def)

lemma call_error_Inr [simp]: "call_error e \<noteq> Inr x"
  by (simp add: call_error_def)

text \<open>What a new row looks like.\<close>

definition created_user :: "sql_stmt \<Rightarrow> user \<Rightarrow> user \<Rightarrow> bool" where
  "created_user st usr r \<longleftrightarrow> user_fits r \<and> user_ID r = st_gen_id st \<and> varchar 50 (Username usr) = Some (Username r)
     \<and> Password r = Password usr \<and> user_CreatedAt r = utc (st_now st)"

lemma update_users_tasks [frame_simps]: "tasks_tbl (update_users i f db) = tasks_tbl db"
  by (simp add: update_users_def)

lemma update_users_wf:
  assumes "\<And>x. user_ID (f x) = user_ID x" and "\<And>x. Username (f x) = Username x"
    and "\<And>x. user_fits x \<Longrightarrow> user_fits (f x)" and "wf_db db"
  shows "wf_db (update_users i f db)"
proof -
  have "map Username (update_at user_ID i f xs) = map Username xs" for xs
    using assms(2) by (simp add: update_at_def)
  moreover have "list_all user_fits (update_at user_ID i f (users_tbl db))"
    using assms(3,4) by (auto simp: wf_db_def update_at_def list_all_iff)
  ultimately show ?thesis using assms(1,4) by (simp add: wf_db_def update_users_def keys_update_at)
qed

lemma filter_user_empty: "filter (\<lambda>x. user_ID x = i) xs = [] \<longleftrightarrow> row_at user_ID xs i = None"
  by (induction xs) auto

lemma update_users_none:
  assumes "user_at db i = None"
  shows "update_users i f db = db"
proof -
  have "update_at user_ID i f (users_tbl db) = users_tbl db"
    using assms unfolding update_at_def user_at_def
    by (induction "users_tbl db" arbitrary: db) (auto simp: row_at_None_iff intro!: map_idI)
  then show ?thesis by (simp add: update_users_def)
qed

lemma user_at_update_users:
  assumes "\<And>x. user_ID (f x) = user_ID x"
  shows "user_at (update_users i f db) j =
    (if j = i then map_option f (user_at db i) else user_at db j)"
  using assms by (simp add: user_at_def update_users_def row_at_update)

subsection \<open>The laws of the interface\<close>

locale user_repository =
  fixes R :: user_repo
  assumes create_ok: "ur_Create R st usr db = (Inr i, db') \<Longrightarrow>
      i = st_gen_id st \<and> user_at db i = None \<and> tasks_tbl db' = tasks_tbl db \<and>
      (\<exists>r. created_user st usr r \<and> user_named db (Username r) = None \<and>
        users_tbl db' = users_tbl db @ [r])"
    and create_err: "ur_Create R st usr db = (Inl e, db') \<Longrightarrow> db' = db"
    and get_ok: "ur_GetByID R q db i = Inr x \<Longrightarrow> user_at db i = Some x"
    and name_ok: "ur_GetByUsername R q db n = Inr x \<Longrightarrow> user_named db n = Some x"
    and update_ok: "ur_UpdatePassword R st re i h db = (None, db') \<Longrightarrow>
      valid_utf8 h \<and> user_at db i \<noteq> None \<and> db' = update_users i (\<lambda>x. x\<lparr>Password := h\<rparr>) db"
begin

lemma create_view:
  assumes "ur_Create R st usr db = (Inr i, db')"
  shows "\<exists>r. created_user st usr r \<and> user_at db' = (user_at db)(i \<mapsto> r) \<and>
    user_named db' = (user_named db)(Username r \<mapsto> r) \<and> task_at db' = task_at db"
proof -
  from create_ok [OF assms] obtain r where r: "created_user st usr r" "user_ID r = i"
    "user_at db i = None" "user_named db (Username r) = None" "users_tbl db' = users_tbl db @ [r]"
    "tasks_tbl db' = tasks_tbl db"
    by (auto simp: created_user_def)
  then have "user_at db' = (user_at db)(i \<mapsto> r) \<and> user_named db' = (user_named db)(Username r \<mapsto> r)
      \<and> task_at db' = task_at db"
    by (auto simp: user_at_def user_named_def task_at_def row_at_append fun_eq_iff split: option.splits)
  with r(1) show ?thesis by blast
qed

lemma create_wf: "wf_db db \<Longrightarrow> ur_Create R st usr db = (x, db') \<Longrightarrow> wf_db db'"
  using create_ok [of st usr db _ db'] create_err [of st usr db _ db']
  by (cases x) (fastforce simp: wf_db_def user_at_def user_named_def row_at_None_iff created_user_def)+

end

interpretation user_repo: user_repository "NewUserRepository drv" for drv
proof (unfold_locales, goal_cases)
  case (1 st usr db i db')
  then show ?case
    by (auto simp: NewUserRepository_def UserRepository_Create_def created_user_def user_fits_def
        text_error_None varchar_bound dest: varchar_valid split: option.splits if_splits)
next
  case (2 st usr db e db')
  then show ?case
    by (auto simp: NewUserRepository_def UserRepository_Create_def split: option.splits if_splits)
next
  case (3 q db i x)
  then show ?case
    by (auto simp: NewUserRepository_def UserRepository_GetByID_def scan_user_Inr
        split: option.splits if_splits)
next
  case (4 q db n x)
  then show ?case
    by (auto simp: NewUserRepository_def UserRepository_GetByUsername_def scan_user_Inr
        split: option.splits)
next
  case (5 st re i h db db')
  then show ?case
    by (auto simp: NewUserRepository_def UserRepository_UpdatePassword_def Let_def user_at_def
        filter_user_empty text_error_None split: option.splits if_splits)
qed

text \<open>UpdatePassword that reports user not found has changed nothing.\<close>

lemma UpdatePassword_missing:
  assumes "user_at db i = None" and "UserRepository_UpdatePassword drv st re i h db = (r, db')"
  shows "r \<noteq> None \<and> db' = db"
  using assms update_users_none [OF assms(1)]
  by (cases r) (auto simp: UserRepository_UpdatePassword_def Let_def user_at_def filter_user_empty
      split: option.splits if_splits)

end
