(* ===== verification/Auth.thy ===== *)
theory Auth
  imports Gin
begin

section \<open>Authentication: internal/auth and internal/middleware/jwt.go\<close>

text \<open>
  Tokens and passwords over the two libraries the code calls, golang-jwt and bcrypt, which
  are the parameters \<open>jwt_lib\<close> and \<open>bcrypt_lib\<close>; what their documentation promises, as far
  as the code relies on it, is \<open>jwt_laws\<close> and \<open>bcrypt_laws\<close>. Times are nanoseconds, and
  every operation takes the times its calls of time.Now give.
\<close>

subsection \<open>Tokens: internal/auth/jwt.go\<close>

type_synonym TokenType = string

definition AccessToken :: TokenType where
  "AccessToken = ''access''"

definition RefreshToken :: TokenType where
  "RefreshToken = ''refresh''"

text \<open>Claims: the two fields of the program and the three registered claims it sets.\<close>

record Claims =
  claims_UserID :: int
  claims_Type :: TokenType
  ExpiresAt :: "int option"
  IssuedAt :: "int option"
  NotBefore :: "int option"

record TokenPair =
  pair_AccessToken :: string
  pair_RefreshToken :: string
  ExpiresIn :: int

text \<open>
  The signing method of a token, as far as the program tells methods apart: those of HMAC
  (by their name), and all others. A parsed token carries its claims if they have the type
  Claims, and the flag Valid.
\<close>

datatype signing_method = HMAC string | Other_method string

record token =
  tok_Claims :: "Claims option"
  tok_Valid :: bool

text \<open>
  The calls of the library: NewNumericDate, SignedString of a token with a method and
  claims, and ParseWithClaims at the time of the call with a key function.
  \<open>jwt_names\<close> and \<open>jwt_verifies\<close> are no calls of the program, but what the laws speak of: the
  signing method in the header of a text that has the form of a token, and whether its signature
  checks under a method and a key, and for which claims.
\<close>

record jwt_lib =
  jwt_NewNumericDate :: "int \<Rightarrow> int"
  jwt_SignedString :: "signing_method \<Rightarrow> Claims \<Rightarrow> string \<Rightarrow> string result"
  jwt_ParseWithClaims :: "int \<Rightarrow> string \<Rightarrow> (signing_method \<Rightarrow> string result) \<Rightarrow> token result"
  jwt_names :: "string \<Rightarrow> signing_method option"
  jwt_verifies :: "string \<Rightarrow> signing_method \<Rightarrow> string \<Rightarrow> Claims \<Rightarrow> bool"

definition second :: int where
  "second = 1000000000"

text \<open>
  The laws: dates are cut to the second; what is signed verifies; a text verifies only under the
  method its header names; a text is accepted only if it verifies under that method and the key
  the key function gives for it, is not expired and not early; a text that verifies that way is
  accepted in its time, and is refused as expired after it; when the key function has no key for
  the method the header names, the parser reports its error, which is no expiry unless the
  error of the key function is one.
\<close>

definition in_time :: "Claims \<Rightarrow> int \<Rightarrow> bool" where
  "in_time c now \<longleftrightarrow> (case ExpiresAt c of None \<Rightarrow> True | Some e \<Rightarrow> now < e) \<and>
     (case NotBefore c of None \<Rightarrow> True | Some b \<Rightarrow> b \<le> now)"

definition expired :: "Claims \<Rightarrow> int \<Rightarrow> bool" where
  "expired c now \<longleftrightarrow> (case ExpiresAt c of None \<Rightarrow> False | Some e \<Rightarrow> e \<le> now)"

definition jwt_laws :: "jwt_lib \<Rightarrow> bool" where
  "jwt_laws L \<longleftrightarrow>
     (\<forall>t. jwt_NewNumericDate L t = t - t mod second) \<and>
     (\<forall>m c k s. jwt_SignedString L m c k = Inr s \<longrightarrow> jwt_verifies L s m k c) \<and>
     (\<forall>s m k c. jwt_verifies L s m k c \<longrightarrow> jwt_names L s = Some m) \<and>
     (\<forall>now s keyf m e. jwt_names L s = Some m \<longrightarrow> keyf m = Inl e \<longrightarrow>
        (\<exists>e'. jwt_ParseWithClaims L now s keyf = Inl e' \<and>
          (errors_Is e' ErrTokenExpired \<longrightarrow> errors_Is e ErrTokenExpired))) \<and>
     (\<forall>now s keyf tok. jwt_ParseWithClaims L now s keyf = Inr tok \<longrightarrow>
        (\<exists>m k c. keyf m = Inr k \<and> jwt_verifies L s m k c \<and> in_time c now \<and>
           tok = \<lparr>tok_Claims = Some c, tok_Valid = True\<rparr>)) \<and>
     (\<forall>now s keyf m k c. keyf m = Inr k \<longrightarrow> jwt_verifies L s m k c \<longrightarrow>
        (in_time c now \<longrightarrow>
           jwt_ParseWithClaims L now s keyf = Inr \<lparr>tok_Claims = Some c, tok_Valid = True\<rparr>) \<and>
        (expired c now \<longrightarrow>
           (\<exists>e. jwt_ParseWithClaims L now s keyf = Inl e \<and> errors_Is e ErrTokenExpired)))"

definition generateToken ::
  "jwt_lib \<Rightarrow> int \<Rightarrow> int \<Rightarrow> TokenType \<Rightarrow> int \<Rightarrow> string \<Rightarrow> string result" where
  "generateToken L now userID tokenType duration secret =
     (let claims = \<lparr>claims_UserID = userID, claims_Type = tokenType,
                    ExpiresAt = Some (jwt_NewNumericDate L (now + duration)),
                    IssuedAt = Some (jwt_NewNumericDate L now),
                    NotBefore = Some (jwt_NewNumericDate L now)\<rparr>
      in jwt_SignedString L (HMAC ''HS256'') claims secret)"

text \<open>GenerateTokenPair: 15 minutes and 7 days; each token reads the clock on its own.\<close>

definition GenerateTokenPair ::
  "jwt_lib \<Rightarrow> int \<Rightarrow> int \<Rightarrow> int \<Rightarrow> string \<Rightarrow> TokenPair result" where
  "GenerateTokenPair L now1 now2 userID secret =
     (case generateToken L now1 userID AccessToken (15 * 60 * second) secret of
        Inl e \<Rightarrow> Inl e
      | Inr accessToken \<Rightarrow>
          (case generateToken L now2 userID RefreshToken (7 * 24 * 3600 * second) secret of
             Inl e \<Rightarrow> Inl e
           | Inr refreshToken \<Rightarrow>
               Inr \<lparr>pair_AccessToken = accessToken, pair_RefreshToken = refreshToken,
                    ExpiresIn = (15 * 60 * second) div second\<rparr>))"

text \<open>The key function of ValidateToken.\<close>

definition hmac_key :: "string \<Rightarrow> signing_method \<Rightarrow> string result" where
  "hmac_key secret m = (case m of HMAC _ \<Rightarrow> Inr secret | Other_method _ \<Rightarrow> Inl ErrInvalidToken)"

definition ValidateToken :: "jwt_lib \<Rightarrow> int \<Rightarrow> string \<Rightarrow> string \<Rightarrow> Claims result" where
  "ValidateToken L now tokenString secret =
     (case jwt_ParseWithClaims L now tokenString (hmac_key secret) of
        Inl err \<Rightarrow> if errors_Is err ErrTokenExpired then Inl ErrExpiredToken else Inl ErrInvalidToken
      | Inr tok \<Rightarrow>
          (case tok_Claims tok of
             None \<Rightarrow> Inl ErrInvalidToken
           | Some claims \<Rightarrow> if \<not> tok_Valid tok then Inl ErrInvalidToken else Inr claims))"

definition RefreshTokenPair ::
  "jwt_lib \<Rightarrow> int \<Rightarrow> int \<Rightarrow> int \<Rightarrow> string \<Rightarrow> string \<Rightarrow> TokenPair result" where
  "RefreshTokenPair L now now1 now2 refreshTokenString secret =
     (case ValidateToken L now refreshTokenString secret of
        Inl err \<Rightarrow> Inl (Wrapped ''invalid refresh token: '' err)
      | Inr claims \<Rightarrow>
          if claims_Type claims \<noteq> RefreshToken then Inl (ErrorString ''not a refresh token'')
          else GenerateTokenPair L now1 now2 (claims_UserID claims) secret)"

subsection \<open>Passwords: internal/auth/password.go\<close>

record bcrypt_lib =
  bcrypt_GenerateFromPassword :: "string \<Rightarrow> int \<Rightarrow> string result"
  bcrypt_CompareHashAndPassword :: "string \<Rightarrow> string \<Rightarrow> goerr option"

definition bcrypt_laws :: "bcrypt_lib \<Rightarrow> bool" where
  "bcrypt_laws B \<longleftrightarrow> (\<forall>p cost h. bcrypt_GenerateFromPassword B p cost = Inr h \<longrightarrow>
     bcrypt_CompareHashAndPassword B h p = None)"

definition DefaultCost :: int where
  "DefaultCost = 10"

definition GeneratePasswordHash :: "bcrypt_lib \<Rightarrow> string \<Rightarrow> string result" where
  "GeneratePasswordHash B password =
     (case bcrypt_GenerateFromPassword B password DefaultCost of
        Inl e \<Rightarrow> Inl e
      | Inr hashedPassword \<Rightarrow> Inr hashedPassword)"

definition ComparePasswordHash :: "bcrypt_lib \<Rightarrow> string \<Rightarrow> string \<Rightarrow> goerr option" where
  "ComparePasswordHash B hashedPassword password =
     bcrypt_CompareHashAndPassword B hashedPassword password"

subsection \<open>AuthMiddleware: internal/middleware/jwt.go\<close>

definition AuthMiddleware :: "jwt_lib \<Rightarrow> int \<Rightarrow> string \<Rightarrow> 'w handler" where
  "AuthMiddleware L now secret c w =
     (let authHeader = ctx_header c ''Authorization'' in
      if authHeader = [] then (error_json 401 ''Authorization header required'', w)
      else
        let parts = strings_Split CHR '' '' authHeader in
        if length parts \<noteq> 2 \<or> parts ! 0 \<noteq> ''Bearer''
        then (error_json 401 ''Invalid authorization format. Use: Bearer <token>'', w)
        else
          case ValidateToken L now (parts ! 1) secret of
            Inl err \<Rightarrow>
              if errors_Is err ErrExpiredToken then (error_json 401 ''Token expired'', w)
              else (error_json 401 ''Invalid token'', w)
          | Inr claims \<Rightarrow>
              if claims_Type claims \<noteq> AccessToken then (error_json 401 ''Invalid token type'', w)
              else (Next (set_key UserIDKey (AnyInt (claims_UserID claims)) c), w))"

subsection \<open>Tokens the program accepts\<close>

lemma AccessToken_neq_RefreshToken [simp]: "AccessToken \<noteq> RefreshToken" "RefreshToken \<noteq> AccessToken"
  by (simp_all add: AccessToken_def RefreshToken_def)

lemma second_pos [simp]: "0 < second"
  by (simp add: second_def)

lemma jwt_lawsD:
  assumes "jwt_laws L"
  shows jwt_date: "jwt_NewNumericDate L t = t - t mod second"
    and jwt_signed: "jwt_SignedString L m c k = Inr s \<Longrightarrow> jwt_verifies L s m k c"
    and jwt_named: "jwt_verifies L s m k c \<Longrightarrow> jwt_names L s = Some m"
    and jwt_no_key: "jwt_names L s = Some m \<Longrightarrow> keyf m = Inl e \<Longrightarrow>
      \<exists>e'. jwt_ParseWithClaims L now s keyf = Inl e' \<and>
        (errors_Is e' ErrTokenExpired \<longrightarrow> errors_Is e ErrTokenExpired)"
    and jwt_accepted: "jwt_ParseWithClaims L now s keyf = Inr tok \<Longrightarrow>
      \<exists>m k c. keyf m = Inr k \<and> jwt_verifies L s m k c \<and> in_time c now \<and>
        tok = \<lparr>tok_Claims = Some c, tok_Valid = True\<rparr>"
    and jwt_accepts: "keyf m = Inr k \<Longrightarrow> jwt_verifies L s m k c \<Longrightarrow> in_time c now \<Longrightarrow>
      jwt_ParseWithClaims L now s keyf = Inr \<lparr>tok_Claims = Some c, tok_Valid = True\<rparr>"
    and jwt_expires: "keyf m = Inr k \<Longrightarrow> jwt_verifies L s m k c \<Longrightarrow> expired c now \<Longrightarrow>
      \<exists>e. jwt_ParseWithClaims L now s keyf = Inl e \<and> errors_Is e ErrTokenExpired"
proof -
  note laws = assms [unfolded jwt_laws_def]
  note laws2 = laws [THEN conjunct2] and laws3 = laws [THEN conjunct2, THEN conjunct2]
  note laws4 = laws3 [THEN conjunct2] and laws5 = laws3 [THEN conjunct2, THEN conjunct2]
  show "jwt_NewNumericDate L t = t - t mod second"
    using laws [THEN conjunct1] by (rule allE)
  show "jwt_SignedString L m c k = Inr s \<Longrightarrow> jwt_verifies L s m k c"
    using laws2 [THEN conjunct1] by blast
  show "jwt_verifies L s m k c \<Longrightarrow> jwt_names L s = Some m"
    using laws3 [THEN conjunct1] by blast
  show "jwt_names L s = Some m \<Longrightarrow> keyf m = Inl e \<Longrightarrow>
      \<exists>e'. jwt_ParseWithClaims L now s keyf = Inl e' \<and>
        (errors_Is e' ErrTokenExpired \<longrightarrow> errors_Is e ErrTokenExpired)"
    using laws4 [THEN conjunct1] by blast
  show "jwt_ParseWithClaims L now s keyf = Inr tok \<Longrightarrow>
      \<exists>m k c. keyf m = Inr k \<and> jwt_verifies L s m k c \<and> in_time c now \<and>
        tok = \<lparr>tok_Claims = Some c, tok_Valid = True\<rparr>"
    using laws5 [THEN conjunct1] by blast
  show "keyf m = Inr k \<Longrightarrow> jwt_verifies L s m k c \<Longrightarrow> in_time c now \<Longrightarrow>
      jwt_ParseWithClaims L now s keyf = Inr \<lparr>tok_Claims = Some c, tok_Valid = True\<rparr>"
    "keyf m = Inr k \<Longrightarrow> jwt_verifies L s m k c \<Longrightarrow> expired c now \<Longrightarrow>
      \<exists>e. jwt_ParseWithClaims L now s keyf = Inl e \<and> errors_Is e ErrTokenExpired"
    using laws5 [THEN conjunct2] by blast+
qed

text \<open>Only an HMAC signature under the secret is accepted, in its time.\<close>

lemma ValidateToken_sound:
  assumes "jwt_laws L" and "ValidateToken L now s secret = Inr c"
  shows "\<exists>alg. jwt_verifies L s (HMAC alg) secret c \<and> in_time c now"
proof -
  from assms(2) obtain tok where tok: "jwt_ParseWithClaims L now s (hmac_key secret) = Inr tok"
    "tok_Claims tok = Some c"
    by (auto simp: ValidateToken_def split: sum.splits option.splits if_splits)
  from jwt_accepted [OF assms(1) tok(1)] obtain m k where
    m: "hmac_key secret m = Inr k" "jwt_verifies L s m k c" "in_time c now"
    using tok(2) by fastforce
  then show ?thesis by (cases m) (auto simp: hmac_key_def)
qed

lemma ValidateToken_errors: "ValidateToken L now s secret = Inl e \<Longrightarrow> e = ErrExpiredToken \<or> e = ErrInvalidToken"
  by (auto simp: ValidateToken_def split: sum.splits option.splits if_splits)

lemma ValidateToken_verified:
  assumes laws: "jwt_laws L" and ver: "jwt_verifies L s (HMAC alg) secret c" and time: "in_time c now"
  shows "ValidateToken L now s secret = Inr c"
proof -
  have key: "hmac_key secret (HMAC alg) = Inr secret" by (simp add: hmac_key_def)
  from jwt_accepts [of L "hmac_key secret", OF laws key ver time] show ?thesis
    by (simp add: ValidateToken_def)
qed

lemma ValidateToken_other_method:
  assumes laws: "jwt_laws L" and named: "jwt_names L s = Some (Other_method alg)"
  shows "ValidateToken L now s secret = Inl ErrInvalidToken"
proof -
  have "hmac_key secret (Other_method alg) = Inl ErrInvalidToken" by (simp add: hmac_key_def)
  from jwt_no_key [of L s _ "hmac_key secret" _ now, OF laws named this] show ?thesis
    by (auto simp: ValidateToken_def)
qed

text \<open>A signed token, at every time.\<close>

lemma ValidateToken_signed:
  assumes laws: "jwt_laws L" and sign: "jwt_SignedString L (HMAC alg) c secret = Inr s"
  shows "in_time c now \<Longrightarrow> ValidateToken L now s secret = Inr c"
    and "expired c now \<Longrightarrow> ValidateToken L now s secret = Inl ErrExpiredToken"
proof -
  note ver = jwt_signed [OF laws sign]
  have key: "hmac_key secret (HMAC alg) = Inr secret" by (simp add: hmac_key_def)
  show "in_time c now \<Longrightarrow> ValidateToken L now s secret = Inr c"
    using jwt_accepts [of L "hmac_key secret", OF laws key ver] by (simp add: ValidateToken_def)
  show "expired c now \<Longrightarrow> ValidateToken L now s secret = Inl ErrExpiredToken"
    using jwt_expires [of L "hmac_key secret", OF laws key ver] by (fastforce simp: ValidateToken_def)
qed

definition token_claims :: "int \<Rightarrow> TokenType \<Rightarrow> int \<Rightarrow> int \<Rightarrow> Claims" where
  "token_claims userID ty now duration =
     \<lparr>claims_UserID = userID, claims_Type = ty,
      ExpiresAt = Some (now + duration - (now + duration) mod second),
      IssuedAt = Some (now - now mod second), NotBefore = Some (now - now mod second)\<rparr>"

lemma generateToken_eq:
  "jwt_laws L \<Longrightarrow> generateToken L now u ty d secret =
     jwt_SignedString L (HMAC ''HS256'') (token_claims u ty now d) secret"
  by (simp add: generateToken_def token_claims_def jwt_date)

text \<open>A generated token is accepted with its claims until it expires, and called expired from then on.\<close>

lemma generateToken_life:
  assumes "jwt_laws L" and "generateToken L t0 u ty d secret = Inr s" and "t0 \<le> t"
  shows "ValidateToken L t s secret =
    (if t < t0 + d - (t0 + d) mod second then Inr (token_claims u ty t0 d) else Inl ErrExpiredToken)"
proof -
  have sign: "jwt_SignedString L (HMAC ''HS256'') (token_claims u ty t0 d) secret = Inr s"
    using assms(1,2) by (simp add: generateToken_eq)
  have "0 \<le> t0 mod second" by (simp add: second_def)
  with assms(3) have "t0 - t0 mod second \<le> t" by linarith
  with ValidateToken_signed [OF assms(1) sign, of t] show ?thesis
    by (simp add: in_time_def expired_def token_claims_def)
qed

lemma GenerateTokenPair_Inr:
  assumes "GenerateTokenPair L now1 now2 u secret = Inr p"
  shows "generateToken L now1 u AccessToken (15 * 60 * second) secret = Inr (pair_AccessToken p)"
    "generateToken L now2 u RefreshToken (7 * 24 * 3600 * second) secret = Inr (pair_RefreshToken p)"
    "ExpiresIn p = 900"
  using assms by (auto simp: GenerateTokenPair_def second_def split: sum.splits)

subsection \<open>What the middleware lets through\<close>

lemma strings_Split_two:
  "length (strings_Split c s) = 2 \<and> strings_Split c s ! 0 = a \<longleftrightarrow>
   (\<exists>b. s = a @ c # b \<and> c \<notin> set a \<and> c \<notin> set b)"
proof -
  have "length (strings_Split c s) = 2 \<and> strings_Split c s ! 0 = a \<longleftrightarrow>
      (\<exists>b. strings_Split c s = [a, b])"
    by (cases "strings_Split c s" rule: list.exhaust [case_product list.exhaust])
      (auto simp: numeral_2_eq_2 length_Suc_conv)
  then show ?thesis by (simp add: strings_Split_pair)
qed

definition bearer :: "string \<Rightarrow> string" where
  "bearer tok = ''Bearer '' @ tok"

text \<open>The middleware calls Next exactly for a valid access token in the Bearer form.\<close>

lemma AuthMiddleware_next:
  "fst (AuthMiddleware L now secret c w) = Next c' \<longleftrightarrow>
   (\<exists>tok claims. ctx_header c ''Authorization'' = bearer tok \<and> CHR '' '' \<notin> set tok \<and>
      ValidateToken L now tok secret = Inr claims \<and> claims_Type claims = AccessToken \<and>
      c' = set_key UserIDKey (AnyInt (claims_UserID claims)) c)"
proof (cases "\<exists>tok. ctx_header c ''Authorization'' = bearer tok \<and> CHR '' '' \<notin> set tok")
  case True
  then obtain tok where h: "ctx_header c ''Authorization'' = bearer tok" "CHR '' '' \<notin> set tok"
    by blast
  have "strings_Split CHR '' '' (bearer tok) = [''Bearer'', tok]"
    using h(2) by (simp add: bearer_def strings_Split_no_sep)
  with h show ?thesis
    by (auto simp: AuthMiddleware_def Let_def bearer_def split: sum.splits)
next
  case False
  then have "\<not> (length (strings_Split CHR '' '' (ctx_header c ''Authorization'')) = 2 \<and>
      strings_Split CHR '' '' (ctx_header c ''Authorization'') ! 0 = ''Bearer'')"
    unfolding strings_Split_two by (auto simp: bearer_def)
  then have "fst (AuthMiddleware L now secret c w) \<noteq> Next c'"
    by (auto simp: AuthMiddleware_def Let_def)
  with False show ?thesis by blast
qed

lemma AuthMiddleware_state: "snd (AuthMiddleware L now secret c w) = w"
  by (simp add: AuthMiddleware_def Let_def split: sum.split)

lemma AuthMiddleware_response:
  "(\<exists>c'. fst (AuthMiddleware L now secret c w) = Next c') \<or>
   status_of (fst (AuthMiddleware L now secret c w)) = Some 401"
  by (simp add: AuthMiddleware_def Let_def split: sum.split)

subsection \<open>Libraries that satisfy the laws\<close>

text \<open>
  For examples: tokens as texts that name their claims in the clear (no cryptography), here
  for one table of signed claims, and a bcrypt whose hash is the password with a mark.
\<close>

definition table_jwt :: "(string \<times> signing_method \<times> string \<times> Claims) list \<Rightarrow> jwt_lib" where
  "table_jwt table =
     \<lparr>jwt_NewNumericDate = (\<lambda>t. t - t mod second),
      jwt_SignedString = (\<lambda>m c k.
        case find (\<lambda>(s, m', k', c'). m' = m \<and> k' = k \<and> c' = c) table of
          None \<Rightarrow> Inl (ErrorString ''no entry'') | Some (s, _) \<Rightarrow> Inr s),
      jwt_ParseWithClaims = (\<lambda>now s keyf.
        case find (\<lambda>(s', _). s' = s) table of
          None \<Rightarrow> Inl (LibError ''token is malformed'' [])
        | Some (_, m, k, c) \<Rightarrow>
            (case keyf m of
               Inl e \<Rightarrow> Inl (LibError ''token is unverifiable'' [])
             | Inr k' \<Rightarrow>
                 if k' \<noteq> k then Inl (LibError ''token signature is invalid'' [])
                 else if in_time c now then Inr \<lparr>tok_Claims = Some c, tok_Valid = True\<rparr>
                 else if expired c now then Inl (LibError ''token has invalid claims'' [ErrTokenExpired])
                 else Inl (LibError ''token has invalid claims'' []))),
      jwt_names = (\<lambda>s. map_option (\<lambda>(_, m, _). m) (find (\<lambda>(s', _). s' = s) table)),
      jwt_verifies = (\<lambda>s m k c. find (\<lambda>(s', _). s' = s) table = Some (s, m, k, c))\<rparr>"

lemma find_entry: "find (\<lambda>(s', _). s' = s) table = Some (s2, x) \<Longrightarrow> s2 = s"
  by (auto simp: find_Some_iff)

lemma table_jwt_laws:
  assumes "distinct (map fst table)"
  shows "jwt_laws (table_jwt table)"
proof -
  have mem: "find (\<lambda>(s', _). s' = s) table = Some (s, m, k, c)" if "(s, m, k, c) \<in> set table" for s m k c
    using that assms by (induction table) (auto simp: image_iff rev_image_eqI)
  show ?thesis
    unfolding jwt_laws_def
  proof (intro conjI allI impI, goal_cases)
    case (2 m c k s)
    then have "(s, m, k, c) \<in> set table"
      by (auto simp: table_jwt_def find_Some_iff in_set_conv_nth split: option.splits)
    then show ?case by (simp add: table_jwt_def mem)
  next
    case (5 now s keyf tok)
    then show ?case
      by (fastforce simp: table_jwt_def dest: find_entry split: option.splits sum.splits if_splits)
  qed (auto simp: table_jwt_def in_time_def expired_def split: option.splits)
qed

definition mark_bcrypt :: bcrypt_lib where
  "mark_bcrypt = \<lparr>bcrypt_GenerateFromPassword = (\<lambda>p cost. Inr (''$2a$10$'' @ p)),
     bcrypt_CompareHashAndPassword = (\<lambda>h p. if h = ''$2a$10$'' @ p then None
        else Some (LibError ''crypto/bcrypt: hashedPassword is not the hash of the given password'' []))\<rparr>"

lemma mark_bcrypt_laws: "bcrypt_laws mark_bcrypt"
  by (simp add: bcrypt_laws_def mark_bcrypt_def)

end
