(* ===== verification/User_Service.thy ===== *)
theory User_Service
  imports Tx User_Repository Auth
begin

section \<open>User service: internal/user/service.go\<close>

text \<open>
  UserService over a repository, bcrypt and the token library. CreateUser reads the table
  and inserts later, in a transaction of its own: what other sessions commit in between is
  the field \<open>cu_between\<close> of its parameters.
\<close>

record create_user_env =
  cu_query :: user_query
  cu_between :: "database \<Rightarrow> database"
  cu_tx :: tx_env
  cu_stmt :: sql_stmt

record login_env =
  li_query :: user_query
  li_now1 :: int
  li_now2 :: int

subsection \<open>The operations\<close>

definition new_user :: "string \<Rightarrow> string \<Rightarrow> user" where
  "new_user username hashedPassword =
     \<lparr>user_ID = 0, Username = username, Password = hashedPassword, user_CreatedAt = zero_time\<rparr>"

text \<open>
  CreateUser: the look-up, the hash, then Begin, Create and Commit; the deferred Rollback
  undoes an insert that was not committed, and its own error is only logged.
\<close>

definition UserService_CreateUser ::
  "user_repo \<Rightarrow> bcrypt_lib \<Rightarrow> create_user_env \<Rightarrow> string \<Rightarrow> string \<Rightarrow> database \<Rightarrow> int result \<times> database" where
  "UserService_CreateUser R B env username password db0 =
     (case ur_GetByUsername R (cu_query env) db0 username of
        Inr userData \<Rightarrow> (Inl (ErrorString ''username already exists''), db0)
      | Inl _ \<Rightarrow>
      case GeneratePasswordHash B password of
        Inl _ \<Rightarrow> (Inl (ErrorString ''failed to hash password''), db0)
      | Inr hashedPassword \<Rightarrow>
      let db = cu_between env db0 in
      case tx_begin_err (cu_tx env) of
        Some e \<Rightarrow> (Inl e, db)
      | None \<Rightarrow>
          (case ur_Create R (cu_stmt env) (new_user username hashedPassword) db of
             (Inl e, db') \<Rightarrow> (Inl e, db)
           | (Inr i, db') \<Rightarrow>
               (case tx_commit (cu_tx env) of
                  Commit_ok \<Rightarrow> (Inr i, db')
                | Commit_lost e \<Rightarrow> (Inl e, db)
                | Commit_unknown e \<Rightarrow> (Inl e, db'))))"

definition UserService_LoginUser ::
  "user_repo \<Rightarrow> bcrypt_lib \<Rightarrow> jwt_lib \<Rightarrow> login_env \<Rightarrow> string \<Rightarrow> string \<Rightarrow> string \<Rightarrow> database \<Rightarrow>
     TokenPair result" where
  "UserService_LoginUser R B L env username password jwtSecret db =
     (case ur_GetByUsername R (li_query env) db username of
        Inl _ \<Rightarrow> Inl (ErrorString ''invalid credentials'')
      | Inr usr \<Rightarrow>
      case ComparePasswordHash B (Password usr) password of
        Some _ \<Rightarrow> Inl (ErrorString ''invalid credentials'')
      | None \<Rightarrow>
      case GenerateTokenPair L (li_now1 env) (li_now2 env) (user_ID usr) jwtSecret of
        Inl e \<Rightarrow> Inl e
      | Inr tokens \<Rightarrow> Inr tokens)"

definition UserService_GetUserByID :: "user_repo \<Rightarrow> user_query \<Rightarrow> int \<Rightarrow> database \<Rightarrow> user result" where
  "UserService_GetUserByID R q i db = ur_GetByID R q db i"

definition UserService_GetUserByUsername ::
  "user_repo \<Rightarrow> user_query \<Rightarrow> string \<Rightarrow> database \<Rightarrow> user result" where
  "UserService_GetUserByUsername R q username db = ur_GetByUsername R q db username"

subsection \<open>The interface UserServiceInterface\<close>

record 'w user_service =
  us_CreateUser :: "string \<Rightarrow> string \<Rightarrow> 'w \<Rightarrow> int result \<times> 'w"
  us_LoginUser :: "string \<Rightarrow> string \<Rightarrow> string \<Rightarrow> 'w \<Rightarrow> TokenPair result"
  us_GetUserByID :: "int \<Rightarrow> 'w \<Rightarrow> user result"
  us_GetUserByUsername :: "string \<Rightarrow> 'w \<Rightarrow> user result"

definition NewUserService ::
  "user_repo \<Rightarrow> bcrypt_lib \<Rightarrow> jwt_lib \<Rightarrow> create_user_env \<Rightarrow> login_env \<Rightarrow> database user_service" where
  "NewUserService R B L cenv lenv =
     \<lparr>us_CreateUser = UserService_CreateUser R B cenv,
      us_LoginUser = UserService_LoginUser R B L lenv,
      us_GetUserByID = UserService_GetUserByID R (li_query lenv),
      us_GetUserByUsername = UserService_GetUserByUsername R (li_query lenv)\<rparr>"

subsection \<open>What CreateUser does\<close>

lemma CreateUser_success:
  assumes "UserService_CreateUser R B env n p db0 = (Inr i, db')"
  shows "\<exists>h e. bcrypt_GenerateFromPassword B p DefaultCost = Inr h \<and>
    ur_GetByUsername R (cu_query env) db0 n = Inl e \<and>
    ur_Create R (cu_stmt env) (new_user n h) (cu_between env db0) = (Inr i, db')"
  using assms
  by (auto simp: UserService_CreateUser_def GeneratePasswordHash_def Let_def
      split: sum.splits option.splits prod.splits commit_outcome.splits)

text \<open>The table afterwards: as before, as the other sessions left it, or with the one new row.\<close>

lemma CreateUser_cases:
  assumes "UserService_CreateUser R B env n p db0 = (x, db')"
  shows "db' = db0 \<or> db' = cu_between env db0 \<or>
    (\<exists>h i. bcrypt_GenerateFromPassword B p DefaultCost = Inr h \<and>
      ur_Create R (cu_stmt env) (new_user n h) (cu_between env db0) = (Inr i, db'))"
  using assms
  by (auto simp: UserService_CreateUser_def GeneratePasswordHash_def Let_def
      split: sum.splits option.splits prod.splits commit_outcome.splits)

subsection \<open>The contract of the service\<close>

text \<open>
  Other sessions may do what the program's own transactions do: they keep the keys distinct
  and every account under its name and id.
\<close>

definition keeps_accounts :: "database \<Rightarrow> database \<Rightarrow> bool" where
  "keeps_accounts db db' \<longleftrightarrow>
     (\<forall>n r. user_named db n = Some r \<longrightarrow> (\<exists>r'. user_named db' n = Some r' \<and> user_ID r' = user_ID r))"

definition others_ok :: "create_user_env \<Rightarrow> bool" where
  "others_ok env \<longleftrightarrow> (\<forall>db. wf_db db \<longrightarrow> wf_db (cu_between env db) \<and> keeps_accounts db (cu_between env db))"

definition user_inv :: "bcrypt_lib \<Rightarrow> create_user_env \<Rightarrow> database \<Rightarrow> bool" where
  "user_inv B env db \<longleftrightarrow> bcrypt_laws B \<and> others_ok env \<and> wf_db db"

text \<open>The pair a log-in of a user may issue.\<close>

definition issued :: "jwt_lib \<Rightarrow> string \<Rightarrow> int \<Rightarrow> TokenPair \<Rightarrow> bool" where
  "issued L secret userID tokens \<longleftrightarrow> (\<exists>now1 now2. GenerateTokenPair L now1 now2 userID secret = Inr tokens)"

text \<open>
  An account that is created is new, gets the id that is reported, and its password checks;
  nobody logs in but with a password that checks against the account of that name; and no
  account changes its owner or disappears.
\<close>

locale user_service_contract =
  fixes S :: "'w user_service" and I :: "'w \<Rightarrow> bool" and account :: "'w \<Rightarrow> string \<Rightarrow> user option"
    and checks :: "string \<Rightarrow> string \<Rightarrow> bool" and issues :: "string \<Rightarrow> int \<Rightarrow> TokenPair \<Rightarrow> bool"
  assumes create_inv: "I w \<Longrightarrow> us_CreateUser S n p w = (x, w') \<Longrightarrow> I w' \<and>
      (\<forall>m r. account w m = Some r \<longrightarrow> (\<exists>r'. account w' m = Some r' \<and> user_ID r' = user_ID r))"
    and create_ok: "I w \<Longrightarrow> us_CreateUser S n p w = (Inr i, w') \<Longrightarrow>
      \<exists>m r. varchar 50 n = Some m \<and> account w m = None \<and> account w' m = Some r \<and>
        user_ID r = i \<and> checks (Password r) p"
    and login_ok: "us_LoginUser S n p s w = Inr tokens \<Longrightarrow>
      \<exists>r. account w n = Some r \<and> checks (Password r) p \<and> issues s (user_ID r) tokens"

lemma keeps_accounts_refl [simp]: "keeps_accounts db db"
  by (simp add: keeps_accounts_def)

lemma keeps_accounts_create:
  assumes "keeps_accounts db0 db" and "ur_Create (NewUserRepository drv) st usr db = (Inr i, db')"
  shows "keeps_accounts db0 db'"
proof -
  from user_repo.create_ok [OF assms(2)] obtain r where
    "user_named db (Username r) = None" "users_tbl db' = users_tbl db @ [r]" by blast
  then have "user_named db n = Some x \<Longrightarrow> user_named db' n = Some x" for n x
    by (auto simp: user_named_def row_at_append)
  with assms(1) show ?thesis unfolding keeps_accounts_def by blast
qed

lemma CreateUser_inv:
  assumes inv: "user_inv B env db0"
    and run: "UserService_CreateUser (NewUserRepository drv) B env n p db0 = (x, db')"
  shows "user_inv B env db' \<and> keeps_accounts db0 db'"
proof -
  from inv have wf: "wf_db db0" "wf_db (cu_between env db0)"
    and keep: "keeps_accounts db0 (cu_between env db0)"
    by (auto simp: user_inv_def others_ok_def)
  have "wf_db db' \<and> keeps_accounts db0 db'"
    using CreateUser_cases [OF run] wf keep user_repo.create_wf [OF wf(2)]
      keeps_accounts_create [OF keep] by (metis keeps_accounts_refl)
  with inv show ?thesis by (simp add: user_inv_def)
qed

lemma CreateUser_new_account:
  assumes inv: "user_inv B env db0"
    and run: "UserService_CreateUser (NewUserRepository drv) B env n p db0 = (Inr i, db')"
  shows "\<exists>m r h. varchar 50 n = Some m \<and> user_named db0 m = None \<and> user_named db' m = Some r \<and>
    user_ID r = i \<and> bcrypt_GenerateFromPassword B p DefaultCost = Inr h \<and> Password r = h"
proof -
  let ?R = "NewUserRepository drv"
  from CreateUser_success [OF run] obtain h where
    h: "bcrypt_GenerateFromPassword B p DefaultCost = Inr h"
    and cr: "ur_Create ?R (cu_stmt env) (new_user n h) (cu_between env db0) = (Inr i, db')"
    by blast
  from user_repo.create_ok [OF cr] obtain r where
    r: "created_user (cu_stmt env) (new_user n h) r" "i = st_gen_id (cu_stmt env)"
    and fresh: "user_named (cu_between env db0) (Username r) = None"
    and tbl: "users_tbl db' = users_tbl (cu_between env db0) @ [r]" by blast
  have keep: "keeps_accounts db0 (cu_between env db0)"
    using inv by (simp add: user_inv_def others_ok_def)
  have "user_named db0 (Username r) = None"
  proof (rule ccontr)
    assume "user_named db0 (Username r) \<noteq> None"
    with keep fresh show False unfolding keeps_accounts_def by fastforce
  qed
  moreover have "user_named db' (Username r) = Some r"
    using fresh by (simp add: tbl user_named_def row_at_append)
  ultimately show ?thesis using r h by (auto simp: created_user_def new_user_def)
qed

lemma LoginUser_ok:
  assumes "UserService_LoginUser R B L env n p s db = Inr tokens"
  shows "\<exists>x. ur_GetByUsername R (li_query env) db n = Inr x \<and>
    bcrypt_CompareHashAndPassword B (Password x) p = None \<and> issued L s (user_ID x) tokens"
  using assms
  by (fastforce simp: UserService_LoginUser_def ComparePasswordHash_def issued_def
      split: sum.splits option.splits)

interpretation usr: user_service_contract "NewUserService (NewUserRepository drv) B L cenv lenv"
  "user_inv B cenv" user_named "\<lambda>h p. bcrypt_CompareHashAndPassword B h p = None" "issued L"
  for drv B L cenv lenv
proof (unfold_locales, goal_cases)
  case (1 w n p x w')
  then show ?case
    using CreateUser_inv by (fastforce simp: NewUserService_def keeps_accounts_def)
next
  case (2 w n p i w')
  then have run: "UserService_CreateUser (NewUserRepository drv) B cenv n p w = (Inr i, w')"
    by (simp add: NewUserService_def)
  have "bcrypt_laws B" using "2"(1) by (simp add: user_inv_def)
  with CreateUser_new_account [OF "2"(1) run] show ?case unfolding bcrypt_laws_def by blast
next
  case (3 n p s w tokens)
  then have "UserService_LoginUser (NewUserRepository drv) B L lenv n p s w = Inr tokens"
    by (simp add: NewUserService_def)
  from LoginUser_ok [OF this] show ?case using user_repo.name_ok by blast
qed

end
