(* ===== verification/User_Controller.thy ===== *)
theory User_Controller
  imports User_Service
begin

section \<open>User controller: internal/user/controller.go\<close>

text \<open>
  The handlers Register, Login and RefreshToken over any UserServiceInterface. What
  ShouldBindJSON makes of the request is an argument; what the tags of the request structs
  promise of it are the predicates \<open>bind_register\<close>, \<open>bind_login\<close> and \<open>bind_refresh\<close>
  (min and max count runes).
\<close>

definition bind_register :: "(string \<times> string) result \<Rightarrow> bool" where
  "bind_register bound \<longleftrightarrow> (\<forall>n p. bound = Inr (n, p) \<longrightarrow>
     3 \<le> rune_count n \<and> rune_count n \<le> 50 \<and> 6 \<le> rune_count p)"

definition bind_login :: "(string \<times> string) result \<Rightarrow> bool" where
  "bind_login bound \<longleftrightarrow> (\<forall>n p. bound = Inr (n, p) \<longrightarrow> n \<noteq> [] \<and> p \<noteq> [])"

definition bind_refresh :: "string result \<Rightarrow> bool" where
  "bind_refresh bound \<longleftrightarrow> (\<forall>s. bound = Inr s \<longrightarrow> s \<noteq> [])"

text \<open>The controller: the service it calls and the secret it hands on; the handlers take its fields.\<close>

record 'w user_controller =
  uc_userService :: "'w user_service"
  uc_jwtSecret :: string

definition NewUserController :: "'w user_service \<Rightarrow> string \<Rightarrow> 'w user_controller" where
  "NewUserController userService jwtSecret = \<lparr>uc_userService = userService, uc_jwtSecret = jwtSecret\<rparr>"

subsection \<open>Register\<close>

text \<open>The three tests that make an error of CreateUser a conflict, in the order of the code.\<close>

definition conflict :: "goerr \<Rightarrow> bool" where
  "conflict err \<longleftrightarrow>
     (if err_text err = ''username already exists'' then True
      else if (case err of PqError code _ \<Rightarrow> code = ''23505'' | _ \<Rightarrow> False) then True
      else strings_Contains (err_text err) ''duplicate key''
         \<or> strings_Contains (err_text err) ''UNIQUE constraint''
         \<or> strings_Contains (err_text err) ''already exists'')"

definition UserController_Register ::
  "'w user_service \<Rightarrow> (string \<times> string) result \<Rightarrow> 'w handler" where
  "UserController_Register S bound c w =
     (case bound of Inl e \<Rightarrow> (error_json 400 (err_text e), w)
      | Inr (username, password) \<Rightarrow>
      case us_CreateUser S username password w of
        (Inl err, w') \<Rightarrow>
          if conflict err then (error_json 409 ''Username already exists'', w')
          else (error_json 500 (''Failed to create user: '' @ err_text err), w')
      | (Inr userID, w') \<Rightarrow>
          (JSON 201 [(''message'', RString ''User created successfully''), (''user_id'', RInt userID)], w'))"

subsection \<open>Login\<close>

definition token_json :: "TokenPair \<Rightarrow> (string \<times> resp_val) list" where
  "token_json p = [(''access_token'', RString (pair_AccessToken p)),
     (''refresh_token'', RString (pair_RefreshToken p)), (''expires_in'', RInt (ExpiresIn p))]"

definition UserController_Login ::
  "'w user_service \<Rightarrow> string \<Rightarrow> (string \<times> string) result \<Rightarrow> 'w handler" where
  "UserController_Login S jwtSecret bound c w =
     (case bound of Inl e \<Rightarrow> (error_json 400 ''Invalid request body'', w)
      | Inr (username, password) \<Rightarrow>
      case us_LoginUser S username password jwtSecret w of
        Inl err \<Rightarrow> (error_json 401 ''Invalid credentials'', w)
      | Inr tokens \<Rightarrow> (JSON 200 (token_json tokens), w))"

subsection \<open>RefreshToken\<close>

text \<open>The comparison with ErrExpiredToken is Go's ==, not errors.Is.\<close>

definition UserController_RefreshToken ::
  "jwt_lib \<Rightarrow> int \<Rightarrow> int \<Rightarrow> int \<Rightarrow> string \<Rightarrow> string result \<Rightarrow> 'w handler" where
  "UserController_RefreshToken L now now1 now2 jwtSecret bound c w =
     (case bound of Inl e \<Rightarrow> (error_json 400 ''Invalid request body'', w)
      | Inr refreshToken \<Rightarrow>
      case RefreshTokenPair L now now1 now2 refreshToken jwtSecret of
        Inl err \<Rightarrow>
          if err = ErrExpiredToken
          then (error_json 401 ''Refresh token expired, please login again'', w)
          else (error_json 401 ''Invalid refresh token'', w)
      | Inr tokenPair \<Rightarrow>
          (JSON 200 [(''access_token'', RString (pair_AccessToken tokenPair)),
             (''refresh_token'', RString (pair_RefreshToken tokenPair)),
             (''token_type'', RString ''Bearer''), (''expires_in'', RInt (ExpiresIn tokenPair))], w))"

lemmas user_controller_defs [op_defs] = UserController_Register_def UserController_Login_def
  UserController_RefreshToken_def

subsection \<open>Conflicts\<close>

lemma strings_Contains_sub: "strings_Contains s sub \<longleftrightarrow> (\<exists>pre post. s = pre @ sub @ post)"
proof
  show "strings_Contains s sub \<Longrightarrow> \<exists>pre post. s = pre @ sub @ post"
  proof (induction s)
    case Nil
    then show ?case by simp
  next
    case (Cons x xs)
    show ?case
    proof (cases "take (length sub) (x # xs) = sub")
      case True
      then have "x # xs = [] @ sub @ drop (length sub) (x # xs)"
        using append_take_drop_id [of "length sub" "x # xs"] by simp
      then show ?thesis by blast
    next
      case False
      with Cons obtain pre post where "xs = pre @ sub @ post" by auto
      then have "x # xs = (x # pre) @ sub @ post" by simp
      then show ?thesis by blast
    qed
  qed
qed (auto simp: strings_Contains_append)

text \<open>The three ways the code meets a taken name.\<close>

lemma conflict_lookup: "conflict (ErrorString ''username already exists'')"
  by (simp add: conflict_def)

lemma conflict_duplicate: "strings_Contains (err_text e) ''duplicate key'' \<Longrightarrow> conflict e"
  by (simp add: conflict_def)

subsection \<open>Handlers over any service that keeps its contract\<close>

context user_service_contract
begin

text \<open>A registration that is confirmed made a new account, with the id it reports.\<close>

lemma Register_creates:
  assumes "I w" and "bind_register bound"
    and "UserController_Register S bound c w = (JSON 201 body, w')"
  shows "\<exists>n p r. bound = Inr (n, p) \<and> account w n = None \<and> account w' n = Some r \<and>
    checks (Password r) p \<and>
    body = [(''message'', RString ''User created successfully''), (''user_id'', RInt (user_ID r))]"
proof -
  from assms(3) obtain n p i where b: "bound = Inr (n, p)" and cr: "us_CreateUser S n p w = (Inr i, w')"
    and body: "body = [(''message'', RString ''User created successfully''), (''user_id'', RInt i)]"
    by (auto simp: UserController_Register_def split: sum.splits prod.splits if_splits)
  from create_ok [OF assms(1) cr] obtain m r where m: "varchar 50 n = Some m"
    and r: "account w m = None" "account w' m = Some r" "user_ID r = i" "checks (Password r) p"
    by blast
  have "varchar 50 n = Some n" using assms(2) b by (simp add: bind_register_def varchar_fits)
  with m have "m = n" by simp
  with r b body show ?thesis by auto
qed

text \<open>No registration, confirmed or not, takes an account away from its name or its id.\<close>

lemma Register_keeps:
  assumes "I w" and "account w m = Some r"
  shows "\<exists>r'. account (snd (UserController_Register S bound c w)) m = Some r' \<and> user_ID r' = user_ID r"
proof (cases bound)
  case (Inl e)
  with assms(2) show ?thesis by (simp add: UserController_Register_def)
next
  case (Inr np)
  obtain n p where np: "np = (n, p)" by (cases np)
  obtain x w' where run: "us_CreateUser S n p w = (x, w')" by fastforce
  from create_inv [OF assms(1) run] assms(2) show ?thesis
    by (auto simp: UserController_Register_def Inr np run split: sum.split)
qed

lemma Register_inv: "I w \<Longrightarrow> I (snd (UserController_Register S bound c w))"
  using create_inv by (auto simp: UserController_Register_def split: sum.split prod.split)

text \<open>Tokens are given only for a password that checks, and for the id of the account.\<close>

lemma Login_authenticates:
  assumes "UserController_Login S jwtSecret bound c w = (JSON 200 body, w')"
  shows "\<exists>n p r tokens. bound = Inr (n, p) \<and> account w n = Some r \<and> checks (Password r) p \<and>
    issues jwtSecret (user_ID r) tokens \<and> body = token_json tokens \<and> w' = w"
  using assms login_ok
  by (fastforce simp: UserController_Login_def split: sum.splits prod.splits)

end

subsection \<open>RefreshToken\<close>

lemma RefreshTokenPair_error:
  "RefreshTokenPair L now now1 now2 s secret = Inl e \<Longrightarrow> ValidateToken L now s secret = Inl e' \<Longrightarrow>
   e = Wrapped ''invalid refresh token: '' e'"
  by (simp add: RefreshTokenPair_def)

lemma RefreshTokenPair_Inr:
  "RefreshTokenPair L now now1 now2 s secret = Inr p \<longleftrightarrow>
   (\<exists>c. ValidateToken L now s secret = Inr c \<and> claims_Type c = RefreshToken \<and>
      GenerateTokenPair L now1 now2 (claims_UserID c) secret = Inr p)"
  by (auto simp: RefreshTokenPair_def split: sum.splits)

lemma Refresh_state: "snd (UserController_RefreshToken L now now1 now2 secret bound c w) = w"
  by (simp add: UserController_RefreshToken_def split: sum.split)

end
