(* ===== verification/Requests.thy ===== *)
theory Requests
  imports Task_Controller User_Controller
begin

section \<open>Requests to the API, cut at their effects\<close>

text \<open>
  The API serves many requests at once, and between two effects of one request any other
  process may act. A request is therefore a sequence of phases (\<open>request_step\<close>), one per
  effect: a transaction, a publish, a look-up or a write of the cache, a query. Without
  interference the phases are exactly the operations of the services
  (\<open>create_phases\<close>, \<open>get_phases\<close>, \<open>list_phases\<close>, \<open>register_phases\<close>). Requests without an
  effect on the stores (a login, a refresh) have no phases.
\<close>

datatype request =
    Creating task
  | Publishing task
  | Looking_task int
  | Reading_task int
  | Caching_task int task
  | Looking_list int
  | Reading_list int
  | Caching_list int "task list"
  | Registering string string
  | Inserting string string
  | Done

text \<open>The faults of a phase, and what other parties contribute to it.\<close>

record phase_env =
  ph_create :: create_env
  ph_query :: sql_query
  ph_user :: create_user_env

definition create_txn ::
  "task_repo \<Rightarrow> create_env \<Rightarrow> task \<Rightarrow> database \<Rightarrow> request \<times> database" where
  "create_txn R env t db =
     (if UserID t = 0 \<or> TaskType t = [] then (Done, db)
      else case WithTransaction (ce_tx env) (create_closure R (ce_stmt env)) t db of
        (Returned None, t', db') \<Rightarrow> (Publishing t', db')
      | (_, _, db') \<Rightarrow> (Done, db'))"

definition publish_task :: "(nat \<Rightarrow> bool) \<Rightarrow> create_env \<Rightarrow> task \<Rightarrow> delivery list" where
  "publish_task is_print env t =
     (case CreateChannel (case ce_channel env of Some e \<Rightarrow> Inl e | None \<Rightarrow> Inr ()) of
        Inl e \<Rightarrow> []
      | Inr ch \<Rightarrow> if publish_sent (ce_publish env) then [task_message is_print t] else [])"

definition look_up_user ::
  "user_repo \<Rightarrow> bcrypt_lib \<Rightarrow> create_user_env \<Rightarrow> string \<Rightarrow> string \<Rightarrow> database \<Rightarrow> request" where
  "look_up_user R B env username password db =
     (case ur_GetByUsername R (cu_query env) db username of
        Inr userData \<Rightarrow> Done
      | Inl _ \<Rightarrow>
      case GeneratePasswordHash B password of
        Inl _ \<Rightarrow> Done
      | Inr hashedPassword \<Rightarrow> Inserting username hashedPassword)"

definition insert_user ::
  "user_repo \<Rightarrow> create_user_env \<Rightarrow> string \<Rightarrow> string \<Rightarrow> database \<Rightarrow> database" where
  "insert_user R env username hashedPassword db =
     (case tx_begin_err (cu_tx env) of
        Some e \<Rightarrow> db
      | None \<Rightarrow>
          (case ur_Create R (cu_stmt env) (new_user username hashedPassword) db of
             (Inl e, db') \<Rightarrow> db
           | (Inr i, db') \<Rightarrow>
               (case tx_commit (cu_tx env) of
                  Commit_ok \<Rightarrow> db' | Commit_lost e \<Rightarrow> db | Commit_unknown e \<Rightarrow> db')))"

definition request_step ::
  "task_repo \<Rightarrow> user_repo \<Rightarrow> 'r redis_client \<Rightarrow> bcrypt_lib \<Rightarrow> (nat \<Rightarrow> bool) \<Rightarrow> phase_env \<Rightarrow>
     request \<Rightarrow> 'r svc_world \<Rightarrow> request \<times> 'r svc_world" where
  "request_step R U C B is_print env x w =
     (case x of
        Creating t \<Rightarrow>
          (case create_txn R (ph_create env) t (w_db w) of (x', db') \<Rightarrow> (x', w\<lparr>w_db := db'\<rparr>))
      | Publishing t \<Rightarrow>
          (Done, w\<lparr>w_published := w_published w @ publish_task is_print (ph_create env) t\<rparr>)
      | Looking_task i \<Rightarrow>
          (case cached C unmarshal_task (w_redis w) (TaskKey i) of
             Some t \<Rightarrow> (Done, w) | None \<Rightarrow> (Reading_task i, w))
      | Reading_task i \<Rightarrow>
          (case repo_GetByID R (ph_query env) (w_db w) i of
             Inl e \<Rightarrow> (Done, w) | Inr t \<Rightarrow> (Caching_task i t, w))
      | Caching_task i t \<Rightarrow>
          (Done, w\<lparr>w_redis := snd (TaskCache_Set C (w_redis w) (TaskKey i) (marshal_task t))\<rparr>)
      | Looking_list u \<Rightarrow>
          (case cached C unmarshal_tasks (w_redis w) (UserTasksKey u) of
             Some ts \<Rightarrow> (Done, w) | None \<Rightarrow> (Reading_list u, w))
      | Reading_list u \<Rightarrow>
          (case repo_GetByUserID R (ph_query env) (w_db w) u of
             Inl e \<Rightarrow> (Done, w) | Inr ts \<Rightarrow> (Caching_list u ts, w))
      | Caching_list u ts \<Rightarrow>
          (Done, w\<lparr>w_redis := snd (TaskCache_Set C (w_redis w) (UserTasksKey u) (marshal_tasks ts))\<rparr>)
      | Registering n p \<Rightarrow> (look_up_user U B (ph_user env) n p (w_db w), w)
      | Inserting n h \<Rightarrow> (Done, w\<lparr>w_db := insert_user U (ph_user env) n h (w_db w)\<rparr>)
      | Done \<Rightarrow> (Done, w))"

text \<open>The requests as they arrive at the services.\<close>

inductive arrives :: "request \<Rightarrow> bool" where
  "arrives (Creating (pending_task u ty))"
| "arrives (Looking_task i)"
| "arrives (Looking_list u)"
| "arrives (Registering n p)"

inductive_simps arrives_simps [simp]: "arrives (Creating t)" "arrives (Publishing t)"
  "arrives (Caching_task i t)" "arrives (Caching_list u ts)"

subsection \<open>Without interference the phases are the operations\<close>

definition then_phase ::
  "task_repo \<Rightarrow> user_repo \<Rightarrow> 'r redis_client \<Rightarrow> bcrypt_lib \<Rightarrow> (nat \<Rightarrow> bool) \<Rightarrow> phase_env \<Rightarrow>
     request \<times> 'r svc_world \<Rightarrow> request \<times> 'r svc_world" where
  "then_phase R U C B is_print env y = request_step R U C B is_print env (fst y) (snd y)"

lemma create_phases:
  "then_phase R U C B is_print env (request_step R U C B is_print env (Creating t) w) =
     (Done, snd (snd (TaskService_CreateTask R is_print (ph_create env) t w)))"
  by (auto simp: then_phase_def request_step_def create_txn_def publish_task_def
      TaskService_CreateTask_def CreateChannel_def split: tx_splits sum.split)

lemma get_phases:
  "then_phase R U C B is_print env (then_phase R U C B is_print env
     (request_step R U C B is_print env (Looking_task i) w)) =
   (Done, snd (TaskService_GetTask R C (ph_query env) i w))"
  by (auto simp: then_phase_def request_step_def TaskService_GetTask_def split: option.split sum.split)

lemma list_phases:
  "then_phase R U C B is_print env (then_phase R U C B is_print env
     (request_step R U C B is_print env (Looking_list u) w)) =
   (Done, snd (TaskService_GetTasks R C (ph_query env) u w))"
  by (auto simp: then_phase_def request_step_def TaskService_GetTasks_def split: option.split sum.split)

text \<open>A registration, with any change of the database between its two phases.\<close>

lemma register_phases:
  "case request_step R U C B is_print env (Registering n p) w of (x, w1) \<Rightarrow>
     x \<noteq> Done \<longrightarrow> request_step R U C B is_print env x (w1\<lparr>w_db := cu_between (ph_user env) (w_db w1)\<rparr>) =
     (Done, w\<lparr>w_db := snd (UserService_CreateUser U B (ph_user env) n p (w_db w))\<rparr>)"
  by (auto simp: request_step_def look_up_user_def insert_user_def UserService_CreateUser_def Let_def
      split: sum.split option.split prod.split commit_outcome.split)

lemma register_refused:
  "look_up_user U B env n p db = Done \<Longrightarrow> snd (UserService_CreateUser U B env n p db) = db"
  by (auto simp: look_up_user_def UserService_CreateUser_def split: sum.splits)

subsection \<open>What a phase does to the tables\<close>

lemma create_txn_cases:
  assumes "create_txn R env t db = (x, db')"
  shows "(x = Done \<or> (\<exists>i. x = Publishing (t\<lparr>ID := i\<rparr>) \<and> repo_Create R (ce_stmt env) t db = (Inr i, db'))) \<and>
    (db' = db \<or> (\<exists>i. repo_Create R (ce_stmt env) t db = (Inr i, db')))"
  using assms by (auto simp: create_txn_def WithTransaction_def create_closure_def
      split: tx_splits sum.splits if_splits)

lemma insert_user_ok:
  assumes "wf_db db"
  shows "tasks_tbl (insert_user (NewUserRepository drv) env n h db) = tasks_tbl db \<and>
    wf_db (insert_user (NewUserRepository drv) env n h db)"
proof (cases "insert_user (NewUserRepository drv) env n h db = db")
  case True
  with assms show ?thesis by simp
next
  case False
  then obtain i where "ur_Create (NewUserRepository drv) (cu_stmt env) (new_user n h) db =
      (Inr i, insert_user (NewUserRepository drv) env n h db)"
    by (auto simp: insert_user_def split: option.splits prod.splits sum.splits commit_outcome.splits)
  with user_repo.create_ok [OF this] user_repo.create_wf [OF assms this] show ?thesis by blast
qed

lemma request_step_wf:
  assumes wf: "wf_db (w_db w)"
    and run: "request_step (NewTaskRepository drv) (NewUserRepository drv) C B is_print env x w = (x', w')"
  shows "wf_db (w_db w')"
proof (cases x)
  case (Creating t)
  with run obtain db' where
    c: "create_txn (NewTaskRepository drv) (ph_create env) t (w_db w) = (x', db')" "w' = w\<lparr>w_db := db'\<rparr>"
    by (auto simp: request_step_def split: prod.splits)
  with create_txn_cases [OF c(1)] task_repo.create_wf [OF wf] wf show ?thesis by auto
next
  case (Inserting n h)
  with run insert_user_ok [OF wf] show ?thesis by (auto simp: request_step_def)
qed (use run wf in \<open>auto simp: request_step_def split: option.splits sum.splits\<close>)

end
