(* ===== verification/System.thy ===== *)
theory System
  imports Task_Message Worker_Lifecycle Requests
begin

section \<open>The whole system: API, broker and workers, step by step\<close>

text \<open>
  The processes run concurrently. What is atomic is one effect: a phase of a request to the API
  (theory Requests) and a transaction of a worker. The iteration of a worker is therefore cut
  at its transactions (\<open>worker_step\<close>, which composes to \<open>handle_delivery\<close>), and the system
  interleaves phases of any number of requests, steps of the workers, deliveries, expiry in
  the cache and crashes of both processes in any order. The broker may deliver a message at
  any time, any number of times, to any idle worker, which is weaker than what RabbitMQ
  promises. Only the program publishes to its queue.
\<close>

subsection \<open>A worker between its transactions\<close>

datatype wstate =
    Idle
  | Received delivery
  | Processing delivery task_payload
  | Unrecorded delivery task_payload

definition worker_step ::
  "task_repo \<Rightarrow> worker_env \<Rightarrow> wstate \<Rightarrow> database \<Rightarrow> wstate \<times> database \<times> broker_cmd list" where
  "worker_step R env s db =
     (case s of
        Idle \<Rightarrow> (Idle, db, [])
      | Received msg \<Rightarrow>
          (case unmarshal_payload (Body msg) of
             None \<Rightarrow> (Idle, db, [Nack False])
           | Some p \<Rightarrow>
               (case run_stmt (we_tx1 env) (repo_MarkProcessing R (we_st1 env) (payload_ID p)) db of
                  (Some e, db1) \<Rightarrow> (Idle, db1, [Nack True])
                | (None, db1) \<Rightarrow> (Processing msg p, db1, [])))
      | Processing msg p \<Rightarrow>
          (case run_stmt (we_tx2 env)
                  (mark_result R (we_st2 env) (payload_ID p) (fst (handleTask p))) db of
             (Some e, db2) \<Rightarrow> (Unrecorded msg p, db2, [])
           | (None, db2) \<Rightarrow> (Idle, db2, [Ack]))
      | Unrecorded msg p \<Rightarrow>
          (case retry_or_give_up R env msg (payload_ID p) db of (db3, cmds) \<Rightarrow> (Idle, db3, cmds)))"

text \<open>Without interference three steps are one iteration of the code's loop.\<close>

definition then_step ::
  "task_repo \<Rightarrow> worker_env \<Rightarrow> wstate \<times> database \<times> broker_cmd list \<Rightarrow>
     wstate \<times> database \<times> broker_cmd list" where
  "then_step R env x = (case x of (s, db, cmds) \<Rightarrow>
     (case worker_step R env s db of (s', db', cmds') \<Rightarrow> (s', db', cmds @ cmds')))"

lemma worker_steps_iteration:
  "then_step R env (then_step R env (worker_step R env (Received msg) db)) =
     (case handle_delivery R env msg db of (db', cmds) \<Rightarrow> (Idle, db', cmds))"
  by (simp add: then_step_def worker_step_def handle_delivery_def split: option.split prod.split)

subsection \<open>Steps of the system\<close>

record 'r system =
  sy_world :: "'r svc_world"
  sy_workers :: "wstate list"
  sy_requests :: "request list"

text \<open>The messages of a list of commands that reach the broker.\<close>

definition sent_of :: "broker_cmd list \<Rightarrow> delivery list" where
  "sent_of cmds = concat (map (\<lambda>c. case c of
     Republish m out \<Rightarrow> if publish_sent out then [m] else [] | _ \<Rightarrow> []) cmds)"

definition forgets :: "('r \<Rightarrow> string \<Rightarrow> string option) \<Rightarrow> 'r \<Rightarrow> 'r \<Rightarrow> bool" where
  "forgets view r r' \<longleftrightarrow> (\<forall>k v. view r' k = Some v \<longrightarrow> view r k = Some v)"

inductive sys_step ::
  "driver \<Rightarrow> 'r redis_client \<Rightarrow> bcrypt_lib \<Rightarrow> ('r \<Rightarrow> string \<Rightarrow> string option) \<Rightarrow>
     (nat \<Rightarrow> bool) \<Rightarrow> 'r system \<Rightarrow> 'r system \<Rightarrow> bool"
  for drv C B view is_print where
  arrive: "arrives x \<Longrightarrow>
    sys_step drv C B view is_print s (s\<lparr>sy_requests := sy_requests s @ [x]\<rparr>)"
| request: "i < length (sy_requests s) \<Longrightarrow> order_ok (ph_query env) \<Longrightarrow>
      request_step (NewTaskRepository drv) (NewUserRepository drv) C B is_print env
        (sy_requests s ! i) (sy_world s) = (x, w') \<Longrightarrow>
    sys_step drv C B view is_print s (s\<lparr>sy_world := w', sy_requests := (sy_requests s)[i := x]\<rparr>)"
| expire: "forgets view (w_redis (sy_world s)) r' \<Longrightarrow>
    sys_step drv C B view is_print s (s\<lparr>sy_world := (sy_world s)\<lparr>w_redis := r'\<rparr>\<rparr>)"
| deliver: "i < length (sy_workers s) \<Longrightarrow> sy_workers s ! i = Idle \<Longrightarrow>
      msg \<in> set (w_published (sy_world s)) \<Longrightarrow>
    sys_step drv C B view is_print s (s\<lparr>sy_workers := (sy_workers s)[i := Received msg]\<rparr>)"
| work: "i < length (sy_workers s) \<Longrightarrow>
      worker_step (NewTaskRepository drv) wenv (sy_workers s ! i) (w_db (sy_world s)) = (ws, db', cmds) \<Longrightarrow>
    sys_step drv C B view is_print s
      (s\<lparr>sy_world := (sy_world s)\<lparr>w_db := db', w_published := w_published (sy_world s) @ sent_of cmds\<rparr>,
         sy_workers := (sy_workers s)[i := ws]\<rparr>)"

text \<open>A crash: a request is dropped, or a worker forgets what it was doing.\<close>

inductive crash :: "'r system \<Rightarrow> 'r system \<Rightarrow> bool" where
  drop_request: "i < length (sy_requests s) \<Longrightarrow> crash s (s\<lparr>sy_requests := (sy_requests s)[i := Done]\<rparr>)"
| drop_worker: "i < length (sy_workers s) \<Longrightarrow> crash s (s\<lparr>sy_workers := (sy_workers s)[i := Idle]\<rparr>)"

definition sys_any ::
  "driver \<Rightarrow> 'r redis_client \<Rightarrow> bcrypt_lib \<Rightarrow> ('r \<Rightarrow> string \<Rightarrow> string option) \<Rightarrow>
     (nat \<Rightarrow> bool) \<Rightarrow> 'r system \<Rightarrow> 'r system \<Rightarrow> bool" where
  "sys_any drv C B view is_print s s' \<longleftrightarrow> sys_step drv C B view is_print s s' \<or> crash s s'"

lemma sys_steps_any: "(sys_step drv C B view is_print)\<^sup>*\<^sup>* s s' \<Longrightarrow> (sys_any drv C B view is_print)\<^sup>*\<^sup>* s s'"
  by (erule rtranclp_mono [THEN predicate2D, rotated]) (simp add: sys_any_def le_fun_def)



subsection \<open>The invariant\<close>

text \<open>
  A message is one the service built for a task (its retries keep the body), and the row of
  that task is in the table with the same owner and the type as the column holds it.
\<close>

definition refers :: "database \<Rightarrow> task \<Rightarrow> bool" where
  "refers db t \<longleftrightarrow> int4_ok (ID t) \<and> int4_ok (UserID t) \<and>
     (\<exists>r. task_at db (ID t) = Some r \<and> UserID r = UserID t \<and> varchar 50 (TaskType t) = Some (TaskType r))"

definition msg_ok :: "(nat \<Rightarrow> bool) \<Rightarrow> database \<Rightarrow> delivery \<Rightarrow> bool" where
  "msg_ok is_print db msg \<longleftrightarrow> (\<exists>t. Body msg = task_body is_print t \<and> refers db t) \<and>
     RoutingKey msg = task_queue \<and> 0 \<le> sint (retry_count msg) \<and> sint (retry_count msg) \<le> 3"

definition worker_ok :: "delivery set \<Rightarrow> wstate \<Rightarrow> bool" where
  "worker_ok msgs s \<longleftrightarrow>
     (case s of Idle \<Rightarrow> True | Received m \<Rightarrow> m \<in> msgs
      | Processing m p \<Rightarrow> m \<in> msgs \<and> unmarshal_payload (Body m) = Some p
      | Unrecorded m p \<Rightarrow> m \<in> msgs \<and> unmarshal_payload (Body m) = Some p)"

text \<open>What a request holds between its phases: a task that was inserted, rows that were read.\<close>

definition request_ok :: "database \<Rightarrow> request \<Rightarrow> bool" where
  "request_ok db x \<longleftrightarrow>
     (case x of
        Creating t \<Rightarrow> \<exists>u ty. t = pending_task u ty
      | Publishing t \<Rightarrow> refers db t
      | Caching_task i t \<Rightarrow> ID t = i \<and> backed db t \<and> row_fits t
      | Caching_list u ts \<Rightarrow> \<forall>t \<in> set ts. UserID t = u \<and> backed db t \<and> row_fits t
      | _ \<Rightarrow> True)"

definition world_ok ::
  "('r \<Rightarrow> string \<Rightarrow> string option) \<Rightarrow> (nat \<Rightarrow> bool) \<Rightarrow> 'r svc_world \<Rightarrow> bool" where
  "world_ok view is_print w \<longleftrightarrow>
     wf_db (w_db w) \<and> (\<forall>t \<in> set (tasks_tbl (w_db w)). row_ok t) \<and>
     cache_backed view (w_db w) (w_redis w) \<and>
     (\<forall>m \<in> set (w_published w). msg_ok is_print (w_db w) m)"

definition sys_inv ::
  "('r \<Rightarrow> string \<Rightarrow> string option) \<Rightarrow> (nat \<Rightarrow> bool) \<Rightarrow> 'r system \<Rightarrow> bool" where
  "sys_inv view is_print s \<longleftrightarrow> world_ok view is_print (sy_world s) \<and>
     (\<forall>ws \<in> set (sy_workers s). worker_ok (set (w_published (sy_world s))) ws) \<and>
     (\<forall>x \<in> set (sy_requests s). request_ok (w_db (sy_world s)) x)"

lemma sys_invD:
  assumes "sys_inv view is_print s"
  shows "world_ok view is_print (sy_world s)"
    and "ws \<in> set (sy_workers s) \<Longrightarrow> worker_ok (set (w_published (sy_world s))) ws"
    and "x \<in> set (sy_requests s) \<Longrightarrow> request_ok (w_db (sy_world s)) x"
  using assms by (simp_all add: sys_inv_def)

text \<open>What no step takes away: the row of every id, up to steps of its life cycle.\<close>

definition rows_evolve :: "database \<Rightarrow> database \<Rightarrow> bool" where
  "rows_evolve db db' \<longleftrightarrow> (\<forall>i t. task_at db i = Some t \<longrightarrow>
     (\<exists>t'. task_at db' i = Some t' \<and> task_step\<^sup>*\<^sup>* t t'))"

lemma rows_evolve_refl [simp]: "rows_evolve db db"
  by (auto simp: rows_evolve_def)

lemma rows_evolve_trans: "rows_evolve a b \<Longrightarrow> rows_evolve b c \<Longrightarrow> rows_evolve a c"
  unfolding rows_evolve_def by (meson rtranclp_trans)

lemma rows_evolve_same: "task_at db' = task_at db \<Longrightarrow> rows_evolve db db'"
  by (auto simp: rows_evolve_def)

lemma rows_evolve_new: "task_at db' = (task_at db)(i \<mapsto> r) \<Longrightarrow> task_at db i = None \<Longrightarrow> rows_evolve db db'"
  by (auto simp: rows_evolve_def)

lemma rows_evolve_steps: "steps_at i db db' \<Longrightarrow> rows_evolve db db'"
  unfolding rows_evolve_def using steps_at_row(2,4) by (metis rtranclp.rtrancl_refl)

lemma rows_evolve_row:
  assumes "rows_evolve db db'" and "task_at db i = Some r"
  obtains r' where "task_at db' i = Some r'" "same_identity r r'"
  using assms task_steps_identity unfolding rows_evolve_def by blast

lemma rows_evolve_refers:
  assumes "rows_evolve db db'" and "refers db t"
  shows "refers db' t"
proof -
  from assms(2) obtain r where r: "task_at db (ID t) = Some r" "UserID r = UserID t"
    "varchar 50 (TaskType t) = Some (TaskType r)" "int4_ok (ID t)" "int4_ok (UserID t)"
    unfolding refers_def by blast
  from rows_evolve_row [OF assms(1) r(1)] obtain r' where
    "task_at db' (ID t) = Some r'" "same_identity r r'" by blast
  with r show ?thesis by (simp add: refers_def same_identity_def)
qed

lemma rows_evolve_backed:
  assumes "rows_evolve db db'" and "backed db t"
  shows "backed db' t"
proof -
  from assms(2) obtain r where r: "task_at db (ID t) = Some r" "same_identity r t"
    unfolding backed_def by blast
  from rows_evolve_row [OF assms(1) r(1)] obtain r' where
    "task_at db' (ID t) = Some r'" "same_identity r r'" by blast
  with r(2) show ?thesis by (simp add: backed_def same_identity_def)
qed

lemma rows_evolve_msg: "rows_evolve db db' \<Longrightarrow> msg_ok is_print db m \<Longrightarrow> msg_ok is_print db' m"
  unfolding msg_ok_def using rows_evolve_refers by blast

lemma worker_ok_mono: "worker_ok A s \<Longrightarrow> A \<subseteq> B \<Longrightarrow> worker_ok B s"
  by (auto simp: worker_ok_def split: wstate.splits)

lemma rows_evolve_request: "rows_evolve db db' \<Longrightarrow> request_ok db x \<Longrightarrow> request_ok db' x"
  using rows_evolve_refers rows_evolve_backed by (auto simp: request_ok_def split: request.splits)

text \<open>Putting the parts together after a step: the world, and who moved.\<close>

lemma sys_inv_step:
  assumes inv: "sys_inv view is_print s" and w: "world_ok view is_print w'"
    and ev: "rows_evolve (w_db (sy_world s)) (w_db w')"
    and pub: "set (w_published (sy_world s)) \<subseteq> set (w_published w')"
    and ws: "\<And>x. x \<in> set wss \<Longrightarrow> x \<in> set (sy_workers s) \<or> worker_ok (set (w_published w')) x"
    and rs: "\<And>x. x \<in> set rqs \<Longrightarrow> x \<in> set (sy_requests s) \<or> request_ok (w_db w') x"
  shows "sys_inv view is_print (s\<lparr>sy_world := w', sy_workers := wss, sy_requests := rqs\<rparr>)"
  unfolding sys_inv_def
  using w ws rs worker_ok_mono [OF sys_invD(2) [OF inv] pub] rows_evolve_request [OF ev sys_invD(3) [OF inv]]
  by auto

lemma set_update_cases: "x \<in> set (xs[i := y]) \<Longrightarrow> x \<in> set xs \<or> x = y"
  using set_update_subset_insert by fastforce

subsection \<open>Every step of a worker keeps it\<close>

lemma worker_step_steps:
  assumes "worker_step (NewTaskRepository drv) env s db = (s', db', cmds)"
  shows "\<exists>i. steps_at i db db'"
proof (cases s)
  case Idle
  with assms have "steps_at 0 db db'" by (simp add: worker_step_def)
  then show ?thesis ..
next
  case (Received msg)
  with assms task_repo.processing_steps show ?thesis
    by (fastforce simp: worker_step_def split: option.splits prod.splits)
next
  case (Processing msg p)
  with assms task_repo.result_steps show ?thesis
    by (fastforce simp: worker_step_def split: option.splits prod.splits)
next
  case (Unrecorded msg p)
  with assms task_repo.give_up_steps show ?thesis
    by (fastforce simp: worker_step_def split: prod.splits)
qed

lemma sent_of_simps [simp]:
  "sent_of [] = []" "sent_of [Ack] = []" "sent_of [Nack b] = []"
  by (simp_all add: sent_of_def)

lemma give_up_sent:
  "retry_or_give_up R env msg i db = (db', cmds) \<Longrightarrow> m \<in> set (sent_of cmds) \<Longrightarrow>
   \<not> 3 <=s retry_count msg \<and> m = retry_message msg (retry_count msg + 1)"
  by (auto simp: retry_or_give_up_def sent_of_def Let_def split: if_splits option.splits)

lemma worker_step_sent:
  assumes "worker_step R env s db = (s', db', cmds)" and "m \<in> set (sent_of cmds)"
  shows "\<exists>msg p. s = Unrecorded msg p \<and> \<not> 3 <=s retry_count msg \<and>
    m = retry_message msg (retry_count msg + 1)"
  using assms give_up_sent
  by (cases s) (fastforce simp: worker_step_def split: option.splits prod.splits)+

lemma worker_step_worker_ok:
  "worker_step R env s db = (s', db', cmds) \<Longrightarrow> worker_ok msgs s \<Longrightarrow> worker_ok msgs s'"
  by (cases s) (auto simp: worker_step_def worker_ok_def split: option.splits prod.splits)

lemma msg_ok_retry:
  assumes "msg_ok is_print db msg" and "\<not> 3 <=s retry_count msg"
  shows "msg_ok is_print db (retry_message msg (retry_count msg + 1))"
proof -
  have "RoutingKey (retry_message msg n) = RoutingKey msg" for n
    by (simp add: retry_message_def)
  with sint_count_inc [OF assms(2)] assms(1) show ?thesis by (simp add: msg_ok_def)
qed

text \<open>A change of the database alone.\<close>

lemma world_ok_db:
  assumes "world_ok view is_print w" and "rows_evolve (w_db w) db'"
    and "wf_db db'" and "\<forall>t \<in> set (tasks_tbl db'). row_ok t"
  shows "world_ok view is_print (w\<lparr>w_db := db'\<rparr>)"
  using assms rows_evolve_msg [OF assms(2)]
    cache_backed_mono [of view "w_db w" "w_redis w" db'] rows_evolve_backed [OF assms(2)]
  by (simp add: world_ok_def)

lemma worker_step_ok:
  assumes w: "world_ok view is_print w" and wok: "worker_ok (set (w_published w)) ws"
    and run: "worker_step (NewTaskRepository drv) env ws (w_db w) = (ws', db', cmds)"
  shows "rows_evolve (w_db w) db'"
    "world_ok view is_print (w\<lparr>w_db := db', w_published := w_published w @ sent_of cmds\<rparr>)"
proof -
  from worker_step_steps [OF run] obtain j where st: "steps_at j (w_db w) db'" by blast
  show ev: "rows_evolve (w_db w) db'" by (rule rows_evolve_steps [OF st])
  have db: "world_ok view is_print (w\<lparr>w_db := db'\<rparr>)"
    using w ev steps_at_wf [OF st] steps_at_rows_ok [OF st]
    by (intro world_ok_db) (auto simp: world_ok_def)
  have "msg_ok is_print db' m" if "m \<in> set (sent_of cmds)" for m
  proof -
    from worker_step_sent [OF run that] obtain msg p where
      u: "ws = Unrecorded msg p" "\<not> 3 <=s retry_count msg"
      "m = retry_message msg (retry_count msg + 1)" by blast
    with wok have "msg \<in> set (w_published w)" by (simp add: worker_ok_def)
    with db have "msg_ok is_print db' msg" by (simp add: world_ok_def)
    from msg_ok_retry [OF this u(2)] u(3) show ?thesis by simp
  qed
  with db show "world_ok view is_print (w\<lparr>w_db := db', w_published := w_published w @ sent_of cmds\<rparr>)"
    by (auto simp: world_ok_def)
qed

lemma msg_ok_payload:
  assumes "msg_ok is_print db msg" and "unmarshal_payload (Body msg) = Some p"
  shows "int4_ok (payload_ID p) \<and> task_at db (payload_ID p) \<noteq> None"
proof -
  from assms(1) obtain t where t: "Body msg = task_body is_print t" "refers db t"
    unfolding msg_ok_def by blast
  then have "in_int64 (ID t)" "in_int64 (UserID t)" by (auto simp: refers_def int4_int64)
  from unmarshal_task_body [OF this] assms(2) t show ?thesis
    by (auto simp: refers_def split: if_splits)
qed

subsection \<open>Every phase of a request keeps it\<close>

lemma Create_int4: "TaskRepository_Create drv st t db = (Inr i, db') \<Longrightarrow> int4_ok (UserID t) \<and> int4_ok i"
  by (auto simp: TaskRepository_Create_def split: option.splits if_splits)

lemma varchar_pending: "varchar 20 ''PENDING'' = Some ''PENDING''"
  by (rule varchar_fits) (simp add: rune_count_def is_continuation_def)

lemma create_txn_ok:
  assumes w: "world_ok view is_print w"
    and run: "create_txn (NewTaskRepository drv) env (pending_task u ty) (w_db w) = (x, db')"
  shows "rows_evolve (w_db w) db' \<and> world_ok view is_print (w\<lparr>w_db := db'\<rparr>) \<and> request_ok db' x"
proof (cases "\<exists>i. repo_Create (NewTaskRepository drv) (ce_stmt env) (pending_task u ty) (w_db w) = (Inr i, db')")
  case False
  with create_txn_cases [OF run] w show ?thesis by (auto simp: request_ok_def)
next
  case True
  then obtain i where
    rc: "repo_Create (NewTaskRepository drv) (ce_stmt env) (pending_task u ty) (w_db w) = (Inr i, db')" by blast
  then have rc': "TaskRepository_Create drv (ce_stmt env) (pending_task u ty) (w_db w) = (Inr i, db')"
    by (simp add: NewTaskRepository_def)
  from Create_ok [OF rc'] obtain r where i: "i = st_gen_id (ce_stmt env)"
    and r: "created_row (ce_stmt env) (pending_task u ty) r" "tasks_tbl db' = tasks_tbl (w_db w) @ [r]"
    by blast
  from task_repo.create_ok [OF rc] obtain r2 where
    upd: "task_at db' = (task_at (w_db w))(i \<mapsto> r2)" "task_at (w_db w) i = None"
    and r2: "created_row (ce_stmt env) (pending_task u ty) r2" by blast
  have ev: "rows_evolve (w_db w) db'" by (rule rows_evolve_new [OF upd])
  have wf: "wf_db db'" using w task_repo.create_wf [OF _ rc] by (simp add: world_ok_def)
  have "Status r = ''PENDING''" using r(1) varchar_pending
    by (simp add: created_row_def pending_task_def)
  with r(1) have "row_ok r" by (simp add: row_ok_def created_row_def)
  with w r(2) have "\<forall>t \<in> set (tasks_tbl db'). row_ok t" by (simp add: world_ok_def)
  from world_ok_db [OF w ev wf this] have db: "world_ok view is_print (w\<lparr>w_db := db'\<rparr>)" .
  have "refers db' ((pending_task u ty)\<lparr>ID := i\<rparr>)"
    using upd(1) r2 i Create_int4 [OF rc'] by (simp add: refers_def created_row_def pending_task_def)
  with create_txn_cases [OF run] rc have "request_ok db' x" by (auto simp: request_ok_def)
  with ev db show ?thesis by blast
qed

lemma publish_task_ok:
  assumes "refers db t" and "m \<in> set (publish_task is_print env t)"
  shows "msg_ok is_print db m"
proof -
  have "RoutingKey (task_message is_print t) = task_queue" by (simp add: task_message_def)
  with assms(1) have "msg_ok is_print db (task_message is_print t)" by (auto simp: msg_ok_def)
  moreover have "m = task_message is_print t"
    using assms(2) by (auto simp: publish_task_def CreateChannel_def split: sum.splits option.splits if_splits)
  ultimately show ?thesis by simp
qed

lemma read_task_ok:
  "world_ok view is_print w \<Longrightarrow> repo_GetByID (NewTaskRepository drv) q (w_db w) i = Inr t \<Longrightarrow>
   request_ok (w_db w) (Caching_task i t)"
  using task_repo.get_id task_repo.get_ok task_at_fits backed_self
  by (fastforce simp: request_ok_def world_ok_def)

lemma read_list_ok:
  assumes w: "world_ok view is_print w" and q: "order_ok q"
    and got: "repo_GetByUserID (NewTaskRepository drv) q (w_db w) u = Inr ts"
  shows "request_ok (w_db w) (Caching_list u ts)"
proof -
  from w have wf: "wf_db (w_db w)" by (simp add: world_ok_def)
  have "UserID t = u \<and> backed (w_db w) t \<and> row_fits t" if "t \<in> set ts" for t
    using that task_repo.list_owner [OF q got] task_repo.list_rows [OF wf q got] backed_self
      task_at_fits [OF wf] by blast
  then show ?thesis by (simp add: request_ok_def)
qed

lemma world_ok_redis:
  "world_ok view is_print w \<Longrightarrow> cache_backed view (w_db w) r \<Longrightarrow> world_ok view is_print (w\<lparr>w_redis := r\<rparr>)"
  by (simp add: world_ok_def)

lemma cache_task_ok:
  assumes laws: "redis_laws C view" and w: "world_ok view is_print w"
    and x: "request_ok (w_db w) (Caching_task i t)"
  shows "world_ok view is_print (w\<lparr>w_redis := snd (TaskCache_Set C (w_redis w) (TaskKey i) (marshal_task t))\<rparr>)"
proof -
  obtain e r' where set: "TaskCache_Set C (w_redis w) (TaskKey i) (marshal_task t) = (e, r')" by fastforce
  from x have "ID t = i" "backed (w_db w) t" "row_fits t" by (simp_all add: request_ok_def)
  with cache_backed_task [OF _ laws this set] w have "cache_backed view (w_db w) r'" by (simp add: world_ok_def)
  with set world_ok_redis [OF w] show ?thesis by simp
qed

lemma cache_list_ok:
  assumes laws: "redis_laws C view" and w: "world_ok view is_print w"
    and x: "request_ok (w_db w) (Caching_list u ts)"
  shows "world_ok view is_print (w\<lparr>w_redis := snd (TaskCache_Set C (w_redis w) (UserTasksKey u) (marshal_tasks ts))\<rparr>)"
proof -
  obtain e r' where set: "TaskCache_Set C (w_redis w) (UserTasksKey u) (marshal_tasks ts) = (e, r')" by fastforce
  from x have "\<And>t. t \<in> set ts \<Longrightarrow> UserID t = u \<and> backed (w_db w) t \<and> row_fits t"
    by (simp add: request_ok_def)
  with cache_backed_tasks [OF _ laws this set] w have "cache_backed view (w_db w) r'" by (simp add: world_ok_def)
  with set world_ok_redis [OF w] show ?thesis by simp
qed

lemma insert_user_world_ok:
  assumes w: "world_ok view is_print w"
    and db: "db = insert_user (NewUserRepository drv) env n h (w_db w)"
  shows "world_ok view is_print (w\<lparr>w_db := db\<rparr>) \<and> rows_evolve (w_db w) db"
proof -
  have "wf_db (w_db w)" using w by (simp add: world_ok_def)
  from insert_user_ok [OF this, of drv env n h]
  have ok: "tasks_tbl db = tasks_tbl (w_db w)" "wf_db db" by (simp_all add: db)
  then have ev: "rows_evolve (w_db w) db" by (intro rows_evolve_same) (simp add: task_at_def fun_eq_iff)
  have "\<forall>t \<in> set (tasks_tbl db). row_ok t" using w ok(1) by (simp add: world_ok_def)
  from world_ok_db [OF w ev ok(2) this] ev show ?thesis by simp
qed

lemma request_step_ok:
  assumes laws: "redis_laws C view" and w: "world_ok view is_print w" and x: "request_ok (w_db w) x"
    and q: "order_ok (ph_query env)"
    and run: "request_step (NewTaskRepository drv) (NewUserRepository drv) C B is_print env x w = (x', w')"
  shows "world_ok view is_print w' \<and> request_ok (w_db w') x' \<and> rows_evolve (w_db w) (w_db w') \<and>
    set (w_published w) \<subseteq> set (w_published w')"
proof (cases x)
  case (Creating t)
  with x obtain u ty where t: "t = pending_task u ty" by (auto simp: request_ok_def)
  with run Creating obtain db' where
    "create_txn (NewTaskRepository drv) (ph_create env) (pending_task u ty) (w_db w) = (x', db')"
    "w' = w\<lparr>w_db := db'\<rparr>" by (auto simp: request_step_def split: prod.splits)
  with create_txn_ok [OF w this(1)] show ?thesis by simp
next
  case (Publishing t)
  with x run w publish_task_ok show ?thesis
    by (auto simp: request_step_def request_ok_def world_ok_def)
next
  case (Reading_task i)
  with run w read_task_ok [OF w] show ?thesis
    by (auto simp: request_step_def request_ok_def split: sum.splits)
next
  case (Caching_task i t)
  with run x cache_task_ok [OF laws w] show ?thesis by (auto simp: request_step_def request_ok_def)
next
  case (Reading_list u)
  with run w read_list_ok [OF w q] show ?thesis
    by (auto simp: request_step_def request_ok_def split: sum.splits)
next
  case (Caching_list u ts)
  with run x cache_list_ok [OF laws w] show ?thesis by (auto simp: request_step_def request_ok_def)
next
  case (Inserting n h)
  with run insert_user_world_ok [OF w] show ?thesis by (auto simp: request_step_def request_ok_def)
qed (use run w in \<open>auto simp: request_step_def request_ok_def look_up_user_def split: option.splits sum.splits\<close>)

lemma arrives_ok: "arrives x \<Longrightarrow> request_ok db x"
  by (cases x) (auto simp: request_ok_def)

lemma cache_backed_forgets:
  "cache_backed view db r \<Longrightarrow> forgets view r r' \<Longrightarrow> cache_backed view db r'"
  unfolding cache_backed_def forgets_def by blast

subsection \<open>Every step of the system keeps it\<close>

lemma sys_step_inv:
  assumes laws: "redis_laws C view" and step: "sys_step drv C B view is_print s s'"
    and inv: "sys_inv view is_print s"
  shows "sys_inv view is_print s' \<and> rows_evolve (w_db (sy_world s)) (w_db (sy_world s'))"
  using step
proof (cases rule: sys_step.cases)
  case (arrive x)
  have "sys_inv view is_print (s\<lparr>sy_world := sy_world s, sy_workers := sy_workers s,
      sy_requests := sy_requests s @ [x]\<rparr>)"
    by (rule sys_inv_step [OF inv sys_invD(1) [OF inv]]) (use arrive(2) arrives_ok in auto)
  with arrive(1) show ?thesis by simp
next
  case (request i env x w')
  have "sy_requests s ! i \<in> set (sy_requests s)" using request(2) by simp
  from request_step_ok [OF laws sys_invD(1) [OF inv] sys_invD(3) [OF inv this] request(3,4)]
  have ok: "world_ok view is_print w'" "request_ok (w_db w') x" "rows_evolve (w_db (sy_world s)) (w_db w')"
    "set (w_published (sy_world s)) \<subseteq> set (w_published w')" by simp_all
  have "sys_inv view is_print (s\<lparr>sy_world := w', sy_workers := sy_workers s,
      sy_requests := (sy_requests s)[i := x]\<rparr>)"
    by (rule sys_inv_step [OF inv ok(1,3,4)]) (use ok(2) in \<open>auto dest: set_update_cases\<close>)
  with request(1) ok(3) show ?thesis by simp
next
  case (expire r')
  have "cache_backed view (w_db (sy_world s)) (w_redis (sy_world s))"
    using sys_invD(1) [OF inv] by (simp add: world_ok_def)
  from world_ok_redis [OF sys_invD(1) [OF inv] cache_backed_forgets [OF this expire(2)]]
  have "sys_inv view is_print (s\<lparr>sy_world := (sy_world s)\<lparr>w_redis := r'\<rparr>, sy_workers := sy_workers s,
      sy_requests := sy_requests s\<rparr>)"
    by (rule sys_inv_step [OF inv]) auto
  with expire(1) show ?thesis by simp
next
  case (deliver i msg)
  have "sys_inv view is_print (s\<lparr>sy_world := sy_world s, sy_workers := (sy_workers s)[i := Received msg],
      sy_requests := sy_requests s\<rparr>)"
    by (rule sys_inv_step [OF inv sys_invD(1) [OF inv]])
      (use deliver(4) in \<open>auto simp: worker_ok_def dest: set_update_cases\<close>)
  with deliver(1) show ?thesis by simp
next
  case (work i wenv ws db' cmds)
  let ?w' = "(sy_world s)\<lparr>w_db := db', w_published := w_published (sy_world s) @ sent_of cmds\<rparr>"
  have wok: "worker_ok (set (w_published (sy_world s))) (sy_workers s ! i)"
    using sys_invD(2) [OF inv] work(2) by simp
  note ok = worker_step_ok [OF sys_invD(1) [OF inv] wok work(3)]
  have "worker_ok (set (w_published ?w')) ws"
    by (rule worker_ok_mono [OF worker_step_worker_ok [OF work(3) wok]]) simp
  then have "sys_inv view is_print (s\<lparr>sy_world := ?w', sy_workers := (sy_workers s)[i := ws],
      sy_requests := sy_requests s\<rparr>)"
    using ok by (intro sys_inv_step [OF inv ok(2)]) (auto dest: set_update_cases)
  with work(1) ok(1) show ?thesis by simp
qed

lemma crash_inv:
  assumes step: "crash s s'" and inv: "sys_inv view is_print s"
  shows "sys_inv view is_print s' \<and> rows_evolve (w_db (sy_world s)) (w_db (sy_world s'))"
  using step
proof (cases rule: crash.cases)
  case (drop_request i)
  have "sys_inv view is_print (s\<lparr>sy_world := sy_world s, sy_workers := sy_workers s,
      sy_requests := (sy_requests s)[i := Done]\<rparr>)"
    by (rule sys_inv_step [OF inv sys_invD(1) [OF inv]])
      (auto simp: request_ok_def dest: set_update_cases)
  with drop_request(1) show ?thesis by simp
next
  case (drop_worker i)
  have "sys_inv view is_print (s\<lparr>sy_world := sy_world s, sy_workers := (sy_workers s)[i := Idle],
      sy_requests := sy_requests s\<rparr>)"
    by (rule sys_inv_step [OF inv sys_invD(1) [OF inv]])
      (auto simp: worker_ok_def dest: set_update_cases)
  with drop_worker(1) show ?thesis by simp
qed

lemma sys_steps_inv:
  assumes laws: "redis_laws C view"
    and steps: "(sys_any drv C B view is_print)\<^sup>*\<^sup>* s s'" and inv: "sys_inv view is_print s"
  shows "sys_inv view is_print s' \<and> rows_evolve (w_db (sy_world s)) (w_db (sy_world s'))"
  using steps
proof (induction rule: rtranclp_induct)
  case base
  with inv show ?case by simp
next
  case (step y z)
  with sys_step_inv [OF laws] crash_inv rows_evolve_trans show ?case unfolding sys_any_def by blast
qed

text \<open>The start: empty tables, an empty cache, no message, idle workers, no requests.\<close>

definition sys_init :: "('r \<Rightarrow> string \<Rightarrow> string option) \<Rightarrow> nat \<Rightarrow> 'r system \<Rightarrow> bool" where
  "sys_init view n s \<longleftrightarrow> tasks_tbl (w_db (sy_world s)) = [] \<and> users_tbl (w_db (sy_world s)) = [] \<and>
     (\<forall>k. view (w_redis (sy_world s)) k = None) \<and> w_published (sy_world s) = [] \<and>
     sy_workers s = replicate n Idle \<and> sy_requests s = []"

text \<open>A request that runs alone: its phases one after the other, as the operation of its service.\<close>

lemma phase_run:
  assumes "request_step (NewTaskRepository drv) (NewUserRepository drv) C B is_print env x (sy_world s) = (x', w')"
    and "order_ok (ph_query env)" and "sy_requests s = rs @ [x]"
  shows "sys_step drv C B view is_print s (s\<lparr>sy_world := w', sy_requests := rs @ [x']\<rparr>)"
  using sys_step.request [of "length rs" s env drv C B is_print x' w' view] assms by simp

lemma create_alone:
  fixes env :: phase_env
  assumes "TaskService_CreateTask (NewTaskRepository drv) is_print (ph_create env) (pending_task u ty) (sy_world s) = (e, t', w')"
    and q: "order_ok (ph_query env)"
  shows "(sys_step drv C B view is_print)\<^sup>*\<^sup>* s (s\<lparr>sy_world := w', sy_requests := sy_requests s @ [Done]\<rparr>)"
proof -
  let ?step = "request_step (NewTaskRepository drv) (NewUserRepository drv) C B is_print env"
  let ?s1 = "s\<lparr>sy_requests := sy_requests s @ [Creating (pending_task u ty)]\<rparr>"
  obtain x1 w1 where 1: "?step (Creating (pending_task u ty)) (sy_world s) = (x1, w1)" by fastforce
  let ?s2 = "?s1\<lparr>sy_world := w1, sy_requests := sy_requests s @ [x1]\<rparr>"
  have 2: "?step x1 w1 = (Done, w')"
    using create_phases [of "NewTaskRepository drv" "NewUserRepository drv" C B is_print env
        "pending_task u ty" "sy_world s"] 1 assms(1) by (simp add: then_phase_def)
  have "sys_step drv C B view is_print s ?s1" by (rule sys_step.arrive) (auto simp: arrives.simps)
  moreover have "sys_step drv C B view is_print ?s1 ?s2" by (rule phase_run [OF _ q]) (use 1 in simp_all)
  moreover have "sys_step drv C B view is_print ?s2 (?s2\<lparr>sy_world := w', sy_requests := sy_requests s @ [Done]\<rparr>)"
    by (rule phase_run [OF _ q]) (use 2 in simp_all)
  then have "sys_step drv C B view is_print ?s2 (s\<lparr>sy_world := w', sy_requests := sy_requests s @ [Done]\<rparr>)" by simp
  ultimately show ?thesis by (meson rtranclp.rtrancl_into_rtrancl rtranclp.rtrancl_refl)
qed

lemma sys_init_inv: "sys_init view n s \<Longrightarrow> sys_inv view is_print s"
  by (simp add: sys_init_def sys_inv_def world_ok_def wf_db_def cache_backed_def worker_ok_def)

end
