(* ===== verification/Task_Properties.thy ===== *)
theory Task_Properties
  imports Task_Message Worker_Lifecycle Task_Controller
begin

section \<open>Properties of tasks, their messages and the worker\<close>

text \<open>
  The claims about the task pipeline, each with a concrete instance where it has hypotheses,
  and the lemmas on fault-free runs they share.
\<close>

subsection \<open>Fault-free iterations\<close>

definition final_row :: "task_payload \<Rightarrow> int \<Rightarrow> task \<Rightarrow> task" where
  "final_row p now t =
     (case fst (handleTask p) of
        None \<Rightarrow> t\<lparr>Status := ''SUCCESS'', ResultFile := Some ''result.txt'', UpdatedAt := utc now\<rparr>
      | Some e \<Rightarrow> t\<lparr>Status := ''FAILED'', ErrorMessage := Some (err_text e), UpdatedAt := utc now\<rparr>)"

lemma final_row_None: "fst (handleTask p) = None \<Longrightarrow> final_row p now =
    (\<lambda>t. t\<lparr>Status := ''SUCCESS'', ResultFile := Some ''result.txt'', UpdatedAt := utc now\<rparr>)"
  by (simp add: final_row_def fun_eq_iff)

lemma final_row_Some: "fst (handleTask p) = Some e \<Longrightarrow> final_row p now =
    (\<lambda>t. t\<lparr>Status := ''FAILED'', ErrorMessage := Some (err_text e), UpdatedAt := utc now\<rparr>)"
  by (simp add: final_row_def fun_eq_iff)

lemma final_row_id [simp]: "ID (final_row p now t) = ID t"
  by (simp add: final_row_def split: option.split)

lemma final_row_after_processing [simp]:
  "final_row p now (t\<lparr>Status := s, UpdatedAt := utc n\<rparr>) = final_row p now t"
  by (simp add: final_row_def split: option.split)

lemma final_row_again: "final_row p n' (final_row p n t) = (final_row p n t)\<lparr>UpdatedAt := utc n'\<rparr>"
  by (simp add: final_row_def split: option.split)

definition texts_ok :: "driver \<Rightarrow> task_payload \<Rightarrow> bool" where
  "texts_ok drv p \<longleftrightarrow> text_error drv ''result.txt'' = None \<and>
     text_error drv (''unknown task type: '' @ payload_TaskType p) = None"

lemma mark_result_final:
  assumes "int4_ok (payload_ID p)" and "texts_ok drv p"
  shows "run_stmt plain_tx (mark_result (NewTaskRepository drv) (plain_stmt now 0) (payload_ID p)
      (fst (handleTask p))) db = (None, update_tasks (payload_ID p) (final_row p now) db)"
  using assms handleTask_unknown [of p]
  by (cases "fst (handleTask p)") (simp_all add: run_stmt_plain mark_result_def NewTaskRepository_def
      TaskRepository_MarkFailed_def TaskRepository_MarkSuccess_def plain_stmt_def texts_ok_def
      final_row_None final_row_Some)

lemma handle_delivery_plain:
  assumes "unmarshal_payload (Body msg) = Some p" and "int4_ok (payload_ID p)" and "texts_ok drv p"
  shows "handle_delivery (NewTaskRepository drv) (plain_worker_env now) msg db =
    (update_tasks (payload_ID p) (final_row p now) db, [Ack])"
proof -
  let ?i = "payload_ID p"
  let ?proc = "\<lambda>t. t\<lparr>Status := ''PROCESSING'', UpdatedAt := utc now\<rparr>"
  have "run_stmt plain_tx (TaskRepository_MarkProcessing drv (plain_stmt now 0) ?i) db =
      (None, update_tasks ?i ?proc db)"
    using assms(2) by (simp add: run_stmt_plain TaskRepository_MarkProcessing_def plain_stmt_def)
  moreover have "update_tasks ?i (final_row p now) (update_tasks ?i ?proc db) = update_tasks ?i (final_row p now) db"
    by (simp add: update_tasks_twice)
  ultimately show ?thesis using assms(1) mark_result_final [OF assms(2,3)]
    by (simp add: handle_delivery_def plain_worker_env_def NewTaskRepository_def)
qed

text \<open>The libraries of the examples: a driver that accepts every text.\<close>

definition plain_driver :: driver where
  "plain_driver = \<lparr>drv_int4 = ErrorString ''integer out of range'',
     drv_varchar = ErrorString ''value too long'',
     drv_encoding = (\<lambda>_. ErrorString ''invalid byte sequence''), drv_text = (\<lambda>_. None),
     drv_unique = (\<lambda>c. LibError (''ERROR: duplicate key value violates unique constraint '' @ c) [])\<rparr>"

definition plain_create_env :: "int \<Rightarrow> int \<Rightarrow> create_env" where
  "plain_create_env now i =
     \<lparr>ce_tx = plain_tx, ce_stmt = plain_stmt now i, ce_channel = None, ce_publish = Publish_ok\<rparr>"

definition example_task :: task where
  "example_task = \<lparr>ID = 7, UserID = 3, TaskType = ''send_email'', Status = ''PENDING'',
     ResultFile = None, ErrorMessage = None, CreatedAt = utc 5, UpdatedAt = utc 5\<rparr>"

definition example_db :: database where
  "example_db = \<lparr>tasks_tbl = [example_task], users_tbl = []\<rparr>"

definition example_world :: "(string \<rightharpoonup> string) svc_world" where
  "example_world = \<lparr>w_db = example_db, w_redis = Map.empty, w_published = []\<rparr>"

definition example_ctx :: gin_ctx where
  "example_ctx = \<lparr>ctx_keys = [UserIDKey \<mapsto> AnyInt 3], ctx_header = (\<lambda>_. []), ctx_param = (\<lambda>_. ''7'')\<rparr>"

abbreviation example_service :: "(string \<rightharpoonup> string) svc_world task_service" where
  "example_service \<equiv> NewTaskService (NewTaskRepository plain_driver) map_redis
     (\<lambda>_. True) (plain_create_env 9 8) plain_query"

lemma example_user: "GetUserIDFromContext example_ctx = Inr 3"
  by (simp add: GetUserIDFromContext_def example_ctx_def)

lemma example_param: "strconv_Atoi (ctx_param example_ctx ''id'') = Inr 7"
  by code_simp

lemma example_at: "task_at example_db i = (if i = 7 then Some example_task else None)"
  by (auto simp: task_at_def example_db_def example_task_def)

lemma plain_text_error [simp]: "text_error plain_driver s = None \<longleftrightarrow> valid_utf8 s"
  by (simp add: text_error_None plain_driver_def)

lemma text_error_plain: "valid_utf8 s \<Longrightarrow> text_error plain_driver s = None"
  by simp

lemma example_valid: "valid_utf8 ''send_email''" "valid_utf8 ''PENDING''" "valid_utf8 ''result.txt''"
  "valid_utf8 (''unknown task type: '' @ ''send_email'')"
  by simp_all

lemma example_fits: "row_fits example_task"
  using example_valid
  by (simp add: row_fits_def example_task_def int4_ok_def rune_count_def is_continuation_def)

lemma example_inv: "svc_inv map_redis (\<lambda>r. r) plain_query example_world"
  by (simp add: svc_inv_def map_redis_laws order_ok_plain wf_db_def example_world_def
      example_db_def cache_backed_def example_fits)

text \<open>The texts the example is cached as.\<close>

definition example_json :: string where
  "example_json = projr (marshal_task example_task)"

definition example_list_json :: string where
  "example_list_json = projr (marshal_tasks [example_task])"

lemma example_marshal: "marshal_task example_task = Inr example_json"
  "marshal_tasks [example_task] = Inr example_list_json"
proof -
  have "\<not> isl (marshal_task example_task)"
    by (simp add: marshal_task_ok task_writable_def writable_def example_task_def)
  then obtain s where "marshal_task example_task = Inr s" by (cases "marshal_task example_task") simp_all
  then show "marshal_task example_task = Inr example_json"
    "marshal_tasks [example_task] = Inr example_list_json"
    by (simp_all add: example_json_def example_list_json_def marshal_tasks_def)
qed

lemma example_handled: "handle_delivery (NewTaskRepository plain_driver) (plain_worker_env 6)
    (task_message (\<lambda>_. True) example_task) example_db =
  (update_tasks 7 (final_row \<lparr>payload_ID = 7, payload_UserID = 3, payload_TaskType = ''send_email''\<rparr> 6)
     example_db, [Ack])"
proof -
  let ?p = "\<lparr>payload_ID = 7, payload_UserID = 3, payload_TaskType = ''send_email''\<rparr>"
  have "json_safe (\<lambda>_. True) ''send_email''" by (rule ascii_json_safe) code_simp
  then have "unmarshal_payload (Body (task_message (\<lambda>_. True) example_task)) = Some ?p"
    by (simp add: unmarshal_task_body example_task_def in_int64_def)
  from handle_delivery_plain [OF this, of plain_driver 6 example_db] show ?thesis
    by (simp add: int4_ok_def texts_ok_def)
qed

subsection \<open>The message\<close>

text \<open>
  C8: The hand-written JSON body of service.go and the decoder of worker.go agree: for every
  task whose id and owner are 64-bit integers, the worker reads back exactly the id, the
  owner and the type of the task when the Go quotation of the type is JSON, and rejects the
  message (it is then dropped) when it is not.
\<close>

theorem message_roundtrip:
  assumes "in_int64 (ID t)" and "in_int64 (UserID t)"
  shows "unmarshal_payload (Body (task_message is_print t)) =
    (if json_safe is_print (TaskType t)
     then Some \<lparr>payload_ID = ID t, payload_UserID = UserID t, payload_TaskType = TaskType t\<rparr>
     else None)"
  using assms by (simp add: unmarshal_task_body)

theorem message_roundtrip_witness:
  "unmarshal_payload (Body (task_message (\<lambda>_. True) example_task)) =
     Some \<lparr>payload_ID = 7, payload_UserID = 3, payload_TaskType = ''send_email''\<rparr>"
proof -
  have "json_safe (\<lambda>_. True) ''send_email''" by (rule ascii_json_safe) code_simp
  with message_roundtrip [of example_task "\<lambda>_. True"] show ?thesis
    by (simp add: example_task_def in_int64_def)
qed

text \<open>
  The type of a task that the worker knows always survives the message, and so does every
  type of printable ASCII characters.
\<close>

lemma printable_types_survive:
  assumes "ascii_printable ty" and "in_int64 i" and "in_int64 u"
  shows "unmarshal_payload (Body (task_message is_print ((pending_task u ty)\<lparr>ID := i\<rparr>))) =
    Some \<lparr>payload_ID = i, payload_UserID = u, payload_TaskType = ty\<rparr>"
  using assms ascii_json_safe [OF assms(1)] by (simp add: unmarshal_task_body pending_task_def)

lemma printable_type_example:
  "unmarshal_payload (Body (task_message is_print ((pending_task 3 ''IMAGE RESIZE (v2)'')\<lparr>ID := 7\<rparr>))) =
     Some \<lparr>payload_ID = 7, payload_UserID = 3, payload_TaskType = ''IMAGE RESIZE (v2)''\<rparr>"
proof (rule printable_types_survive)
  show "ascii_printable ''IMAGE RESIZE (v2)''" by code_simp
qed (simp_all add: in_int64_def)

subsection \<open>The worker\<close>

text \<open>
  C12: Every delivery is settled exactly once: the commands of one iteration of the worker end
  in one Ack or Nack, before which there is none; a message is republished at most once
  and before that acknowledgement. This holds for every fault of the database and the broker.
\<close>

theorem delivery_settled_once:
  "\<exists>pre c. snd (handle_delivery R env msg db) = pre @ [c] \<and> is_settle c \<and>
     list_all (\<lambda>x. \<not> is_settle x) pre \<and> length pre \<le> 1"
proof -
  have "length (snd (retry_or_give_up R env msg i db')) \<le> 2" for i db'
    by (simp add: retry_or_give_up_def Let_def split: option.split)
  then have "length (snd (handle_delivery R env msg db)) \<le> 2"
    by (simp add: handle_delivery_def split: option.split prod.split)
  with handle_delivery_settles [of R env msg db] show ?thesis by (auto simp: list_all_iff)
qed

text \<open>
  C11: Retries end: along any chain of republications of a message, each with any faults, the
  counter in the 32-bit header never wraps, and starting at a count k at least 0 there are at
  most 3 - k republications; the body, the content type and the queue stay the same.
\<close>

theorem retries_bounded:
  assumes "(republishes ^^ n) msg msg'" and "0 \<le> sint (retry_count msg)" and "0 < n"
  shows "sint (retry_count msg') = sint (retry_count msg) + int n \<and> sint (retry_count msg') \<le> 3 \<and>
    Body msg' = Body msg \<and> ContentType msg' = ContentType msg \<and> RoutingKey msg' = RoutingKey msg"
proof -
  note c = republishes_relpow [OF assms(1)]
  with republishes_bound [OF assms(1,3)] have "sint (retry_count msg') \<le> 3" by simp
  moreover have "Body msg' = Body msg \<and> ContentType msg' = ContentType msg \<and> RoutingKey msg' = RoutingKey msg"
    using assms(1)
  proof (induction n arbitrary: msg')
    case (Suc n)
    then obtain m where "(republishes ^^ n) msg m" "republishes m msg'" by auto
    with Suc.IH republishes_count(3-5) show ?case by metis
  qed simp
  ultimately show ?thesis using c by simp
qed

definition lost_commit_env :: worker_env where
  "lost_commit_env = (plain_worker_env 6)\<lparr>we_tx2 := \<lparr>tx_begin_err = None,
     tx_commit = Commit_lost (ErrorString ''connection lost'')\<rparr>\<rparr>"

lemma example_republish:
  assumes "json_safe (\<lambda>_. True) ''send_email''"
  shows "republishes (task_message (\<lambda>_. True) example_task)
     (retry_message (task_message (\<lambda>_. True) example_task) 1)"
proof -
  have "unmarshal_payload (Body (task_message (\<lambda>_. True) example_task)) =
     Some \<lparr>payload_ID = 7, payload_UserID = 3, payload_TaskType = ''send_email''\<rparr>"
    using assms by (simp add: unmarshal_task_body example_task_def in_int64_def)
  then have "Republish (retry_message (task_message (\<lambda>_. True) example_task) 1) Publish_ok \<in>
      set (snd (handle_delivery (NewTaskRepository plain_driver) lost_commit_env
        (task_message (\<lambda>_. True) example_task) example_db))"
    by (simp add: handle_delivery_def lost_commit_env_def plain_worker_env_def NewTaskRepository_def
        TaskRepository_MarkProcessing_def TaskRepository_MarkSuccess_def mark_result_def handleTask_def
        processSendEmail_def plain_stmt_def text_error_plain int4_ok_def run_stmt_eq plain_tx_def
        retry_or_give_up_def publish_err_def word_sle_eq Let_def)
  then show ?thesis unfolding republishes_def by blast
qed

theorem retries_bounded_witness:
  "sint (retry_count (retry_message (task_message (\<lambda>_. True) example_task) 1)) \<le> 3"
proof -
  have "json_safe (\<lambda>_. True) ''send_email''" by (rule ascii_json_safe) code_simp
  then have "(republishes ^^ 1) (task_message (\<lambda>_. True) example_task)
      (retry_message (task_message (\<lambda>_. True) example_task) 1)"
    using example_republish by (simp only: relpowp_1)
  from retries_bounded [OF this] show ?thesis by simp
qed

text \<open>
  C9: One iteration of the worker refines the life cycle of a row: it changes nothing, or it
  takes the row with the id in the message through steps of the life cycle (mark as
  processing, success or failure), whatever faults occur; no row appears or goes, every other
  row and all users stay as they are, and the keys of the tables stay distinct.
\<close>

theorem worker_refines_lifecycle:
  assumes "handle_delivery (NewTaskRepository drv) env msg db = (db', cmds)" and "wf_db db"
  shows "users_tbl db' = users_tbl db \<and> wf_db db' \<and> map ID (tasks_tbl db') = map ID (tasks_tbl db) \<and>
    (\<forall>j. task_at db j = None \<longrightarrow> task_at db' j = None) \<and>
    (\<forall>j t. task_at db j = Some t \<longrightarrow> (\<exists>t'. task_at db' j = Some t' \<and> task_step\<^sup>*\<^sup>* t t' \<and>
      (t' \<noteq> t \<longrightarrow> (\<exists>p. unmarshal_payload (Body msg) = Some p \<and> payload_ID p = j))))"
proof (cases "db' = db")
  case True
  with assms(2) show ?thesis by auto
next
  case False
  with task_repo.handle_delivery_steps [OF assms(1)] obtain p where
    p: "unmarshal_payload (Body msg) = Some p" and st: "steps_at (payload_ID p) db db'" by blast
  have "\<exists>t'. task_at db' j = Some t' \<and> task_step\<^sup>*\<^sup>* t t' \<and> (t' \<noteq> t \<longrightarrow> payload_ID p = j)"
    if "task_at db j = Some t" for j t
    using that steps_at_row(2,4) [OF st] by (cases "j = payload_ID p") auto
  with p steps_at_row(1,3) [OF st] steps_at_keys [OF st] steps_at_wf [OF st assms(2)] show ?thesis by metis
qed

theorem worker_refines_lifecycle_witness:
  "\<exists>t'. task_at (fst (handle_delivery (NewTaskRepository plain_driver) (plain_worker_env 6)
      (task_message (\<lambda>_. True) example_task) example_db)) 7 = Some t' \<and> task_step\<^sup>*\<^sup>* example_task t'"
proof -
  have wf: "wf_db example_db" by (simp add: wf_db_def example_db_def example_fits)
  obtain db' cmds where h: "handle_delivery (NewTaskRepository plain_driver) (plain_worker_env 6)
      (task_message (\<lambda>_. True) example_task) example_db = (db', cmds)" by fastforce
  have "task_at example_db 7 = Some example_task" by (simp add: example_at)
  with worker_refines_lifecycle [OF h wf] h show ?thesis by fastforce
qed

text \<open>
  C32: Redelivery is harmless when nothing fails: handling a message a second time leaves every
  row as the first handling left it, except for the time of its update.
\<close>

theorem redelivery_idempotent:
  assumes "unmarshal_payload (Body msg) = Some p" and "int4_ok (payload_ID p)" and "texts_ok drv p"
    and "handle_delivery (NewTaskRepository drv) (plain_worker_env n1) msg db = (db1, cmds1)"
    and "handle_delivery (NewTaskRepository drv) (plain_worker_env n2) msg db1 = (db2, cmds2)"
  shows "cmds2 = [Ack] \<and>
    task_at db2 (payload_ID p) = map_option (\<lambda>t. t\<lparr>UpdatedAt := utc n2\<rparr>) (task_at db1 (payload_ID p)) \<and>
    (\<forall>j. j \<noteq> payload_ID p \<longrightarrow> task_at db2 j = task_at db j)"
proof -
  have "db1 = update_tasks (payload_ID p) (final_row p n1) db"
    "db2 = update_tasks (payload_ID p) (final_row p n2) db1" "cmds2 = [Ack]"
    using assms(4,5) handle_delivery_plain [OF assms(1-3)] by simp_all
  then show ?thesis
    by (simp add: task_at_update_tasks final_row_again option.map_comp comp_def)
qed

theorem redelivery_idempotent_witness:
  "\<exists>db1 db2 cmds1. handle_delivery (NewTaskRepository plain_driver) (plain_worker_env 6)
      (task_message (\<lambda>_. True) example_task) example_db = (db1, cmds1) \<and>
     handle_delivery (NewTaskRepository plain_driver) (plain_worker_env 9)
      (task_message (\<lambda>_. True) example_task) db1 = (db2, [Ack]) \<and>
     task_at db2 7 = map_option (\<lambda>t. t\<lparr>UpdatedAt := utc 9\<rparr>) (task_at db1 7)"
proof -
  let ?m = "task_message (\<lambda>_. True) example_task"
  let ?p = "\<lparr>payload_ID = 7, payload_UserID = 3, payload_TaskType = ''send_email''\<rparr>"
  let ?db1 = "update_tasks 7 (final_row ?p 6) example_db"
  have "json_safe (\<lambda>_. True) ''send_email''" by (rule ascii_json_safe) code_simp
  then have u: "unmarshal_payload (Body ?m) = Some ?p"
    by (simp add: unmarshal_task_body example_task_def in_int64_def)
  have i: "int4_ok (payload_ID ?p)" "texts_ok plain_driver ?p"
    by (simp_all add: int4_ok_def texts_ok_def)
  obtain db2 cmds2 where h: "handle_delivery (NewTaskRepository plain_driver) (plain_worker_env 9) ?m ?db1
      = (db2, cmds2)" by fastforce
  from redelivery_idempotent [OF u i example_handled h] h example_handled show ?thesis by auto
qed

end
