(* ===== verification/Progress.thy ===== *)
theory Progress
  imports System Task_Properties
begin

section \<open>Progress: no message is ever stuck\<close>

text \<open>
  The liveness side of System: a worker in any state can always come back to Idle, whatever
  faults it meets, and a message with the broker can then be delivered and completed. The
  number of steps a worker needs is bounded by its \<open>rank\<close>.
\<close>

fun rank :: "wstate \<Rightarrow> nat" where
  "rank Idle = 0"
| "rank (Unrecorded m p) = 1"
| "rank (Processing m p) = 2"
| "rank (Received m) = 3"

lemma rank_0: "rank s = 0 \<longleftrightarrow> s = Idle"
  by (cases s) simp_all

lemma worker_step_rank: "worker_step R env s db = (s', db', cmds) \<Longrightarrow> s \<noteq> Idle \<Longrightarrow> rank s' < rank s"
  by (cases s) (auto simp: worker_step_def split: option.splits prod.splits)

text \<open>What the system looks like after a step of one of its workers.\<close>

definition worked :: "nat \<Rightarrow> wstate \<Rightarrow> database \<Rightarrow> broker_cmd list \<Rightarrow> 'r system \<Rightarrow> 'r system" where
  "worked i ws db cmds s =
     s\<lparr>sy_world := (sy_world s)\<lparr>w_db := db, w_published := w_published (sy_world s) @ sent_of cmds\<rparr>,
       sy_workers := (sy_workers s)[i := ws]\<rparr>"

lemma worked_simps [simp]:
  "w_db (sy_world (worked i ws db cmds s)) = db"
  "w_published (sy_world (worked i ws db cmds s)) = w_published (sy_world s) @ sent_of cmds"
  "sy_workers (worked i ws db cmds s) = (sy_workers s)[i := ws]"
  by (simp_all add: worked_def)

lemma work_worked:
  assumes "i < length (sy_workers s)"
    and "worker_step (NewTaskRepository drv) env (sy_workers s ! i) (w_db (sy_world s)) = (ws, db, cmds)"
  shows "sys_step drv C B view is_print s (worked i ws db cmds s)"
  unfolding worked_def by (rule sys_step.work [OF assms])

lemma becomes_idle:
  assumes "i < length (sy_workers s)"
  shows "\<exists>s'. (sys_step drv C B view is_print)\<^sup>*\<^sup>* s s' \<and> i < length (sy_workers s') \<and>
    sy_workers s' ! i = Idle \<and> set (w_published (sy_world s)) \<subseteq> set (w_published (sy_world s'))"
  using assms
proof (induction "rank (sy_workers s ! i)" arbitrary: s rule: less_induct)
  case less
  show ?case
  proof (cases "sy_workers s ! i = Idle")
    case True
    with less.prems show ?thesis by blast
  next
    case False
    obtain ws db cmds where w: "worker_step (NewTaskRepository drv) (plain_worker_env 0) (sy_workers s ! i)
        (w_db (sy_world s)) = (ws, db, cmds)" by (metis prod_cases3)
    let ?s1 = "worked i ws db cmds s"
    note one = work_worked [OF less.prems w, of C B view is_print]
    have "rank (sy_workers ?s1 ! i) < rank (sy_workers s ! i)"
      using worker_step_rank [OF w False] less.prems by simp
    from less.hyps [OF this] less.prems obtain s' where
      run: "(sys_step drv C B view is_print)\<^sup>*\<^sup>* ?s1 s'" "i < length (sy_workers s')" "sy_workers s' ! i = Idle"
      "set (w_published (sy_world ?s1)) \<subseteq> set (w_published (sy_world s'))" by auto
    from one run(1) have "(sys_step drv C B view is_print)\<^sup>*\<^sup>* s s'"
      by (rule converse_rtranclp_into_rtranclp)
    with run(2-4) show ?thesis by auto
  qed
qed

text \<open>A worker that takes a message and meets no fault completes its task in two transactions.\<close>

lemma completes:
  assumes i: "i < length (sy_workers s)" and idle: "sy_workers s ! i = Idle"
    and msg: "msg \<in> set (w_published (sy_world s))" and un: "unmarshal_payload (Body msg) = Some p"
    and ok: "int4_ok (payload_ID p)" "texts_ok drv p"
  shows "\<exists>s'. (sys_step drv C B view is_print)\<^sup>*\<^sup>* s s' \<and>
    w_db (sy_world s') = update_tasks (payload_ID p) (final_row p now) (w_db (sy_world s)) \<and>
    sy_workers s' ! i = Idle"
proof -
  let ?R = "NewTaskRepository drv" and ?e = "plain_worker_env now" and ?db = "w_db (sy_world s)"
  let ?s1 = "s\<lparr>sy_workers := (sy_workers s)[i := Received msg]\<rparr>"
  note d = sys_step.deliver [OF i idle msg, of drv C B view is_print]
  obtain ws1 db1 c1 where w1: "worker_step ?R ?e (Received msg) ?db = (ws1, db1, c1)" by (metis prod_cases3)
  let ?s2 = "worked i ws1 db1 c1 ?s1"
  have st1: "sys_step drv C B view is_print ?s1 ?s2" by (rule work_worked) (use i w1 in simp_all)
  obtain ws2 db2 c2 where w2: "worker_step ?R ?e ws1 db1 = (ws2, db2, c2)" by (metis prod_cases3)
  let ?s3 = "worked i ws2 db2 c2 ?s2"
  have st2: "sys_step drv C B view is_print ?s2 ?s3" by (rule work_worked) (use i w2 in simp_all)
  obtain ws3 db3 c3 where w3: "worker_step ?R ?e ws2 db2 = (ws3, db3, c3)" by (metis prod_cases3)
  let ?s4 = "worked i ws3 db3 c3 ?s3"
  have st3: "sys_step drv C B view is_print ?s3 ?s4" by (rule work_worked) (use i w3 in simp_all)
  from worker_steps_iteration [of ?R ?e msg ?db] handle_delivery_plain [OF un ok, of now ?db]
  have "ws3 = Idle \<and> db3 = update_tasks (payload_ID p) (final_row p now) ?db"
    by (simp add: then_step_def w1 w2 w3)
  moreover have "(sys_step drv C B view is_print)\<^sup>*\<^sup>* s ?s4"
    using d st1 st2 st3 by (meson rtranclp.rtrancl_into_rtrancl rtranclp.rtrancl_refl)
  ultimately show ?thesis using i by (intro exI [of _ ?s4]) simp
qed

lemma final_row_status:
  "Status (final_row p now t) = (if payload_TaskType p \<in> set known_types then ''SUCCESS'' else ''FAILED'')"
  using handleTask_known [of p] by (cases "fst (handleTask p)") (auto simp: final_row_None final_row_Some)

lemma message_completes:
  assumes inv: "sys_inv view is_print s" and laws: "redis_laws C view"
    and msg: "msg \<in> set (w_published (sy_world s))" and un: "unmarshal_payload (Body msg) = Some p"
    and texts: "texts_ok drv p" and workers: "sy_workers s \<noteq> []"
  shows "\<exists>s' r. (sys_step drv C B view is_print)\<^sup>*\<^sup>* s s' \<and> task_at (w_db (sy_world s')) (payload_ID p) = Some r \<and>
    Status r = (if payload_TaskType p \<in> set known_types then ''SUCCESS'' else ''FAILED'')"
proof -
  from workers have "0 < length (sy_workers s)" by simp
  from becomes_idle [OF this, of drv C B view is_print] obtain s1 where
    run1: "(sys_step drv C B view is_print)\<^sup>*\<^sup>* s s1" and i: "0 < length (sy_workers s1)" "sy_workers s1 ! 0 = Idle"
    and pub: "set (w_published (sy_world s)) \<subseteq> set (w_published (sy_world s1))" by blast
  from sys_steps_inv [OF laws sys_steps_any [OF run1] inv] have inv1: "sys_inv view is_print s1" ..
  from msg pub have msg1: "msg \<in> set (w_published (sy_world s1))" by blast
  with inv1 have "msg_ok is_print (w_db (sy_world s1)) msg" by (simp add: sys_inv_def world_ok_def)
  from msg_ok_payload [OF this un] obtain r where
    ok: "int4_ok (payload_ID p)" "task_at (w_db (sy_world s1)) (payload_ID p) = Some r" by auto
  from completes [OF i msg1 un ok(1) texts, of C B view is_print 0] obtain s2 where
    run2: "(sys_step drv C B view is_print)\<^sup>*\<^sup>* s1 s2"
    and db: "w_db (sy_world s2) = update_tasks (payload_ID p) (final_row p 0) (w_db (sy_world s1))" by blast
  have "task_at (w_db (sy_world s2)) (payload_ID p) = Some (final_row p 0 r)"
    using ok(2) by (simp add: db task_at_update_tasks)
  with rtranclp_trans [OF run1 run2] final_row_status show ?thesis by blast
qed

end
