(* ===== verification/Statuses.thy ===== *)
theory Statuses
  imports System
begin

section \<open>What the status of a task says\<close>

text \<open>
  In the running system a row is SUCCESS only if the worker knows its type, and FAILED only with
  one of two reasons: its type is unknown, or the retries were used up. The row and the message
  need not agree on the type, since the column cuts spaces; they agree on whether it is known.
\<close>

definition status_ok :: "task \<Rightarrow> bool" where
  "status_ok t \<longleftrightarrow>
     (Status t = ''SUCCESS'' \<longrightarrow> TaskType t \<in> set known_types \<and> ResultFile t = Some ''result.txt'') \<and>
     (Status t = ''FAILED'' \<longrightarrow> ErrorMessage t = Some ''max retries reached'' \<or>
        TaskType t \<notin> set known_types \<and>
        (\<exists>ty. varchar 50 ty = Some (TaskType t) \<and> ErrorMessage t = Some (''unknown task type: '' @ ty)))"

abbreviation statuses_ok :: "database \<Rightarrow> bool" where
  "statuses_ok db \<equiv> list_all status_ok (tasks_tbl db)"

subsection \<open>Known types in the column\<close>

lemma varchar_cut: "varchar n s = Some v \<Longrightarrow> v = s \<or> rune_count v = n"
proof (induction n s rule: varchar.induct)
  case (1 n s)
  show ?case
  proof (cases "rune_count s \<le> n")
    case True
    with "1.prems" show ?thesis by (simp add: varchar_fits)
  next
    case False
    with "1.prems" have s: "s \<noteq> []" "last s = CHR '' ''" "varchar n (butlast s) = Some v"
      by (subst (asm) varchar.simps, simp split: if_splits)+
    then have "s = butlast s @ [CHR '' '']" by (metis append_butlast_last_id)
    then have "rune_count s = rune_count (butlast s @ [CHR '' ''])" by simp
    then have "rune_count s = Suc (rune_count (butlast s))" by (simp add: rune_count_def is_continuation_def)
    moreover from False s "1.IH" have "v = butlast s \<or> rune_count v = n" by blast
    moreover have "rune_count v \<le> n" using varchar_bound [OF s(3)] .
    ultimately show ?thesis using False by auto
  qed
qed

lemma known_types_short: "ty \<in> set known_types \<Longrightarrow> rune_count ty < 50"
  by (auto simp: known_types_def rune_count_def is_continuation_def)

lemma varchar_known:
  assumes "varchar 50 ty = Some v"
  shows "v \<in> set known_types \<longleftrightarrow> ty \<in> set known_types"
proof
  assume "v \<in> set known_types"
  with known_types_short [of v] varchar_cut [OF assms] show "ty \<in> set known_types" by auto
next
  assume ty: "ty \<in> set known_types"
  with varchar_fits [of ty 50] known_types_short [OF ty] assms show "v \<in> set known_types" by simp
qed

subsection \<open>Steps of the worker\<close>

lemma statuses_update:
  assumes "statuses_ok db" and "\<And>t. t \<in> set (tasks_tbl db) \<Longrightarrow> ID t = i \<Longrightarrow> status_ok (f t)"
  shows "statuses_ok (update_tasks i f db)"
  using assms by (auto simp: update_tasks_def update_at_def list_all_iff)

lemma msg_ok_type:
  assumes "msg_ok is_print db msg" and "unmarshal_payload (Body msg) = Some p" and "wf_db db"
    and "r \<in> set (tasks_tbl db)" and "ID r = payload_ID p"
  shows "varchar 50 (payload_TaskType p) = Some (TaskType r)"
proof -
  from assms(1) obtain t where t: "Body msg = task_body is_print t" "refers db t"
    unfolding msg_ok_def by blast
  then have "in_int64 (ID t)" "in_int64 (UserID t)" by (auto simp: refers_def int4_int64)
  from unmarshal_task_body [OF this] assms(2) t
  have p: "payload_ID p = ID t" "payload_TaskType p = TaskType t" by (auto split: if_splits)
  from task_at_mem [OF assms(3,4)] assms(5) p(1) have "task_at db (ID t) = Some r" by simp
  with t(2) p(2) show ?thesis by (auto simp: refers_def)
qed

lemma mark_processing_statuses:
  assumes "statuses_ok db" and "run_stmt env (TaskRepository_MarkProcessing drv st i) db = (r, db')"
  shows "statuses_ok db'"
proof (cases "db' = db")
  case False
  with run_stmt_store [OF assms(2)] task_repo.processing_ok [of drv st i db db']
  have "db' = update_tasks i (\<lambda>t. t\<lparr>Status := ''PROCESSING'', UpdatedAt := utc (st_now st)\<rparr>) db"
    by (simp add: NewTaskRepository_def)
  with statuses_update [OF assms(1)] show ?thesis by (simp add: status_ok_def)
qed (use assms(1) in simp)

lemma mark_result_statuses:
  assumes "statuses_ok db" and "run_stmt env (mark_result (NewTaskRepository drv) st (payload_ID p) (fst (handleTask p))) db = (r, db')"
    and type: "\<And>t. t \<in> set (tasks_tbl db) \<Longrightarrow> ID t = payload_ID p \<Longrightarrow> varchar 50 (payload_TaskType p) = Some (TaskType t)"
  shows "statuses_ok db'"
proof (cases "db' = db")
  case False
  with run_stmt_store [OF assms(2)]
  have run: "mark_result (NewTaskRepository drv) st (payload_ID p) (fst (handleTask p)) db = (None, db')" by blast
  show ?thesis
  proof (cases "fst (handleTask p)")
    case None
    with run task_repo.success_ok have db': "db' = update_tasks (payload_ID p)
        (\<lambda>t. t\<lparr>Status := ''SUCCESS'', ResultFile := Some ''result.txt'', UpdatedAt := utc (st_now st)\<rparr>) db"
      by (auto simp: mark_result_def)
    have "payload_TaskType p \<in> set known_types" using None handleTask_known by simp
    with type varchar_known show ?thesis
      unfolding db' by (intro statuses_update [OF assms(1)]) (fastforce simp: status_ok_def)
  next
    case (Some e)
    then have e: "err_text e = ''unknown task type: '' @ payload_TaskType p"
      using handleTask_unknown [OF Some] by simp
    from Some run task_repo.failed_ok have db': "db' = update_tasks (payload_ID p)
        (\<lambda>t. t\<lparr>Status := ''FAILED'', ErrorMessage := Some (err_text e), UpdatedAt := utc (st_now st)\<rparr>) db"
      by (auto simp: mark_result_def)
    have "payload_TaskType p \<notin> set known_types" using Some handleTask_known [of p] by simp
    with type varchar_known show ?thesis
      unfolding db' e by (intro statuses_update [OF assms(1)]) (fastforce simp: status_ok_def)
  qed
qed (use assms(1) in simp)

lemma give_up_statuses:
  assumes "statuses_ok db" and "retry_or_give_up (NewTaskRepository drv) env msg i db = (db', cmds)"
  shows "statuses_ok db'"
proof (cases "db' = db")
  case False
  let ?run = "run_stmt (we_tx3 env) (repo_MarkFailed (NewTaskRepository drv) (we_st3 env) i ''max retries reached'') db"
  from assms(2) False have "?run = (fst ?run, db')"
    by (auto simp: retry_or_give_up_def Let_def split: if_splits option.splits)
  from run_stmt_store [OF this] False task_repo.failed_ok
  have db': "db' = update_tasks i (\<lambda>t. t\<lparr>Status := ''FAILED'', ErrorMessage := Some ''max retries reached'',
      UpdatedAt := utc (st_now (we_st3 env))\<rparr>) db" by blast
  show ?thesis unfolding db' by (intro statuses_update [OF assms(1)]) (simp add: status_ok_def)
qed (use assms(1) in simp)

lemma worker_step_statuses:
  assumes st: "statuses_ok db" and wf: "wf_db db" and ok: "worker_ok msgs ws"
    and msgs: "\<And>m. m \<in> msgs \<Longrightarrow> msg_ok is_print db m"
    and run: "worker_step (NewTaskRepository drv) env ws db = (ws', db', cmds)"
  shows "statuses_ok db'"
proof (cases ws)
  case Idle
  with run st show ?thesis by (simp add: worker_step_def)
next
  case (Received m)
  with run st mark_processing_statuses [OF st] show ?thesis
    by (fastforce simp: worker_step_def NewTaskRepository_def split: option.splits prod.splits)
next
  case (Processing m p)
  with ok msgs have "msg_ok is_print db m" "unmarshal_payload (Body m) = Some p" by (auto simp: worker_ok_def)
  from mark_result_statuses [OF st _ msg_ok_type [OF this wf]] Processing run show ?thesis
    by (auto simp: worker_step_def split: option.splits prod.splits)
next
  case (Unrecorded m p)
  with run give_up_statuses [OF st] show ?thesis
    by (auto simp: worker_step_def split: prod.splits)
qed

subsection \<open>Steps of the system\<close>

lemma create_txn_statuses:
  assumes "statuses_ok db" and "create_txn (NewTaskRepository drv) env (pending_task u ty) db = (x, db')"
  shows "statuses_ok db'"
proof (cases "db' = db")
  case False
  with create_txn_cases [OF assms(2)] obtain i where
    "TaskRepository_Create drv (ce_stmt env) (pending_task u ty) db = (Inr i, db')"
    by (auto simp: NewTaskRepository_def)
  from Create_ok [OF this] obtain r where r: "created_row (ce_stmt env) (pending_task u ty) r"
    "tasks_tbl db' = tasks_tbl db @ [r]" by blast
  have "Status r = ''PENDING''" using r(1) varchar_pending by (simp add: created_row_def pending_task_def)
  with assms(1) r(2) show ?thesis by (simp add: status_ok_def)
qed (use assms(1) in simp)

lemma request_step_statuses:
  assumes st: "statuses_ok (w_db w)" and wf: "wf_db (w_db w)" and x: "request_ok (w_db w) x"
    and run: "request_step (NewTaskRepository drv) (NewUserRepository drv) C B is_print env x w = (x', w')"
  shows "statuses_ok (w_db w')"
proof (cases x)
  case (Creating t)
  with x obtain u ty where "t = pending_task u ty" by (auto simp: request_ok_def)
  with run Creating create_txn_statuses [OF st] show ?thesis
    by (auto simp: request_step_def split: prod.splits)
next
  case (Inserting n h)
  with run insert_user_ok [OF wf] st show ?thesis by (auto simp: request_step_def)
qed (use run st in \<open>auto simp: request_step_def split: option.splits sum.splits\<close>)

lemma sys_any_statuses:
  assumes step: "sys_any drv C B view is_print s s'" and inv: "sys_inv view is_print s"
    and st: "statuses_ok (w_db (sy_world s))"
  shows "statuses_ok (w_db (sy_world s'))"
  using step unfolding sys_any_def
proof
  have w: "world_ok view is_print (sy_world s)" by (rule sys_invD(1) [OF inv])
  then have wf: "wf_db (w_db (sy_world s))" by (simp add: world_ok_def)
  assume "sys_step drv C B view is_print s s'"
  then show ?thesis
  proof cases
    case (request i env x w')
    have "request_ok (w_db (sy_world s)) (sy_requests s ! i)" using sys_invD(3) [OF inv] request(2) by simp
    from request_step_statuses [OF st wf this request(4)] request(1) show ?thesis by simp
  next
    case (work i wenv ws db' cmds)
    have ok: "worker_ok (set (w_published (sy_world s))) (sy_workers s ! i)" using sys_invD(2) [OF inv] work(2) by simp
    have "msg_ok is_print (w_db (sy_world s)) m" if "m \<in> set (w_published (sy_world s))" for m
      using w that by (simp add: world_ok_def)
    from worker_step_statuses [OF st wf ok this work(3)] work(1) show ?thesis by simp
  qed (use st in simp_all)
next
  assume "crash s s'"
  then show ?thesis by cases (use st in simp_all)
qed

lemma sys_runs_keep_statuses:
  assumes laws: "redis_laws C view" and run: "(sys_any drv C B view is_print)\<^sup>*\<^sup>* s s'"
    and inv: "sys_inv view is_print s" and st: "statuses_ok (w_db (sy_world s))"
  shows "statuses_ok (w_db (sy_world s'))"
  using run
proof (induction rule: rtranclp_induct)
  case base
  from st show ?case .
next
  case (step y z)
  from sys_steps_inv [OF laws step.hyps(1) inv] have "sys_inv view is_print y" ..
  from sys_any_statuses [OF step.hyps(2) this step.IH] show ?case .
qed

lemma sys_runs_statuses:
  assumes "redis_laws C view" and "sys_init view n s0" and "(sys_any drv C B view is_print)\<^sup>*\<^sup>* s0 s"
  shows "statuses_ok (w_db (sy_world s))"
  by (rule sys_runs_keep_statuses [OF assms(1,3) sys_init_inv [OF assms(2)]])
    (use assms(2) in \<open>simp add: sys_init_def\<close>)

end
