(* ===== verification/Service_Properties.thy ===== *)
theory Service_Properties
  imports Task_Properties
begin

section \<open>Properties of transactions, of the task service and of its controller\<close>

text \<open>
  Atomicity of WithTransaction, who may see which task, what a creation leaves behind on
  each outcome, and how far the cache may be behind the table.
\<close>

subsection \<open>Transactions\<close>

text \<open>
  C21: WithTransaction is atomic. When it reports no error the store and the captured variables
  are those of the closure, which returned no error; a panic of the closure is passed on with
  the store as before; an error means the store is as before, unless the error came from a
  commit that took effect although its reply was lost.
\<close>

theorem transaction_atomic:
  "case WithTransaction env fn l db of (r, l', db') \<Rightarrow>
     (case r of
        Returned None \<Rightarrow> tx_begin_err env = None \<and> fn l db = (Returned None, l', db')
      | Panicked p \<Rightarrow> db' = db \<and> fst (fn l db) = Panicked p
      | Returned (Some e) \<Rightarrow> db' = db \<or>
          (tx_commit env = Commit_unknown e \<and> fn l db = (Returned None, l', db')))"
  by (auto simp: WithTransaction_def split: tx_splits)

subsection \<open>Ownership\<close>

text \<open>
  C19: A task is shown only to its owner. When GET /tasks/:id answers 200, the body is a task
  whose id is the one in the path and whose owner in the table is the authenticated user,
  also when the answer comes from the cache.
\<close>

theorem get_task_shows_own:
  assumes "svc_inv C view q w"
    and "TaskController_GetTask (NewTaskService (NewTaskRepository drv) C is_print env q) c w
       = (JSON 200 body, w')"
  shows "\<exists>t u. body = task_json t \<and> strconv_Atoi (ctx_param c ''id'') = Inr (ID t) \<and>
    GetUserIDFromContext c = Inr u \<and> UserID t = u \<and> owner_of w (ID t) = Some u"
  by (rule svc.GetTask_shows [OF assms])

lemma example_get: "TaskController_GetTask example_service example_ctx example_world =
    (JSON 200 (task_json example_task), example_world\<lparr>w_redis := [TaskKey 7 \<mapsto> example_json]\<rparr>)"
  using example_user example_param
  by (simp add: TaskController_GetTask_def NewTaskService_def TaskService_GetTask_def cached_def
      TaskCache_Get_def TaskCache_Set_def map_redis_def example_marshal NewTaskRepository_def
      TaskRepository_GetByID_def plain_query_def example_world_def example_at int4_ok_def
      example_task_def [THEN arg_cong [of _ _ UserID]])

theorem get_task_shows_own_witness:
  "\<exists>t. TaskController_GetTask example_service example_ctx example_world =
     (JSON 200 (task_json t), example_world\<lparr>w_redis := [TaskKey 7 \<mapsto> example_json]\<rparr>) \<and>
     owner_of example_world (ID t) = Some (UserID t)"
  using get_task_shows_own [OF example_inv example_get] example_get task_json_inject by metis

text \<open>
  A task of another user is never shown: asked for a task with another owner, the handler
  answers 403, or 404 when the read fails.
\<close>

lemma get_task_hides_foreign:
  assumes "svc_inv C view q w" and "strconv_Atoi (ctx_param c ''id'') = Inr i"
    and "owner_of w i = Some v" and "GetUserIDFromContext c = Inr u" and "u \<noteq> v"
  shows "status_of (fst (TaskController_GetTask
    (NewTaskService (NewTaskRepository drv) C is_print env q) c w)) \<in> {Some 403, Some 404}"
  by (rule svc.GetTask_foreign [OF assms])

lemma get_task_hides_foreign_example:
  "status_of (fst (TaskController_GetTask example_service (set_key UserIDKey (AnyInt 4) example_ctx)
     example_world)) \<in> {Some 403, Some 404}"
proof (rule get_task_hides_foreign [OF example_inv])
  show "strconv_Atoi (ctx_param (set_key UserIDKey (AnyInt 4) example_ctx) ''id'') = Inr 7"
    using example_param by (simp add: set_key_def)
  show "owner_of example_world 7 = Some 3"
    by (simp add: owner_of_def example_world_def example_at example_task_def)
  show "GetUserIDFromContext (set_key UserIDKey (AnyInt 4) example_ctx) = Inr 4" by simp
  show "(4 :: int) \<noteq> 3" by simp
qed

text \<open>
  C26: A listing holds only tasks of the user who asks: when GET /users/tasks answers 200, every
  task in it belongs to the authenticated user, in the table too, no entry is a nil pointer, and
  the count is the length, also when the answer comes from the cache.
\<close>

theorem list_shows_own:
  assumes "svc_inv C view q w"
    and "TaskController_GetTasksByUser (NewTaskService (NewTaskRepository drv) C is_print env q) c w
       = (JSON 200 body, w')"
  shows "\<exists>ts u. body = [(''tasks'', RTasks ts), (''count'', RInt (int (length (slice_elems ts))))] \<and>
    GetUserIDFromContext c = Inr u \<and>
    (\<forall>p \<in> set (slice_elems ts). \<exists>t. p = Some t \<and> UserID t = u \<and> owner_of w (ID t) = Some u)"
  by (rule svc.list_shows [OF assms])

lemma example_list: "TaskController_GetTasksByUser example_service example_ctx example_world =
    (JSON 200 [(''tasks'', RTasks (Some [Some example_task])), (''count'', RInt 1)],
     example_world\<lparr>w_redis := [UserTasksKey 3 \<mapsto> example_list_json]\<rparr>)"
  using example_user
  by (simp add: TaskController_GetTasksByUser_def NewTaskService_def TaskService_GetTasks_def cached_def
      TaskCache_Get_def TaskCache_Set_def map_redis_def example_marshal NewTaskRepository_def
      TaskRepository_GetByUserID_def plain_query_def example_world_def example_db_def int4_ok_def
      example_task_def [THEN arg_cong [of _ _ UserID]])

theorem list_shows_own_witness:
  "\<exists>w'. TaskController_GetTasksByUser example_service example_ctx example_world =
     (JSON 200 [(''tasks'', RTasks (Some [Some example_task])), (''count'', RInt 1)], w') \<and>
     owner_of example_world (ID example_task) = Some 3"
  using list_shows_own [OF example_inv example_list] example_list example_user by auto

text \<open>
  C20: A created task is new, pending, and belongs to its creator: when POST /tasks answers 201,
  the id in the answer was free before; its row is now in the table, with the authenticated user
  as owner, the requested type (as VARCHAR(50) holds it), status PENDING, no result and no error;
  every other row is as it was.
\<close>

theorem create_task_owned:
  assumes "svc_inv C view q w"
    and "TaskController_CreateTask (NewTaskService (NewTaskRepository drv) C is_print env q) bound c w
       = (JSON 201 body, w')"
  shows "\<exists>i u ty r. body = [(''task_id'', RInt i), (''status'', RString ''PENDING''),
      (''message'', RString ''Task created successfully'')] \<and>
    GetUserIDFromContext c = Inr u \<and> bound = Inr ty \<and> owner_of w i = None \<and> owner_of w' i = Some u \<and>
    task_at (w_db w') i = Some r \<and> ID r = i \<and> UserID r = u \<and> Status r = ''PENDING'' \<and>
    varchar 50 ty = Some (TaskType r) \<and> ResultFile r = None \<and> ErrorMessage r = None \<and>
    (\<forall>j. j \<noteq> i \<longrightarrow> task_at (w_db w') j = task_at (w_db w) j)"
proof -
  let ?S = "NewTaskService (NewTaskRepository drv) C is_print env q"
  from assms(2) obtain u ty t' where u: "GetUserIDFromContext c = Inr u" and ty: "bound = Inr ty"
    and svc: "TaskService_CreateTask (NewTaskRepository drv) is_print env (pending_task u ty) w = (None, t', w')"
    by (auto simp: TaskController_CreateTask_def NewTaskService_def split: sum.splits prod.splits option.splits)
  from CreateTask_success [OF svc] obtain i where t': "t' = (pending_task u ty)\<lparr>ID := i\<rparr>"
    and cr: "repo_Create (NewTaskRepository drv) (ce_stmt env) (pending_task u ty) (w_db w) = (Inr i, w_db w')"
    by blast
  from task_repo.create_ok [OF cr] obtain r where r: "created_row (ce_stmt env) (pending_task u ty) r"
    and upd: "task_at (w_db w') = (task_at (w_db w))(i \<mapsto> r)" by blast
  have "i = st_gen_id (ce_stmt env)" "task_at (w_db w) i = None" using task_repo.create_ok [OF cr] by blast+
  moreover have "varchar 20 ''PENDING'' = Some ''PENDING''"
    by (rule varchar_fits) (simp add: rune_count_def is_continuation_def)
  moreover have "body = [(''task_id'', RInt i), (''status'', RString ''PENDING''),
      (''message'', RString ''Task created successfully'')]"
    using assms(2) svc u ty t'
    by (simp add: TaskController_CreateTask_def NewTaskService_def pending_task_def)
  ultimately show ?thesis
    using u ty r upd by (auto simp: created_row_def pending_task_def owner_of_def)
qed

definition example_created :: task where
  "example_created = (pending_task 3 ''send_email'')\<lparr>ID := 8\<rparr>"

lemma example_varchar: "varchar 50 ''send_email'' = Some ''send_email''" "varchar 20 ''PENDING'' = Some ''PENDING''"
  by (rule varchar_fits, simp add: rune_count_def is_continuation_def)+

lemma example_create: "TaskController_CreateTask example_service (Inr ''send_email'') example_ctx example_world =
    (JSON 201 [(''task_id'', RInt 8), (''status'', RString ''PENDING''),
       (''message'', RString ''Task created successfully'')],
     example_world\<lparr>w_db := \<lparr>tasks_tbl = [example_task,
        \<lparr>ID = 8, UserID = 3, TaskType = ''send_email'', Status = ''PENDING'', ResultFile = None,
         ErrorMessage = None, CreatedAt = utc 9, UpdatedAt = utc 9\<rparr>], users_tbl = []\<rparr>,
       w_published := [task_message (\<lambda>_. True) example_created]\<rparr>)"
proof -
  have "task_at example_db 8 = None" by (simp add: example_at)
  then show ?thesis using example_user example_varchar
    by (simp add: TaskController_CreateTask_def NewTaskService_def TaskService_CreateTask_def
        WithTransaction_def plain_create_env_def plain_tx_def create_closure_def NewTaskRepository_def
        TaskRepository_Create_def plain_stmt_def plain_driver_def pending_task_def int4_ok_def
        CreateChannel_def publish_err_def publish_sent_def example_world_def example_db_def
        example_created_def text_error_def example_valid)
qed

theorem create_task_owned_witness:
  "\<exists>body w'. TaskController_CreateTask example_service (Inr ''send_email'') example_ctx example_world
      = (JSON 201 body, w') \<and> owner_of w' 8 = Some 3"
  using create_task_owned [OF example_inv example_create] example_create example_user by fastforce

subsection \<open>Outcomes of a creation\<close>

text \<open>
  C35: A creation that fails after its commit leaves the task behind. When the row was inserted
  but opening the channel or publishing failed, the client gets 500, no message is with the
  broker, and the row stays in the table as PENDING: no worker will ever see it.
\<close>

theorem unpublished_task_stays:
  assumes user: "GetUserIDFromContext c = Inr u" "u \<noteq> 0" "ty \<noteq> []"
    and tx: "ce_tx env = plain_tx"
    and created: "TaskRepository_Create drv (ce_stmt env) (pending_task u ty) (w_db w) = (Inr i, db')"
    and failed: "ce_channel env = Some e \<or> ce_channel env = None \<and> ce_publish env = Publish_failed e"
  shows "(\<exists>msg. TaskController_CreateTask (NewTaskService (NewTaskRepository drv) C is_print env q)
      (Inr ty) c w = (error_json 500 msg, w\<lparr>w_db := db'\<rparr>)) \<and>
    (\<exists>t. task_at db' i = Some t \<and> Status t = ''PENDING'' \<and> UserID t = u)"
proof
  show "\<exists>msg. TaskController_CreateTask (NewTaskService (NewTaskRepository drv) C is_print env q)
      (Inr ty) c w = (error_json 500 msg, w\<lparr>w_db := db'\<rparr>)"
    using user tx created failed
    by (auto simp: TaskController_CreateTask_def NewTaskService_def TaskService_CreateTask_def
        WithTransaction_def plain_tx_def create_closure_def NewTaskRepository_def
        CreateChannel_def publish_err_def publish_sent_def pending_task_def)
  have "repo_Create (NewTaskRepository drv) (ce_stmt env) (pending_task u ty) (w_db w) = (Inr i, db')"
    using created by (simp add: NewTaskRepository_def)
  from task_repo.create_ok [OF this] example_varchar(2)
  show "\<exists>t. task_at db' i = Some t \<and> Status t = ''PENDING'' \<and> UserID t = u"
    by (auto simp: created_row_def pending_task_def)
qed

lemma example_insert: "TaskRepository_Create plain_driver (plain_stmt 9 8) (pending_task 3 ''send_email'') example_db
    = (Inr 8, \<lparr>tasks_tbl = [example_task,
        \<lparr>ID = 8, UserID = 3, TaskType = ''send_email'', Status = ''PENDING'', ResultFile = None,
         ErrorMessage = None, CreatedAt = utc 9, UpdatedAt = utc 9\<rparr>], users_tbl = []\<rparr>)"
proof -
  have "task_at example_db 8 = None" by (simp add: example_at)
  then show ?thesis using example_varchar
    by (simp add: TaskRepository_Create_def plain_stmt_def plain_driver_def pending_task_def int4_ok_def
        example_db_def text_error_def example_valid)
qed

theorem unpublished_task_stays_witness:
  "\<exists>msg db'. TaskController_CreateTask (NewTaskService (NewTaskRepository plain_driver) map_redis
      (\<lambda>_. True)
      ((plain_create_env 9 8)\<lparr>ce_publish := Publish_failed (ErrorString ''channel closed'')\<rparr>) plain_query)
      (Inr ''send_email'') example_ctx example_world = (error_json 500 msg, example_world\<lparr>w_db := db'\<rparr>) \<and>
    (\<exists>t. task_at db' 8 = Some t \<and> Status t = ''PENDING'' \<and> UserID t = 3)"
proof -
  let ?env = "(plain_create_env 9 8)\<lparr>ce_publish := Publish_failed (ErrorString ''channel closed'')\<rparr>"
  have "ce_tx ?env = plain_tx" "ce_channel ?env = None \<and> ce_publish ?env = Publish_failed (ErrorString ''channel closed'')"
    by (simp_all add: plain_create_env_def)
  moreover have "TaskRepository_Create plain_driver (ce_stmt ?env) (pending_task 3 ''send_email'')
      (w_db example_world) = (Inr 8, \<lparr>tasks_tbl = [example_task,
        \<lparr>ID = 8, UserID = 3, TaskType = ''send_email'', Status = ''PENDING'', ResultFile = None,
         ErrorMessage = None, CreatedAt = utc 9, UpdatedAt = utc 9\<rparr>], users_tbl = []\<rparr>)"
    using example_insert by (simp add: plain_create_env_def example_world_def)
  ultimately show ?thesis
    using unpublished_task_stays [OF example_user, of "''send_email''" ?env plain_driver example_world]
    by fastforce
qed

subsection \<open>The cache\<close>

text \<open>
  A cached task is served as it was. Once a read has put a task into the cache and the
  entry is there, GetTask returns that version whatever happens to the table afterwards,
  since no operation of the program changes or removes an entry before its hour has passed.
\<close>

lemma cached_task_stale:
  assumes "storable t" and "TaskService_GetTask R C q i w = (Inr t, w')"
    and "redis_Get C (w_redis w') (TaskKey i) = Redis_value s" and "marshal_task t = Inr s"
  shows "TaskService_GetTask R' C q' i (w'\<lparr>w_db := db\<rparr>) = (Inr t, w'\<lparr>w_db := db\<rparr>)"
  using unmarshal_marshal_task [OF assms(1,4)] assms(3)
  by (simp add: TaskService_GetTask_def cached_def TaskCache_Get_def)

lemma cached_task_stale_example:
  "\<exists>w'. TaskService_GetTask (NewTaskRepository plain_driver) map_redis
      plain_query 7 example_world = (Inr example_task, w') \<and>
    TaskService_GetTask (NewTaskRepository plain_driver) map_redis
      plain_query 7
      (w'\<lparr>w_db := \<lparr>tasks_tbl = [example_task\<lparr>Status := ''SUCCESS''\<rparr>], users_tbl = []\<rparr>\<rparr>)
     = (Inr example_task, w'\<lparr>w_db := \<lparr>tasks_tbl = [example_task\<lparr>Status := ''SUCCESS''\<rparr>], users_tbl = []\<rparr>\<rparr>)"
proof -
  let ?w = "example_world\<lparr>w_redis := [TaskKey 7 \<mapsto> example_json]\<rparr>"
  have g: "TaskService_GetTask (NewTaskRepository plain_driver) map_redis
      plain_query 7 example_world = (Inr example_task, ?w)"
    by (simp add: TaskService_GetTask_def cached_def TaskCache_Get_def TaskCache_Set_def map_redis_def
        example_marshal NewTaskRepository_def TaskRepository_GetByID_def plain_query_def
        example_world_def example_at int4_ok_def)
  have s: "redis_Get map_redis (w_redis ?w) (TaskKey 7) = Redis_value example_json"
    "marshal_task example_task = Inr example_json"
    by (simp_all add: map_redis_def example_marshal)
  from cached_task_stale [OF row_fits_storable [OF example_fits] g s] g show ?thesis by blast
qed

text \<open>
  The keys of the cache never collide: different tasks, different users, and tasks and
  lists of users have different keys, and none is a key of the rate limiter's form.
\<close>

lemma cache_keys_distinct:
  "(TaskKey i = TaskKey j \<longleftrightarrow> i = j) \<and> (UserTasksKey u = UserTasksKey v \<longleftrightarrow> u = v) \<and>
   TaskKey i \<noteq> UserTasksKey u \<and> take 13 (TaskKey i) \<noteq> ''rate_limiter:'' \<and>
   take 13 (UserTasksKey u) \<noteq> ''rate_limiter:''"
  by (simp add: TaskKey_def UserTasksKey_def)

end
