(* ===== verification/User_Properties.thy ===== *)
theory User_Properties
  imports User_Controller
begin

section \<open>Properties of authentication and of users\<close>

text \<open>
  The claims about tokens, the middleware and the three handlers of accounts. The instances
  use a token library that is a table of two signed tokens and a database with one user.
\<close>

subsection \<open>The example\<close>

definition example_jwt :: jwt_lib where
  "example_jwt = table_jwt
     [(''A'', HMAC ''HS256'', ''k'', token_claims 1 AccessToken 0 (15 * 60 * second)),
      (''R'', HMAC ''HS256'', ''k'', token_claims 1 RefreshToken 0 (7 * 24 * 3600 * second))]"

definition example_pair :: TokenPair where
  "example_pair = \<lparr>pair_AccessToken = ''A'', pair_RefreshToken = ''R'', ExpiresIn = 900\<rparr>"

lemma example_jwt_laws: "jwt_laws example_jwt"
  unfolding example_jwt_def by (rule table_jwt_laws) simp

lemma example_pair_generated: "GenerateTokenPair example_jwt 0 0 1 ''k'' = Inr example_pair"
proof -
  have "jwt_SignedString example_jwt (HMAC ''HS256'') (token_claims 1 AccessToken 0 (15 * 60 * second)) ''k''
      = Inr ''A''"
    by (simp add: example_jwt_def table_jwt_def)
  moreover have "jwt_SignedString example_jwt (HMAC ''HS256'')
      (token_claims 1 RefreshToken 0 (7 * 24 * 3600 * second)) ''k'' = Inr ''R''"
    by (simp add: example_jwt_def table_jwt_def token_claims_def)
  ultimately show ?thesis
    by (simp add: GenerateTokenPair_def generateToken_eq [OF example_jwt_laws] example_pair_def second_def)
qed

definition user_driver :: driver where
  "user_driver = \<lparr>drv_int4 = ErrorString ''integer out of range'',
     drv_varchar = ErrorString ''value too long'',
     drv_encoding = (\<lambda>_. ErrorString ''invalid byte sequence''), drv_text = (\<lambda>_. None),
     drv_unique = (\<lambda>c. LibError (''ERROR: duplicate key value violates unique constraint '' @ c) [])\<rparr>"

definition example_user_env :: create_user_env where
  "example_user_env = \<lparr>cu_query = plain_user_query, cu_between = (\<lambda>db. db), cu_tx = plain_tx,
     cu_stmt = plain_stmt 5 1\<rparr>"

definition example_login_env :: login_env where
  "example_login_env = \<lparr>li_query = plain_user_query, li_now1 = 0, li_now2 = 0\<rparr>"

definition ann :: user where
  "ann = \<lparr>user_ID = 1, Username = ''ann'', Password = ''$2a$10$secret'', user_CreatedAt = utc 5\<rparr>"

definition no_users :: database where
  "no_users = \<lparr>tasks_tbl = [], users_tbl = []\<rparr>"

definition ann_users :: database where
  "ann_users = \<lparr>tasks_tbl = [], users_tbl = [ann]\<rparr>"

abbreviation example_users :: "database user_service" where
  "example_users \<equiv> NewUserService (NewUserRepository user_driver) mark_bcrypt example_jwt
     example_user_env example_login_env"

lemma ann_fits: "user_fits ann"
  by (simp add: user_fits_def ann_def int4_ok_def rune_count_def is_continuation_def)

lemma example_user_inv: "user_inv mark_bcrypt example_user_env no_users" "user_inv mark_bcrypt example_user_env ann_users"
  by (simp_all add: user_inv_def mark_bcrypt_laws others_ok_def example_user_env_def wf_db_def
      no_users_def ann_users_def ann_fits)

lemma ann_named: "user_named ann_users n = (if n = ''ann'' then Some ann else None)"
  by (auto simp: user_named_def ann_users_def ann_def)

lemma ann_varchar: "varchar 50 ''ann'' = Some ''ann''"
  by (rule varchar_fits) (simp add: rune_count_def is_continuation_def)

lemma ann_bound: "bind_register (Inr (''ann'', ''secret''))"
  by (simp add: bind_register_def rune_count_def is_continuation_def)

lemma example_register: "UserController_Register example_users (Inr (''ann'', ''secret'')) c no_users =
    (JSON 201 [(''message'', RString ''User created successfully''), (''user_id'', RInt 1)], ann_users)"
  using ann_varchar
  by (simp add: UserController_Register_def NewUserService_def UserService_CreateUser_def
      NewUserRepository_def UserRepository_GetByUsername_def UserRepository_Create_def
      GeneratePasswordHash_def mark_bcrypt_def example_user_env_def plain_user_query_def user_driver_def text_error_def
      plain_stmt_def plain_tx_def new_user_def no_users_def ann_users_def ann_def user_at_def
      user_named_def int4_ok_def Let_def)

lemma example_login: "UserController_Login example_users ''k'' (Inr (''ann'', ''secret'')) c ann_users =
    (JSON 200 (token_json example_pair), ann_users)"
  using example_pair_generated ann_named
  by (simp add: UserController_Login_def NewUserService_def UserService_LoginUser_def
      NewUserRepository_def UserRepository_GetByUsername_def scan_user_def ComparePasswordHash_def
      mark_bcrypt_def example_login_env_def plain_user_query_def user_driver_def text_error_def ann_def)

subsection \<open>Tokens\<close>

text \<open>
  C37: Exactly the tokens signed by HMAC under the server's secret are accepted, in their time:
  ValidateToken returns claims just when the token verifies with them under an HMAC method and
  the secret and the time is within theirs; a token whose header names any other method (none,
  RSA and the like, whatever key it would verify under) is refused as invalid at all times.
\<close>

theorem token_accepted_only_hmac:
  assumes "jwt_laws L"
  shows "(ValidateToken L now s secret = Inr c \<longleftrightarrow>
      (\<exists>alg. jwt_verifies L s (HMAC alg) secret c) \<and> in_time c now) \<and>
    (jwt_names L s = Some (Other_method other) \<longrightarrow> ValidateToken L now s secret = Inl ErrInvalidToken)"
  using ValidateToken_sound [OF assms] ValidateToken_verified [OF assms] ValidateToken_other_method [OF assms]
  by blast

text \<open>A table with a token that is signed by another method, under the text of the secret.\<close>

definition confused_jwt :: jwt_lib where
  "confused_jwt = table_jwt [(''A'', HMAC ''HS256'', ''k'', token_claims 1 AccessToken 0 (15 * 60 * second)),
     (''X'', Other_method ''RS256'', ''k'', token_claims 2 AccessToken 0 (15 * 60 * second))]"

theorem token_accepted_only_hmac_witness:
  "ValidateToken confused_jwt 1 ''A'' ''k'' = Inr (token_claims 1 AccessToken 0 (15 * 60 * second)) \<and>
   jwt_verifies confused_jwt ''X'' (Other_method ''RS256'') ''k'' (token_claims 2 AccessToken 0 (15 * 60 * second)) \<and>
   ValidateToken confused_jwt 1 ''X'' ''k'' = Inl ErrInvalidToken"
proof -
  have laws: "jwt_laws confused_jwt" unfolding confused_jwt_def by (rule table_jwt_laws) simp
  have "jwt_verifies confused_jwt ''A'' (HMAC ''HS256'') ''k'' (token_claims 1 AccessToken 0 (15 * 60 * second))"
    "jwt_verifies confused_jwt ''X'' (Other_method ''RS256'') ''k'' (token_claims 2 AccessToken 0 (15 * 60 * second))"
    "jwt_names confused_jwt ''X'' = Some (Other_method ''RS256'')"
    by (simp_all add: confused_jwt_def table_jwt_def)
  moreover have "in_time (token_claims 1 AccessToken 0 (15 * 60 * second)) 1"
    by (simp add: in_time_def token_claims_def second_def)
  ultimately show ?thesis using token_accepted_only_hmac [OF laws] by blast
qed

text \<open>
  C23: The middleware calls the next handler exactly for a request whose Authorization header
  is Bearer, one space and a token without spaces that validates as an access token, and
  sets the user of the token on the context; every other request gets status 401, and no
  request changes the state.
\<close>

theorem middleware_passes_exactly:
  "(fst (AuthMiddleware L now secret c w) = Next c' \<longleftrightarrow>
      (\<exists>tok claims. ctx_header c ''Authorization'' = bearer tok \<and> CHR '' '' \<notin> set tok \<and>
         ValidateToken L now tok secret = Inr claims \<and> claims_Type claims = AccessToken \<and>
         c' = set_key UserIDKey (AnyInt (claims_UserID claims)) c)) \<and>
   ((\<exists>c''. fst (AuthMiddleware L now secret c w) = Next c'') \<or>
      status_of (fst (AuthMiddleware L now secret c w)) = Some 401) \<and>
   snd (AuthMiddleware L now secret c w) = w"
  by (intro conjI AuthMiddleware_next AuthMiddleware_response AuthMiddleware_state)

text \<open>
  C24: An access token works for fifteen minutes: from the time it was issued it passes the
  middleware as its user until the whole second in which fifteen minutes are over, and from
  then on the answer is 401 Token expired.
\<close>

theorem access_token_life:
  assumes "jwt_laws L" and "GenerateTokenPair L t1 t2 u secret = Inr p" and "t1 \<le> t"
    and "ctx_header c ''Authorization'' = bearer (pair_AccessToken p)"
    and "CHR '' '' \<notin> set (pair_AccessToken p)"
  shows "AuthMiddleware L t secret c w =
    (if t < t1 + 900 * second - (t1 + 900 * second) mod second
     then (Next (set_key UserIDKey (AnyInt u) c), w)
     else (error_json 401 ''Token expired'', w))"
proof -
  have split: "strings_Split CHR '' '' (bearer (pair_AccessToken p)) = [''Bearer'', pair_AccessToken p]"
    using assms(5) by (simp add: bearer_def strings_Split_no_sep)
  have "bearer (pair_AccessToken p) \<noteq> []" by (simp add: bearer_def)
  with generateToken_life [OF assms(1) GenerateTokenPair_Inr(1) [OF assms(2)] assms(3)] assms(4) split
  show ?thesis by (simp add: AuthMiddleware_def Let_def token_claims_def)
qed

theorem access_token_life_witness:
  "AuthMiddleware example_jwt (900 * second) ''k''
     \<lparr>ctx_keys = Map.empty, ctx_header = (\<lambda>_. bearer ''A''), ctx_param = (\<lambda>_. [])\<rparr> () =
   (error_json 401 ''Token expired'', ())"
  using access_token_life [OF example_jwt_laws example_pair_generated, of "900 * second"
      "\<lparr>ctx_keys = Map.empty, ctx_header = (\<lambda>_. bearer ''A''), ctx_param = (\<lambda>_. [])\<rparr>" "()"]
  by (simp add: example_pair_def second_def)

text \<open>
  C10: The two kinds of tokens are never interchangeable. From the time a pair was issued, its
  refresh token is refused by the middleware with 401, as having the wrong type until the whole
  second in which seven days are over and as expired from then on; and its access token never
  refreshes anything: it is no refresh token until its fifteen minutes are over and invalid
  afterwards.
\<close>

theorem token_kinds_separate:
  assumes "jwt_laws L" and "GenerateTokenPair L t1 t2 u secret = Inr p" and "t1 \<le> t" and "t2 \<le> t"
    and "ctx_header c ''Authorization'' = bearer (pair_RefreshToken p)"
    and "CHR '' '' \<notin> set (pair_RefreshToken p)"
  shows "AuthMiddleware L t secret c w =
      (error_json 401 (if t < t2 + 604800 * second - (t2 + 604800 * second) mod second
         then ''Invalid token type'' else ''Token expired''), w) \<and>
    RefreshTokenPair L t n1 n2 (pair_AccessToken p) secret =
      Inl (if t < t1 + 900 * second - (t1 + 900 * second) mod second
        then ErrorString ''not a refresh token'' else Wrapped ''invalid refresh token: '' ErrExpiredToken)"
proof -
  note gen = GenerateTokenPair_Inr [OF assms(2)]
  have v: "ValidateToken L t (pair_AccessToken p) secret =
      (if t < t1 + 900 * second - (t1 + 900 * second) mod second
       then Inr (token_claims u AccessToken t1 (900 * second)) else Inl ErrExpiredToken)"
    "ValidateToken L t (pair_RefreshToken p) secret =
      (if t < t2 + 604800 * second - (t2 + 604800 * second) mod second
       then Inr (token_claims u RefreshToken t2 (604800 * second)) else Inl ErrExpiredToken)"
    using generateToken_life [OF assms(1) gen(1) assms(3)] generateToken_life [OF assms(1) gen(2) assms(4)]
    by simp_all
  have split: "strings_Split CHR '' '' (bearer (pair_RefreshToken p)) = [''Bearer'', pair_RefreshToken p]"
    using assms(6) by (simp add: bearer_def strings_Split_no_sep)
  have "bearer (pair_RefreshToken p) \<noteq> []" by (simp add: bearer_def)
  with v split assms(5) show ?thesis
    by (simp add: AuthMiddleware_def RefreshTokenPair_def Let_def token_claims_def)
qed

theorem token_kinds_separate_witness:
  "RefreshTokenPair example_jwt 5 5 5 ''A'' ''k'' = Inl (ErrorString ''not a refresh token'') \<and>
   status_of (fst (AuthMiddleware example_jwt 5 ''k''
     \<lparr>ctx_keys = Map.empty, ctx_header = (\<lambda>_. bearer ''R''), ctx_param = (\<lambda>_. [])\<rparr> ())) = Some 401"
  using token_kinds_separate [OF example_jwt_laws example_pair_generated, of 5
      "\<lparr>ctx_keys = Map.empty, ctx_header = (\<lambda>_. bearer ''R''), ctx_param = (\<lambda>_. [])\<rparr>" "()" 5 5]
  by (simp add: example_pair_def second_def)

text \<open>
  C38: Rotation does not revoke: a refresh token stays good for its seven days however often it
  is used; each use gives the user of the token a new pair and leaves no trace that would
  make the old token invalid.
\<close>

theorem refresh_token_reusable:
  assumes "jwt_laws L" and "GenerateTokenPair L t1 t2 u secret = Inr p"
    and "t2 \<le> t" and "t + second \<le> t2 + 7 * 24 * 3600 * second"
  shows "RefreshTokenPair L t n1 n2 (pair_RefreshToken p) secret = GenerateTokenPair L n1 n2 u secret"
proof -
  have "(t2 + 7 * 24 * 3600 * second) mod second < second" by simp
  then have "t < t2 + 7 * 24 * 3600 * second - (t2 + 7 * 24 * 3600 * second) mod second"
    using assms(4) by linarith
  with generateToken_life [OF assms(1) GenerateTokenPair_Inr(2) [OF assms(2)] assms(3)] show ?thesis
    by (simp add: RefreshTokenPair_def token_claims_def)
qed

theorem refresh_token_reusable_witness:
  "RefreshTokenPair example_jwt 5 0 0 ''R'' ''k'' = Inr example_pair \<and>
   RefreshTokenPair example_jwt 9 0 0 ''R'' ''k'' = Inr example_pair"
  using refresh_token_reusable [OF example_jwt_laws example_pair_generated, of 5 0 0]
    refresh_token_reusable [OF example_jwt_laws example_pair_generated, of 9 0 0]
    example_pair_generated by (simp add: example_pair_def second_def)

text \<open>
  C39: The refresh handler never tells a client that the token expired: for an expired refresh
  token it answers Invalid refresh token, because the error it compares with ErrExpiredToken
  is wrapped.
\<close>

theorem refresh_expired_reported_invalid:
  assumes "jwt_laws L" and "GenerateTokenPair L t1 t2 u secret = Inr p"
    and "t2 + 7 * 24 * 3600 * second \<le> t"
  shows "UserController_RefreshToken L t n1 n2 secret (Inr (pair_RefreshToken p)) c w =
    (error_json 401 ''Invalid refresh token'', w)"
proof -
  have "0 \<le> (t2 + 7 * 24 * 3600 * second) mod second" by simp
  moreover have "0 \<le> 7 * 24 * 3600 * second" by (simp add: second_def)
  ultimately have "t2 \<le> t" "\<not> t < t2 + 7 * 24 * 3600 * second - (t2 + 7 * 24 * 3600 * second) mod second"
    using assms(3) by linarith+
  with generateToken_life [OF assms(1) GenerateTokenPair_Inr(2) [OF assms(2)]] show ?thesis
    by (simp add: UserController_RefreshToken_def RefreshTokenPair_def)
qed

theorem refresh_expired_reported_invalid_witness:
  "UserController_RefreshToken example_jwt (7 * 24 * 3600 * second) 0 0 ''k'' (Inr ''R'') plain_ctx () =
     (error_json 401 ''Invalid refresh token'', ())"
  using refresh_expired_reported_invalid [OF example_jwt_laws example_pair_generated,
      of "7 * 24 * 3600 * second" 0 0 plain_ctx "()"]
  by (simp add: example_pair_def)

subsection \<open>Accounts\<close>

text \<open>
  A confirmed registration made a new account: when Register answers 201, the name was free
  and now has an account with the id in the answer, against which the password given checks.
\<close>

lemma register_creates_account:
  assumes "user_inv B cenv db" and "bind_register bound"
    and "UserController_Register (NewUserService (NewUserRepository drv) B L cenv lenv) bound c db
       = (JSON 201 body, db')"
  shows "\<exists>n p r. bound = Inr (n, p) \<and> user_named db n = None \<and> user_named db' n = Some r \<and>
    bcrypt_CompareHashAndPassword B (Password r) p = None \<and>
    body = [(''message'', RString ''User created successfully''), (''user_id'', RInt (user_ID r))]"
  by (rule usr.Register_creates [OF assms])

lemma register_creates_account_example:
  "\<exists>r. user_named no_users ''ann'' = None \<and> user_named ann_users ''ann'' = Some r \<and>
     bcrypt_CompareHashAndPassword mark_bcrypt (Password r) ''secret'' = None"
  using register_creates_account [OF example_user_inv(1) ann_bound example_register] by auto

text \<open>
  Passwords are not stored: the row CreateUser inserts holds the bcrypt hash of the password
  at the default cost, under an id and a name that were free when it was inserted.
\<close>

lemma password_stored_hashed:
  assumes "user_inv B cenv db"
    and "UserService_CreateUser (NewUserRepository drv) B cenv n p db = (Inr i, db')"
  shows "\<exists>m r h. varchar 50 n = Some m \<and> user_named db m = None \<and> user_named db' m = Some r \<and>
    user_ID r = i \<and> bcrypt_GenerateFromPassword B p 10 = Inr h \<and> Password r = h"
  using CreateUser_new_account [OF assms] by (simp add: DefaultCost_def)

lemma password_stored_hashed_example:
  "\<exists>r. user_named ann_users ''ann'' = Some r \<and> bcrypt_GenerateFromPassword mark_bcrypt ''secret'' 10 = Inr (Password r)"
proof -
  have "UserService_CreateUser (NewUserRepository user_driver) mark_bcrypt example_user_env ''ann'' ''secret'' no_users
      = (Inr 1, ann_users)"
    using example_register [of undefined]
    by (auto simp: UserController_Register_def NewUserService_def split: prod.splits sum.splits if_splits)
  from password_stored_hashed [OF example_user_inv(1) this] ann_varchar show ?thesis by auto
qed

text \<open>
  Accounts are never taken over: whatever a registration asks for and whatever its outcome,
  every account keeps its name and its id.
\<close>

lemma register_keeps_accounts:
  assumes "user_inv B cenv db" and "user_named db m = Some r"
  shows "\<exists>r'. user_named (snd (UserController_Register
      (NewUserService (NewUserRepository drv) B L cenv lenv) bound c db)) m = Some r' \<and> user_ID r' = user_ID r"
  by (rule usr.Register_keeps [OF assms])

lemma register_keeps_accounts_example:
  "\<exists>r'. user_named (snd (UserController_Register example_users (Inr (''ann'', ''other1'')) plain_ctx ann_users)) ''ann''
     = Some r' \<and> user_ID r' = 1"
proof -
  have "user_named ann_users ''ann'' = Some ann" by (simp add: ann_named)
  from register_keeps_accounts [OF example_user_inv(2) this] show ?thesis by (simp add: ann_def)
qed

text \<open>
  C25: A taken name is a conflict on every path. If the name has an account at the time of the
  insert, Register answers 409, whether the look-up before found it, missed it because the
  account was made in between, or failed: the unique constraint stops the insert, and the
  handler recognises the error by its text.
\<close>

theorem register_duplicate_conflict:
  assumes name: "rune_count n \<le> 50" and taken: "user_named (cu_between cenv db) n \<noteq> None"
    and hash: "bcrypt_GenerateFromPassword B p DefaultCost = Inr h"
    and texts: "text_error drv n = None" "text_error drv h = None"
    and fresh: "user_at (cu_between cenv db) (st_gen_id (cu_stmt cenv)) = None"
      "int4_ok (st_gen_id (cu_stmt cenv))"
    and reached: "tx_begin_err (cu_tx cenv) = None" "st_fault (cu_stmt cenv) = None"
    and driver: "strings_Contains (err_text (drv_unique drv ''users_username_key'')) ''duplicate key''"
  shows "fst (UserController_Register (NewUserService (NewUserRepository drv) B L cenv lenv) (Inr (n, p)) c db)
    = error_json 409 ''Username already exists''"
proof (cases "ur_GetByUsername (NewUserRepository drv) (cu_query cenv) db n")
  case (Inr x)
  then show ?thesis using conflict_lookup
    by (simp add: UserController_Register_def NewUserService_def UserService_CreateUser_def)
next
  case (Inl e)
  have "ur_Create (NewUserRepository drv) (cu_stmt cenv) (new_user n h) (cu_between cenv db) =
      (Inl (drv_unique drv ''users_username_key''), cu_between cenv db)"
    using taken texts fresh reached varchar_fits [OF name]
    by (simp add: NewUserRepository_def UserRepository_Create_def new_user_def)
  with Inl hash reached conflict_duplicate [OF driver] show ?thesis
    by (simp add: UserController_Register_def NewUserService_def UserService_CreateUser_def
        GeneratePasswordHash_def)
qed

theorem register_duplicate_conflict_witness:
  "fst (UserController_Register (NewUserService (NewUserRepository user_driver) mark_bcrypt example_jwt
     (example_user_env\<lparr>cu_between := \<lambda>_. ann_users, cu_stmt := plain_stmt 5 2\<rparr>) example_login_env)
     (Inr (''ann'', ''other1'')) plain_ctx no_users) = error_json 409 ''Username already exists''"
proof (rule register_duplicate_conflict)
  show "rune_count ''ann'' \<le> 50" by (simp add: rune_count_def is_continuation_def)
  show "user_named (cu_between (example_user_env\<lparr>cu_between := \<lambda>_. ann_users, cu_stmt := plain_stmt 5 2\<rparr>)
      no_users) ''ann'' \<noteq> None" by (simp add: ann_named)
  show "bcrypt_GenerateFromPassword mark_bcrypt ''other1'' DefaultCost = Inr (''$2a$10$'' @ ''other1'')"
    by (simp add: mark_bcrypt_def)
  show "strings_Contains (err_text (drv_unique user_driver ''users_username_key'')) ''duplicate key''"
    by code_simp
qed (simp_all add: ann_named example_user_env_def user_driver_def text_error_def plain_tx_def plain_stmt_def
       user_at_def ann_users_def ann_def int4_ok_def)

text \<open>
  UpdatePassword changes the hash of the one row it names: it reports an error and changes
  nothing, or the row exists and afterwards has the new hash and all else as before, every
  other user and all tasks being untouched; only a failure to count the rows is reported
  although the change was made. For an id without a row it always reports an error.
\<close>

lemma update_password_exact:
  "case UserRepository_UpdatePassword drv st rows_err i h db of (r, db') \<Rightarrow>
     (\<exists>e. r = Some e) \<and> db' = db \<or>
     (\<exists>x. user_at db i = Some x \<and> r = rows_err \<and> tasks_tbl db' = tasks_tbl db \<and>
        user_at db' = (user_at db)(i \<mapsto> x\<lparr>Password := h\<rparr>))"
proof (cases "user_at db i")
  case None
  obtain r db' where run: "UserRepository_UpdatePassword drv st rows_err i h db = (r, db')" by fastforce
  from UpdatePassword_missing [OF None run] show ?thesis by (simp add: run)
next
  case (Some x)
  obtain r db' where run: "UserRepository_UpdatePassword drv st rows_err i h db = (r, db')" by fastforce
  let ?upd = "update_users i (\<lambda>x. x\<lparr>Password := h\<rparr>) db"
  have "filter (\<lambda>y. user_ID y = i) (users_tbl db) \<noteq> []"
    using Some by (simp add: filter_user_empty user_at_def)
  then have cases: "db' = db \<and> r \<noteq> None \<or> db' = ?upd \<and> r = rows_err"
    using run by (cases r) (auto simp: UserRepository_UpdatePassword_def Let_def
        split: option.splits if_splits)
  have "user_at ?upd = (user_at db)(i \<mapsto> x\<lparr>Password := h\<rparr>)"
    using Some by (simp add: user_at_update_users fun_eq_iff)
  with cases Some run show ?thesis by (auto simp: frame_simps)
qed

end
