(* ===== verification/System_Properties.thy ===== *)
theory System_Properties
  imports Progress Statuses Service_Properties User_Properties
begin

section \<open>Properties of the whole system\<close>

text \<open>
  The claims about all processes together, on the runs of System, and what becomes of a created
  task.
\<close>

subsection \<open>The whole system\<close>

definition start_system :: "(string \<rightharpoonup> string) system" where
  "start_system = \<lparr>sy_world = \<lparr>w_db = no_users, w_redis = Map.empty, w_published = []\<rparr>,
     sy_workers = replicate 3 Idle, sy_requests = []\<rparr>"

definition created_system :: "(string \<rightharpoonup> string) system" where
  "created_system = start_system\<lparr>sy_world := \<lparr>w_db = \<lparr>tasks_tbl =
       [\<lparr>ID = 8, UserID = 3, TaskType = ''send_email'', Status = ''PENDING'', ResultFile = None,
         ErrorMessage = None, CreatedAt = utc 9, UpdatedAt = utc 9\<rparr>], users_tbl = []\<rparr>,
     w_redis = Map.empty, w_published = [task_message (\<lambda>_. True) example_created]\<rparr>, sy_requests := [Done]\<rparr>"

abbreviation example_step :: "(string \<rightharpoonup> string) system \<Rightarrow> (string \<rightharpoonup> string) system \<Rightarrow> bool" where
  "example_step \<equiv> sys_step plain_driver map_redis mark_bcrypt (\<lambda>r. r) (\<lambda>_. True)"

lemma start_init: "sys_init (\<lambda>r. r) 3 start_system"
  by (simp add: sys_init_def start_system_def no_users_def)

abbreviation example_any :: "(string \<rightharpoonup> string) system \<Rightarrow> (string \<rightharpoonup> string) system \<Rightarrow> bool" where
  "example_any \<equiv> sys_any plain_driver map_redis mark_bcrypt (\<lambda>r. r) (\<lambda>_. True)"

lemma start_create: "TaskController_CreateTask example_service (Inr ''send_email'') example_ctx
    (sy_world start_system) =
    (JSON 201 [(''task_id'', RInt 8), (''status'', RString ''PENDING''),
       (''message'', RString ''Task created successfully'')], sy_world created_system)"
  using example_user example_varchar
  by (simp add: TaskController_CreateTask_def NewTaskService_def TaskService_CreateTask_def
      WithTransaction_def plain_create_env_def plain_tx_def create_closure_def NewTaskRepository_def
      TaskRepository_Create_def plain_stmt_def plain_driver_def text_error_def pending_task_def int4_ok_def
      CreateChannel_def publish_err_def publish_sent_def start_system_def created_system_def no_users_def
      example_created_def task_at_def)

lemma start_steps: "example_step\<^sup>*\<^sup>* start_system created_system"
proof -
  let ?env = "\<lparr>ph_create = plain_create_env 9 8, ph_query = plain_query, ph_user = undefined\<rparr>"
  have "order_ok (ph_query ?env)" by (simp add: order_ok_plain)
  moreover have "TaskService_CreateTask (NewTaskRepository plain_driver) (\<lambda>_. True) (ph_create ?env)
      (pending_task 3 ''send_email'') (sy_world start_system) = (None, example_created, sy_world created_system)"
    using example_varchar
    by (simp add: TaskService_CreateTask_def
      WithTransaction_def plain_create_env_def plain_tx_def create_closure_def NewTaskRepository_def
      TaskRepository_Create_def plain_stmt_def plain_driver_def text_error_def pending_task_def int4_ok_def
      CreateChannel_def publish_err_def publish_sent_def start_system_def created_system_def no_users_def
      example_created_def task_at_def)
  ultimately have "example_step\<^sup>*\<^sup>* start_system (start_system\<lparr>sy_world := sy_world created_system,
      sy_requests := sy_requests start_system @ [Done]\<rparr>)" by (intro create_alone)
  then show ?thesis by (simp add: created_system_def start_system_def)
qed

lemmas start_runs = sys_steps_any [OF start_steps]

lemma created_inv: "sys_inv (\<lambda>r. r) (\<lambda>_. True) created_system"
  using sys_steps_inv [OF map_redis_laws start_runs sys_init_inv [OF start_init]] by blast

text \<open>
  C1: The invariant of the running system. In every state reached from the empty one by any
  interleaving of the phases of requests, deliveries and redeliveries, worker transactions with
  any faults, expiry in the cache and crashes of the API or of workers: ids and names are unique,
  every task is in one of the four states with the fields that go with it, it is SUCCESS only if
  its type is one of the four the worker knows, and FAILED only because its type is none of them
  (with the message that says so) or because the retries were used up, every message with the
  broker refers to a task in the table with the same owner and type and carries a retry counter
  from 0 to 3, and the cache holds only versions of tasks of the table, under the key of the right task and the right user.
\<close>

theorem system_invariant:
  assumes "redis_laws C view" and "sys_init view n s0"
    and "(sys_any drv C B view is_print)\<^sup>*\<^sup>* s0 s"
  shows "wf_db (w_db (sy_world s)) \<and> list_all row_ok (tasks_tbl (w_db (sy_world s))) \<and>
    list_all status_ok (tasks_tbl (w_db (sy_world s))) \<and>
    list_all (msg_ok is_print (w_db (sy_world s))) (w_published (sy_world s)) \<and>
    cache_backed view (w_db (sy_world s)) (w_redis (sy_world s))"
proof -
  have "sys_inv view is_print s"
    using sys_steps_inv [OF assms(1,3) sys_init_inv [OF assms(2)]] by blast
  with sys_runs_statuses [OF assms] show ?thesis by (simp add: sys_inv_def world_ok_def list_all_iff)
qed

theorem system_invariant_witness:
  "list_all row_ok (tasks_tbl (w_db (sy_world created_system))) \<and>
   tasks_tbl (w_db (sy_world created_system)) \<noteq> [] \<and>
   list_all (msg_ok (\<lambda>_. True) (w_db (sy_world created_system))) (w_published (sy_world created_system))"
  using system_invariant [OF map_redis_laws start_init start_runs] by (simp add: created_system_def)

text \<open>
  No message is ever stuck. From every state that keeps the invariant, in whatever state the
  workers are, every message with the broker whose body is JSON can still be completed: some
  run of the system without a crash ends with its task as SUCCESS if its type is known and as FAILED if not,
  provided the database accepts the texts to be recorded and there is a worker.
\<close>

lemma message_can_complete:
  assumes "redis_laws C view" and "sys_inv view is_print s" and "sy_workers s \<noteq> []"
    and "msg \<in> set (w_published (sy_world s))" and "unmarshal_payload (Body msg) = Some p"
    and "texts_ok drv p"
  shows "\<exists>s' r. (sys_step drv C B view is_print)\<^sup>*\<^sup>* s s' \<and>
    task_at (w_db (sy_world s')) (payload_ID p) = Some r \<and>
    Status r = (if payload_TaskType p \<in> set known_types then ''SUCCESS'' else ''FAILED'')"
  by (rule message_completes [OF assms(2,1,4,5,6,3)])

lemma message_can_complete_example:
  "\<exists>s' r. example_step\<^sup>*\<^sup>* created_system s' \<and> task_at (w_db (sy_world s')) 8 = Some r \<and> Status r = ''SUCCESS''"
proof -
  let ?p = "\<lparr>payload_ID = 8, payload_UserID = 3, payload_TaskType = ''send_email''\<rparr>"
  have "json_safe (\<lambda>_. True) ''send_email''" by (rule ascii_json_safe) code_simp
  then have un: "unmarshal_payload (Body (task_message (\<lambda>_. True) example_created)) = Some ?p"
    by (simp add: unmarshal_task_body example_created_def pending_task_def in_int64_def)
  have texts: "texts_ok plain_driver ?p" using example_valid by (simp add: texts_ok_def)
  have "sy_workers created_system \<noteq> []" "task_message (\<lambda>_. True) example_created \<in> set (w_published (sy_world created_system))"
    by (simp_all add: created_system_def start_system_def)
  from message_can_complete [OF map_redis_laws created_inv this un texts] show ?thesis
    by (simp add: known_types_def)
qed

text \<open>
  C2: No task is lost or reassigned. From every state that keeps the invariant, whatever the
  system does, crashes included, the task of an id stays in the table with its owner, its type and its time of
  creation, and it has changed only by steps of the life cycle.
\<close>

theorem tasks_persist:
  assumes "redis_laws C view" and "sys_inv view is_print s"
    and "(sys_any drv C B view is_print)\<^sup>*\<^sup>* s s'"
    and "task_at (w_db (sy_world s)) i = Some t"
  shows "\<exists>t'. task_at (w_db (sy_world s')) i = Some t' \<and> same_identity t t' \<and> task_step\<^sup>*\<^sup>* t t'"
  using sys_steps_inv [OF assms(1,3,2)] assms(4) task_steps_identity
  unfolding rows_evolve_def by blast

lemma deliver_step: "example_step created_system
    (created_system\<lparr>sy_workers := (sy_workers created_system)
       [0 := Received (task_message (\<lambda>_. True) example_created)]\<rparr>)"
  by (rule sys_step.deliver) (simp_all add: created_system_def start_system_def)

theorem tasks_persist_witness:
  "\<exists>t'. task_at (w_db (sy_world (created_system\<lparr>sy_workers := (sy_workers created_system)
       [0 := Received (task_message (\<lambda>_. True) example_created)]\<rparr>))) 8 = Some t' \<and> UserID t' = 3"
proof -
  have at: "task_at (w_db (sy_world created_system)) 8 = Some \<lparr>ID = 8, UserID = 3, TaskType = ''send_email'',
      Status = ''PENDING'', ResultFile = None, ErrorMessage = None, CreatedAt = utc 9, UpdatedAt = utc 9\<rparr>"
    by (simp add: created_system_def task_at_def)
  from deliver_step have "example_any\<^sup>*\<^sup>* created_system
    (created_system\<lparr>sy_workers := (sy_workers created_system)
       [0 := Received (task_message (\<lambda>_. True) example_created)]\<rparr>)" by (auto simp: sys_any_def)
  from tasks_persist [OF map_redis_laws created_inv this at]
  show ?thesis by (auto simp: same_identity_def)
qed

subsection \<open>From a request to its result\<close>

lemma final_row_type:
  "payload_TaskType p = ty \<Longrightarrow> final_row p now r = (if ty \<in> set known_types
      then r\<lparr>Status := ''SUCCESS'', ResultFile := Some ''result.txt'', UpdatedAt := utc now\<rparr>
      else r\<lparr>Status := ''FAILED'', ErrorMessage := Some (''unknown task type: '' @ ty), UpdatedAt := utc now\<rparr>)"
  using handleTask_known [of p] handleTask_unknown [of p]
  by (cases "fst (handleTask p)") (simp_all add: final_row_None final_row_Some)

text \<open>What a worker without faults makes of the message of a task.\<close>

lemma handle_task_message:
  assumes ints: "int4_ok (ID t)" "in_int64 (UserID t)" and row: "task_at db (ID t) = Some r"
    and texts: "text_error drv ''result.txt'' = None" "text_error drv (''unknown task type: '' @ TaskType t) = None"
  shows "case handle_delivery (NewTaskRepository drv) (plain_worker_env now) (task_message is_print t) db of (db', cmds) \<Rightarrow>
       if json_safe is_print (TaskType t)
       then cmds = [Ack] \<and> task_at db' (ID t) = Some (if TaskType t \<in> set known_types
              then r\<lparr>Status := ''SUCCESS'', ResultFile := Some ''result.txt'', UpdatedAt := utc now\<rparr>
              else r\<lparr>Status := ''FAILED'', ErrorMessage := Some (''unknown task type: '' @ TaskType t), UpdatedAt := utc now\<rparr>)
       else cmds = [Nack False] \<and> db' = db"
proof -
  let ?p = "\<lparr>payload_ID = ID t, payload_UserID = UserID t, payload_TaskType = TaskType t\<rparr>"
  have un: "unmarshal_payload (Body (task_message is_print t)) =
      (if json_safe is_print (TaskType t) then Some ?p else None)"
    using ints int4_int64 by (simp add: unmarshal_task_body)
  have ok: "texts_ok drv ?p" using texts by (simp add: texts_ok_def)
  show ?thesis
  proof (cases "json_safe is_print (TaskType t)")
    case True
    with un have "unmarshal_payload (Body (task_message is_print t)) = Some ?p" by simp
    from handle_delivery_plain [OF this _ ok] ints(1) row True show ?thesis
      by (simp add: task_at_update_tasks final_row_type [of ?p, OF refl])
  next
    case False
    with un show ?thesis by (simp add: handle_delivery_def)
  qed
qed

text \<open>
  C6: A task that is created gets done. When POST /tasks answers 201, one message is with the
  broker, and a worker that handles it without faults acknowledges it and leaves the row of the
  task as SUCCESS with its result if the type is one of the four the worker knows, and as
  FAILED with the reason otherwise; only if the quotation of the type is not JSON, the
  message is dropped and the row stays PENDING.
\<close>

theorem created_task_processed:
  assumes req: "TaskController_CreateTask (NewTaskService (NewTaskRepository drv) C is_print env q)
      (Inr ty) c w = (JSON 201 body, w')"
    and texts: "text_error drv ''result.txt'' = None" "text_error drv (''unknown task type: '' @ ty) = None"
  shows "\<exists>i r msg. body = [(''task_id'', RInt i), (''status'', RString ''PENDING''),
      (''message'', RString ''Task created successfully'')] \<and>
    task_at (w_db w') i = Some r \<and> Status r = ''PENDING'' \<and>
    w_published w' = w_published w @ [msg] \<and>
    (case handle_delivery (NewTaskRepository drv) (plain_worker_env now) msg (w_db w') of (db, cmds) \<Rightarrow>
       if json_safe is_print ty
       then cmds = [Ack] \<and> task_at db i = Some (if ty \<in> set known_types
              then r\<lparr>Status := ''SUCCESS'', ResultFile := Some ''result.txt'', UpdatedAt := utc now\<rparr>
              else r\<lparr>Status := ''FAILED'', ErrorMessage := Some (''unknown task type: '' @ ty), UpdatedAt := utc now\<rparr>)
       else cmds = [Nack False] \<and> db = w_db w')"
proof -
  from req obtain u t' where cr: "TaskService_CreateTask (NewTaskRepository drv) is_print env (pending_task u ty) w
      = (None, t', w')"
    and body: "body = [(''task_id'', RInt (ID t')), (''status'', RString (Status t')),
      (''message'', RString ''Task created successfully'')]"
    by (auto simp: TaskController_CreateTask_def NewTaskService_def split: sum.splits prod.splits option.splits)
  from CreateTask_success [OF cr] obtain i where t': "t' = (pending_task u ty)\<lparr>ID := i\<rparr>"
    and rc: "repo_Create (NewTaskRepository drv) (ce_stmt env) (pending_task u ty) (w_db w) = (Inr i, w_db w')"
    and pub: "w_published w' = w_published w @ [task_message is_print t']" by blast
  have rc': "TaskRepository_Create drv (ce_stmt env) (pending_task u ty) (w_db w) = (Inr i, w_db w')"
    using rc by (simp add: NewTaskRepository_def)
  from task_repo.create_ok [OF rc] obtain r where i: "i = st_gen_id (ce_stmt env)"
    and r: "created_row (ce_stmt env) (pending_task u ty) r" "task_at (w_db w') i = Some r" by fastforce
  have status: "Status r = ''PENDING''" using r(1) varchar_pending
    by (simp add: created_row_def pending_task_def)
  have ints: "int4_ok i" "in_int64 i" "in_int64 u"
    using Create_int4 [OF rc'] int4_int64 by (simp_all add: pending_task_def)
  have t: "ID t' = i" "UserID t' = u" "TaskType t' = ty" by (simp_all add: t' pending_task_def)
  note handled = handle_task_message [of t', unfolded t, OF ints(1,3) r(2) texts, of is_print now]
  with body t' r(2) status pub show ?thesis
    by (intro exI [of _ i] exI [of _ r] exI [of _ "task_message is_print t'"]) (simp add: pending_task_def)
qed

theorem created_task_processed_witness:
  "\<exists>r msg. w_published (sy_world created_system) = [msg] \<and>
     task_at (fst (handle_delivery (NewTaskRepository plain_driver) (plain_worker_env 11) msg
       (w_db (sy_world created_system)))) 8 = Some r \<and> Status r = ''SUCCESS'' \<and> ResultFile r = Some ''result.txt''"
proof -
  have texts: "text_error plain_driver ''result.txt'' = None" "text_error plain_driver (''unknown task type: '' @ ''send_email'') = None"
    using example_valid by (simp_all only: plain_text_error)
  have safe: "json_safe (\<lambda>_. True) ''send_email''" by (rule ascii_json_safe) code_simp
  have known: "''send_email'' \<in> set known_types" by (simp add: known_types_def)
  from created_task_processed [OF start_create texts, of 11, unfolded if_P [OF safe] if_P [OF known]]
  obtain r msg where "w_published (sy_world created_system) = [msg]"
    and "snd (handle_delivery (NewTaskRepository plain_driver) (plain_worker_env 11) msg
       (w_db (sy_world created_system))) = [Ack] \<and>
     task_at (fst (handle_delivery (NewTaskRepository plain_driver) (plain_worker_env 11) msg
       (w_db (sy_world created_system)))) 8 =
     Some (r\<lparr>Status := ''SUCCESS'', ResultFile := Some ''result.txt'', UpdatedAt := utc 11\<rparr>)"
    by (auto simp: start_system_def case_prod_beta)
  then show ?thesis by auto
qed

text \<open>
  Cutting the worker at its transactions loses nothing: three steps of the cut worker without
  interference give exactly the database and the commands of one iteration of the loop in
  worker.go, for every message and every fault.
\<close>

lemma worker_cut_is_iteration:
  "then_step R env (then_step R env (worker_step R env (Received msg) db)) =
     (case handle_delivery R env msg db of (db', cmds) \<Rightarrow> (Idle, db', cmds))"
  by (rule worker_steps_iteration)

end
