(* ===== verification/Broker.thy ===== *)
theory Broker
  imports System "HOL-Library.Multiset"
begin

section \<open>The system with its queue\<close>

text \<open>
  System lets the broker deliver any published message at any time. Here the queue is what
  AMQP documents: a message is ready, or with the one worker that has not settled it yet, or
  gone. The broker is a parameter (\<open>amqp_broker\<close>, its laws \<open>broker_laws\<close>). A settlement may get
  lost on its way. A channel may close at any time, also while its worker is at work: the broker
  gives the message to another worker, while the first goes on with its task and no call of it
  reaches the broker; when it is done its loop ends, and it gets no message until its process
  starts again. The runs of this system
  are runs of System (\<open>queued_steps_simulated\<close>), and no task whose message was published is lost
  silently (\<open>covered\<close>). The broker is taken to keep what it has accepted, and the queue to
  exist: only a worker declares it.
\<close>

subsection \<open>What the broker promises\<close>

record 'b amqp_broker =
  br_publish :: "'b \<Rightarrow> delivery \<Rightarrow> 'b"
  br_deliver :: "'b \<Rightarrow> nat \<Rightarrow> (delivery \<times> 'b) option"
  br_ack :: "'b \<Rightarrow> nat \<Rightarrow> 'b"
  br_nack :: "'b \<Rightarrow> nat \<Rightarrow> bool \<Rightarrow> 'b"
  br_close :: "'b \<Rightarrow> nat \<Rightarrow> 'b"

text \<open>
  Channel i has at most one message that is not settled, which is what Qos(1) asks for; Nack
  with requeue and the end of a channel make the message ready again.
\<close>

definition broker_laws ::
  "'b amqp_broker \<Rightarrow> ('b \<Rightarrow> delivery multiset) \<Rightarrow> ('b \<Rightarrow> nat \<Rightarrow> delivery option) \<Rightarrow> bool" where
  "broker_laws Br ready unacked \<longleftrightarrow>
     (\<forall>b m. ready (br_publish Br b m) = add_mset m (ready b) \<and> unacked (br_publish Br b m) = unacked b) \<and>
     (\<forall>b i. br_deliver Br b i = None \<longrightarrow> ready b = {#} \<or> unacked b i \<noteq> None) \<and>
     (\<forall>b i m b'. br_deliver Br b i = Some (m, b') \<longrightarrow> unacked b i = None \<and> m \<in># ready b \<and>
        ready b' = ready b - {#m#} \<and> unacked b' = (unacked b)(i \<mapsto> m)) \<and>
     (\<forall>b i. ready (br_ack Br b i) = ready b \<and> unacked (br_ack Br b i) = (unacked b)(i := None)) \<and>
     (\<forall>b i requeue. unacked (br_nack Br b i requeue) = (unacked b)(i := None) \<and>
        ready (br_nack Br b i requeue) = ready b + (if requeue then mset_set (set_option (unacked b i)) else {#})) \<and>
     (\<forall>b i. unacked (br_close Br b i) = (unacked b)(i := None) \<and>
        ready (br_close Br b i) = ready b + mset_set (set_option (unacked b i)))"

lemma broker_lawsD:
  assumes "broker_laws Br ready unacked"
  shows "ready (br_publish Br b m) = add_mset m (ready b)" and "unacked (br_publish Br b m) = unacked b"
    and "br_deliver Br b i = None \<Longrightarrow> ready b = {#} \<or> unacked b i \<noteq> None"
    and "br_deliver Br b i = Some (m, b') \<Longrightarrow> unacked b i = None \<and> m \<in># ready b \<and>
        ready b' = ready b - {#m#} \<and> unacked b' = (unacked b)(i \<mapsto> m)"
    and "ready (br_ack Br b i) = ready b" and "unacked (br_ack Br b i) = (unacked b)(i := None)"
    and "ready (br_nack Br b i q) = ready b + (if q then mset_set (set_option (unacked b i)) else {#})"
    and "unacked (br_nack Br b i q) = (unacked b)(i := None)"
    and "ready (br_close Br b i) = ready b + mset_set (set_option (unacked b i))"
    and "unacked (br_close Br b i) = (unacked b)(i := None)"
  using assms unfolding broker_laws_def by blast+

definition held :: "('b \<Rightarrow> delivery multiset) \<Rightarrow> ('b \<Rightarrow> nat \<Rightarrow> delivery option) \<Rightarrow> 'b \<Rightarrow> delivery \<Rightarrow> bool" where
  "held ready unacked b m \<longleftrightarrow> m \<in># ready b \<or> (\<exists>i. unacked b i = Some m)"

subsection \<open>The commands of a worker at the broker\<close>

text \<open>An acknowledgement whose call fails is only logged: it may not have reached the broker.\<close>

definition br_cmd :: "'b amqp_broker \<Rightarrow> nat \<Rightarrow> bool \<Rightarrow> broker_cmd \<Rightarrow> 'b \<Rightarrow> 'b" where
  "br_cmd Br i settled cmd b =
     (case cmd of
        Ack \<Rightarrow> if settled then br_ack Br b i else b
      | Nack requeue \<Rightarrow> if settled then br_nack Br b i requeue else b
      | Republish m out \<Rightarrow> if publish_sent out then br_publish Br b m else b)"

definition br_cmds :: "'b amqp_broker \<Rightarrow> nat \<Rightarrow> bool \<Rightarrow> broker_cmd list \<Rightarrow> 'b \<Rightarrow> 'b" where
  "br_cmds Br i settled cmds b = fold (br_cmd Br i settled) cmds b"

definition br_publishes :: "'b amqp_broker \<Rightarrow> delivery list \<Rightarrow> 'b \<Rightarrow> 'b" where
  "br_publishes Br msgs b = fold (\<lambda>m b. br_publish Br b m) msgs b"

lemma br_cmds_simps [simp]: "br_cmds Br i ok [] b = b"
  "br_cmds Br i ok (c # cs) b = br_cmds Br i ok cs (br_cmd Br i ok c b)"
  by (simp_all add: br_cmds_def)

text \<open>
  The two ways in which the worker drops a message although it could not record the outcome
  of its task: the limit on retries is reached and the update to FAILED fails too, or the
  republication does not reach the broker.
\<close>

definition abandons :: "task_repo \<Rightarrow> worker_env \<Rightarrow> delivery \<Rightarrow> int \<Rightarrow> database \<Rightarrow> bool" where
  "abandons R env msg i db =
     (if 3 <=s retry_count msg
      then fst (run_stmt (we_tx3 env) (repo_MarkFailed R (we_st3 env) i ''max retries reached'') db) \<noteq> None
      else \<not> publish_sent (we_publish env))"

definition abandoned :: "task_repo \<Rightarrow> worker_env \<Rightarrow> wstate \<Rightarrow> database \<Rightarrow> int list" where
  "abandoned R env ws db =
     (case ws of Unrecorded msg p \<Rightarrow> if abandons R env msg (payload_ID p) db then [payload_ID p] else []
      | _ \<Rightarrow> [])"

text \<open>
  A worker whose channel has closed may still be about to mark its task PROCESSING, whatever has
  become of the task since.
\<close>

definition starts_late :: "wstate \<Rightarrow> int list" where
  "starts_late ws =
     (case ws of Received msg \<Rightarrow>
        (case unmarshal_payload (Body msg) of Some p \<Rightarrow> [payload_ID p] | None \<Rightarrow> [])
      | _ \<Rightarrow> [])"

subsection \<open>Steps\<close>

text \<open>
  The system, its broker, the workers whose channel has closed, and the ids of the tasks that
  were abandoned or started late.
\<close>

record ('r, 'b) queued =
  q_sys :: "'r system"
  q_broker :: 'b
  q_cut :: "nat set"
  q_lost :: "int list"

abbreviation q_db :: "('r, 'b) queued \<Rightarrow> database" where
  "q_db s \<equiv> w_db (sy_world (q_sys s))"

abbreviation q_published :: "('r, 'b) queued \<Rightarrow> delivery list" where
  "q_published s \<equiv> w_published (sy_world (q_sys s))"

inductive q_step ::
  "'b amqp_broker \<Rightarrow> driver \<Rightarrow> 'r redis_client \<Rightarrow> bcrypt_lib \<Rightarrow> ('r \<Rightarrow> string \<Rightarrow> string option) \<Rightarrow> (nat \<Rightarrow> bool) \<Rightarrow>
     ('r, 'b) queued \<Rightarrow> ('r, 'b) queued \<Rightarrow> bool"
  for Br drv C B view is_print where
  arrive: "arrives x \<Longrightarrow>
    q_step Br drv C B view is_print s (s\<lparr>q_sys := (q_sys s)\<lparr>sy_requests := sy_requests (q_sys s) @ [x]\<rparr>\<rparr>)"
| request: "i < length (sy_requests (q_sys s)) \<Longrightarrow> order_ok (ph_query env) \<Longrightarrow>
      request_step (NewTaskRepository drv) (NewUserRepository drv) C B is_print env
        (sy_requests (q_sys s) ! i) (sy_world (q_sys s)) = (x, w') \<Longrightarrow>
    q_step Br drv C B view is_print s
      (s\<lparr>q_sys := (q_sys s)\<lparr>sy_world := w', sy_requests := (sy_requests (q_sys s))[i := x]\<rparr>,
         q_broker := br_publishes Br (drop (length (q_published s)) (w_published w')) (q_broker s)\<rparr>)"
| expire: "forgets view (w_redis (sy_world (q_sys s))) r' \<Longrightarrow>
    q_step Br drv C B view is_print s
      (s\<lparr>q_sys := (q_sys s)\<lparr>sy_world := (sy_world (q_sys s))\<lparr>w_redis := r'\<rparr>\<rparr>\<rparr>)"
| deliver: "i < length (sy_workers (q_sys s)) \<Longrightarrow> sy_workers (q_sys s) ! i = Idle \<Longrightarrow> i \<notin> q_cut s \<Longrightarrow>
      br_deliver Br (q_broker s) i = Some (msg, b') \<Longrightarrow>
    q_step Br drv C B view is_print s
      (s\<lparr>q_sys := (q_sys s)\<lparr>sy_workers := (sy_workers (q_sys s))[i := Received msg]\<rparr>, q_broker := b'\<rparr>)"
| work: "i < length (sy_workers (q_sys s)) \<Longrightarrow> i \<notin> q_cut s \<Longrightarrow>
      worker_step (NewTaskRepository drv) wenv (sy_workers (q_sys s) ! i) (q_db s) = (ws, db', cmds) \<Longrightarrow>
    q_step Br drv C B view is_print s
      (s\<lparr>q_sys := (q_sys s)\<lparr>sy_world := (sy_world (q_sys s))\<lparr>w_db := db',
             w_published := q_published s @ sent_of cmds\<rparr>,
           sy_workers := (sy_workers (q_sys s))[i := ws]\<rparr>,
         q_broker := br_cmds Br i settled cmds (q_broker s),
         q_lost := q_lost s @ abandoned (NewTaskRepository drv) wenv (sy_workers (q_sys s) ! i) (q_db s)\<rparr>)"
| work_cut: "i < length (sy_workers (q_sys s)) \<Longrightarrow> i \<in> q_cut s \<Longrightarrow> \<not> publish_sent (we_publish wenv) \<Longrightarrow>
      worker_step (NewTaskRepository drv) wenv (sy_workers (q_sys s) ! i) (q_db s) = (ws, db', cmds) \<Longrightarrow>
    q_step Br drv C B view is_print s
      (s\<lparr>q_sys := (q_sys s)\<lparr>sy_world := (sy_world (q_sys s))\<lparr>w_db := db'\<rparr>,
           sy_workers := (sy_workers (q_sys s))[i := ws]\<rparr>,
         q_lost := q_lost s @ starts_late (sy_workers (q_sys s) ! i)\<rparr>)"
| cut: "i < length (sy_workers (q_sys s)) \<Longrightarrow>
    q_step Br drv C B view is_print s
      (s\<lparr>q_broker := br_close Br (q_broker s) i, q_cut := insert i (q_cut s)\<rparr>)"
| restart: "i < length (sy_workers (q_sys s)) \<Longrightarrow> sy_workers (q_sys s) ! i = Idle \<Longrightarrow>
    q_step Br drv C B view is_print s
      (s\<lparr>q_broker := br_close Br (q_broker s) i, q_cut := q_cut s - {i}\<rparr>)"

text \<open>Crashes: the end of a worker's process closes its channel.\<close>

inductive q_crash :: "'b amqp_broker \<Rightarrow> ('r, 'b) queued \<Rightarrow> ('r, 'b) queued \<Rightarrow> bool" for Br where
  drop_request: "i < length (sy_requests (q_sys s)) \<Longrightarrow>
    q_crash Br s (s\<lparr>q_sys := (q_sys s)\<lparr>sy_requests := (sy_requests (q_sys s))[i := Done]\<rparr>\<rparr>)"
| drop_worker: "i < length (sy_workers (q_sys s)) \<Longrightarrow>
    q_crash Br s (s\<lparr>q_sys := (q_sys s)\<lparr>sy_workers := (sy_workers (q_sys s))[i := Idle]\<rparr>,
      q_broker := br_close Br (q_broker s) i, q_cut := q_cut s - {i}\<rparr>)"

definition q_any ::
  "'b amqp_broker \<Rightarrow> driver \<Rightarrow> 'r redis_client \<Rightarrow> bcrypt_lib \<Rightarrow> ('r \<Rightarrow> string \<Rightarrow> string option) \<Rightarrow> (nat \<Rightarrow> bool) \<Rightarrow>
     ('r, 'b) queued \<Rightarrow> ('r, 'b) queued \<Rightarrow> bool" where
  "q_any Br drv C B view is_print s s' \<longleftrightarrow> q_step Br drv C B view is_print s s' \<or> q_crash Br s s'"

lemma q_steps_any: "(q_step Br drv C B view is_print)\<^sup>*\<^sup>* s s' \<Longrightarrow> (q_any Br drv C B view is_print)\<^sup>*\<^sup>* s s'"
  by (erule rtranclp_mono [THEN predicate2D, rotated]) (simp add: q_any_def le_fun_def)

definition q_init ::
  "('r \<Rightarrow> string \<Rightarrow> string option) \<Rightarrow> ('b \<Rightarrow> delivery multiset) \<Rightarrow> ('b \<Rightarrow> nat \<Rightarrow> delivery option) \<Rightarrow>
     nat \<Rightarrow> ('r, 'b) queued \<Rightarrow> bool" where
  "q_init view ready unacked n s \<longleftrightarrow> sys_init view n (q_sys s) \<and> ready (q_broker s) = {#} \<and>
     unacked (q_broker s) = Map.empty \<and> q_cut s = {} \<and> q_lost s = []"

subsection \<open>What is at the broker, and with whom\<close>

definition holds_msg :: "wstate \<Rightarrow> delivery option" where
  "holds_msg ws = (case ws of Idle \<Rightarrow> None | Received m \<Rightarrow> Some m | Processing m p \<Rightarrow> Some m | Unrecorded m p \<Rightarrow> Some m)"

definition linked ::
  "('b \<Rightarrow> delivery multiset) \<Rightarrow> ('b \<Rightarrow> nat \<Rightarrow> delivery option) \<Rightarrow> ('r, 'b) queued \<Rightarrow> bool" where
  "linked ready unacked s \<longleftrightarrow>
     (\<forall>i < length (sy_workers (q_sys s)). \<forall>m. i \<notin> q_cut s \<longrightarrow>
        holds_msg (sy_workers (q_sys s) ! i) = Some m \<longrightarrow> unacked (q_broker s) i = Some m) \<and>
     (\<forall>i \<in> q_cut s. i < length (sy_workers (q_sys s)) \<and> unacked (q_broker s) i = None) \<and>
     (\<forall>i \<ge> length (sy_workers (q_sys s)). unacked (q_broker s) i = None) \<and>
     (\<forall>m. held ready unacked (q_broker s) m \<longrightarrow> m \<in> set (q_published s))"

lemma linkedD:
  assumes "linked ready unacked s"
  shows "i < length (sy_workers (q_sys s)) \<Longrightarrow> i \<notin> q_cut s \<Longrightarrow>
      holds_msg (sy_workers (q_sys s) ! i) = Some m \<Longrightarrow> unacked (q_broker s) i = Some m"
    and "length (sy_workers (q_sys s)) \<le> i \<Longrightarrow> unacked (q_broker s) i = None"
    and "held ready unacked (q_broker s) m \<Longrightarrow> m \<in> set (q_published s)"
    and "i \<in> q_cut s \<Longrightarrow> unacked (q_broker s) i = None"
    and "i \<in> q_cut s \<Longrightarrow> i < length (sy_workers (q_sys s))"
  using assms by (auto simp: linked_def)

subsection \<open>What the commands do to the messages at the broker\<close>

lemma held_publish:
  assumes "broker_laws Br ready unacked"
  shows "held ready unacked (br_publish Br b m) x \<longleftrightarrow> x = m \<or> held ready unacked b x"
  by (auto simp: held_def broker_lawsD(1,2) [OF assms])

lemma held_publishes:
  assumes "broker_laws Br ready unacked"
  shows "held ready unacked (br_publishes Br ms b) x \<longleftrightarrow> x \<in> set ms \<or> held ready unacked b x"
    and "unacked (br_publishes Br ms b) = unacked b"
  by (induction ms arbitrary: b)
    (auto simp: br_publishes_def held_publish [OF assms] broker_lawsD(2) [OF assms])

lemma unacked_cmd:
  assumes "broker_laws Br ready unacked"
  shows "j \<noteq> i \<Longrightarrow> unacked (br_cmd Br i ok c b) j = unacked b j"
    and "unacked (br_cmd Br i ok c b) i = None \<or> unacked (br_cmd Br i ok c b) i = unacked b i"
  by (auto simp: br_cmd_def broker_lawsD(2,6,8) [OF assms] split: broker_cmd.split)

lemma unacked_cmds:
  assumes "broker_laws Br ready unacked" and "j \<noteq> i"
  shows "unacked (br_cmds Br i ok cs b) j = unacked b j"
  by (induction cs arbitrary: b) (simp_all add: unacked_cmd(1) [OF assms])

lemma ready_cmd_mono:
  assumes "broker_laws Br ready unacked" and "x \<in># ready b"
  shows "x \<in># ready (br_cmd Br i ok c b)"
  using assms(2) by (auto simp: br_cmd_def broker_lawsD(1,5,7) [OF assms(1)] split: broker_cmd.split)

lemma ready_cmds_mono:
  assumes "broker_laws Br ready unacked" and "x \<in># ready b"
  shows "x \<in># ready (br_cmds Br i ok cs b)"
  using assms(2) by (induction cs arbitrary: b) (simp_all add: ready_cmd_mono [OF assms(1)])

lemma held_cmd:
  assumes "broker_laws Br ready unacked" and "held ready unacked b x" and "unacked b i \<noteq> Some x"
  shows "held ready unacked (br_cmd Br i ok c b) x"
  using assms(2,3) ready_cmd_mono [OF assms(1)] unacked_cmd(1) [OF assms(1)]
  unfolding held_def by metis

lemma held_cmds:
  assumes "broker_laws Br ready unacked" and "held ready unacked b x" and "unacked b i \<noteq> Some x"
  shows "held ready unacked (br_cmds Br i ok cs b) x"
  using assms(2,3)
proof (induction cs arbitrary: b)
  case (Cons c cs)
  have "unacked (br_cmd Br i ok c b) i \<noteq> Some x"
    using unacked_cmd(2) [OF assms(1), of i ok c b] Cons.prems(2) by auto
  with Cons.IH [OF held_cmd [OF assms(1) Cons.prems]] show ?case by simp
qed simp

lemma sent_cmds_ready:
  assumes "broker_laws Br ready unacked"
  shows "x \<in> set (sent_of cs) \<Longrightarrow> x \<in># ready (br_cmds Br i ok cs b)"
proof (induction cs arbitrary: b)
  case (Cons c cs)
  show ?case
  proof (cases "x \<in> set (sent_of cs)")
    case True
    with Cons.IH show ?thesis by simp
  next
    case False
    with Cons.prems obtain out where "c = Republish x out" "publish_sent out"
      by (auto simp: sent_of_def split: broker_cmd.splits if_splits)
    then have "x \<in># ready (br_cmd Br i ok c b)" by (simp add: br_cmd_def broker_lawsD(1) [OF assms])
    from ready_cmds_mono [OF assms this] show ?thesis by simp
  qed
qed (simp add: sent_of_def)

lemma set_mset_option [simp]: "set_mset (mset_set (set_option x)) = set_option x"
  by (cases x) simp_all

lemma held_cmd_from:
  assumes "broker_laws Br ready unacked" and "held ready unacked (br_cmd Br i ok c b) x"
  shows "held ready unacked b x \<or> x \<in> set (sent_of [c])"
  using assms(2)
  by (auto simp: held_def br_cmd_def sent_of_def broker_lawsD(1,2,5,6,7,8) [OF assms(1)]
      split: broker_cmd.splits if_splits)

lemma held_cmds_from:
  assumes "broker_laws Br ready unacked"
  shows "held ready unacked (br_cmds Br i ok cs b) x \<Longrightarrow> held ready unacked b x \<or> x \<in> set (sent_of cs)"
proof (induction cs arbitrary: b)
  case (Cons c cs)
  from Cons.prems have "held ready unacked (br_cmds Br i ok cs (br_cmd Br i ok c b)) x" by simp
  from Cons.IH [OF this] held_cmd_from [OF assms, of i ok c b x] show ?case by (auto simp: sent_of_def)
qed simp

lemma held_close:
  assumes "broker_laws Br ready unacked"
  shows "held ready unacked (br_close Br b i) x \<longleftrightarrow> held ready unacked b x"
  by (auto simp: held_def broker_lawsD(9,10) [OF assms])

lemma held_deliver:
  assumes "broker_laws Br ready unacked" and "br_deliver Br b i = Some (m, b')"
  shows "held ready unacked b' x \<longleftrightarrow> held ready unacked b x"
proof -
  from broker_lawsD(4) [OF assms] have d: "unacked b i = None" "m \<in># ready b"
    "ready b' = ready b - {#m#}" "unacked b' = (unacked b)(i \<mapsto> m)" by simp_all
  show ?thesis
  proof (cases "x = m")
    case True
    with d show ?thesis by (auto simp: held_def)
  next
    case False
    with d have "x \<in># ready b' \<longleftrightarrow> x \<in># ready b" by (simp add: in_diff_count del: set_mset_option)
    moreover have "unacked b' j = Some x \<longleftrightarrow> unacked b j = Some x" for j
      using False d by auto
    ultimately show ?thesis by (simp add: held_def)
  qed
qed

text \<open>Requeuing keeps the message; so does an acknowledgement that is lost.\<close>

lemma held_nack_requeue:
  assumes "broker_laws Br ready unacked" and "held ready unacked b x"
  shows "held ready unacked (br_cmds Br i ok [Nack True] b) x"
  using assms(2) by (auto simp: br_cmd_def held_def broker_lawsD(7,8) [OF assms(1)])

lemma held_unsettled: "sent_of cs = [] \<Longrightarrow> br_cmds Br i False cs b = b"
  by (induction cs arbitrary: b) (auto simp: br_cmd_def sent_of_def split: broker_cmd.splits)

subsection \<open>Simulation by System\<close>

lemma worker_step_holds:
  "worker_step R env s db = (s', db', cmds) \<Longrightarrow> holds_msg s' = Some m \<Longrightarrow>
   holds_msg s = Some m \<and> cmds = []"
  by (cases s) (auto simp: worker_step_def holds_msg_def split: option.splits prod.splits)

lemma worker_step_unsent:
  "worker_step R env s db = (s', db', cmds) \<Longrightarrow> \<not> publish_sent (we_publish env) \<Longrightarrow> sent_of cmds = []"
  by (cases s) (auto simp: worker_step_def retry_or_give_up_def Let_def sent_of_def
      split: option.splits prod.splits if_splits)

lemma request_step_published:
  "request_step R U C B is_print env x w = (x', w') \<Longrightarrow> \<exists>new. w_published w' = w_published w @ new"
  by (cases x) (auto simp: request_step_def split: option.splits sum.splits prod.splits)

lemma worked_linked:
  assumes laws: "broker_laws Br ready unacked" and inv: "linked ready unacked s"
    and k: "k < length (sy_workers (q_sys s))" "k \<notin> q_cut s"
    and run: "worker_step R env (sy_workers (q_sys s) ! k) db = (ws, db', cmds)"
    and s': "q_cut s' = q_cut s" "sy_workers (q_sys s') = (sy_workers (q_sys s))[k := ws]"
      "q_published s' = q_published s @ sent_of cmds" "q_broker s' = br_cmds Br k ok cmds (q_broker s)"
  shows "linked ready unacked s'"
proof -
  have "unacked (br_cmds Br k ok cmds (q_broker s)) j = Some m"
    if "j < length (sy_workers (q_sys s))" "j \<notin> q_cut s" "holds_msg ((sy_workers (q_sys s))[k := ws] ! j) = Some m"
    for j m
  proof (cases "j = k")
    case True
    with that worker_step_holds [OF run, of m] linkedD(1) [OF inv] show ?thesis by simp
  next
    case False
    with that linkedD(1) [OF inv] show ?thesis by (simp add: unacked_cmds [OF laws])
  qed
  moreover have "unacked (br_cmds Br k ok cmds (q_broker s)) j = None"
    if "length (sy_workers (q_sys s)) \<le> j \<or> j \<in> q_cut s" for j
    using that k linkedD(2,4) [OF inv, of j] by (cases "j = k") (auto simp: unacked_cmds [OF laws])
  moreover have "m \<in> set (q_published s @ sent_of cmds)"
    if "held ready unacked (br_cmds Br k ok cmds (q_broker s)) m" for m
    using held_cmds_from [OF laws that] linkedD(3) [OF inv] by auto
  ultimately show ?thesis using linkedD(5) [OF inv] by (simp add: linked_def s')
qed

lemma q_step_linked:
  assumes laws: "broker_laws Br ready unacked" and step: "q_step Br drv C B view is_print s s'"
    and inv: "linked ready unacked s"
  shows "linked ready unacked s' \<and> (sys_step drv C B view is_print)\<^sup>*\<^sup>* (q_sys s) (q_sys s')"
  using step
proof (cases rule: q_step.cases)
  case (arrive x)
  have "sys_step drv C B view is_print (q_sys s) (q_sys s')" using arrive by (auto intro: sys_step.arrive)
  with arrive(1) inv show ?thesis by (auto simp: linked_def)
next
  case (request i env x w')
  have "sys_step drv C B view is_print (q_sys s) (q_sys s')"
    using sys_step.request [OF request(2-4), of view] request(1) by simp
  moreover obtain new where new: "w_published w' = q_published s @ new"
    using request_step_published [OF request(4)] by blast
  with request(1) inv have "linked ready unacked s'" by (auto simp: linked_def held_publishes [OF laws])
  ultimately show ?thesis by blast
next
  case (expire r')
  have "sys_step drv C B view is_print (q_sys s) (q_sys s')"
    using sys_step.expire [OF expire(2)] expire(1) by simp
  with expire(1) inv show ?thesis by (auto simp: linked_def)
next
  case (deliver i msg b')
  note d = broker_lawsD(4) [OF laws deliver(5)]
  then have "held ready unacked (q_broker s) msg" by (simp add: held_def)
  then have "msg \<in> set (q_published s)" by (rule linkedD(3) [OF inv])
  from sys_step.deliver [OF deliver(2,3) this] deliver(1)
  have "sys_step drv C B view is_print (q_sys s) (q_sys s')" by simp
  moreover have "linked ready unacked s'"
    using deliver(1,2,4) inv d held_deliver [OF laws deliver(5)]
    by (auto simp: linked_def holds_msg_def nth_list_update)
  ultimately show ?thesis by blast
next
  case (work i wenv ws db' cmds ok)
  have "sys_step drv C B view is_print (q_sys s) (q_sys s')"
    using sys_step.work [OF work(2,4)] work(1) by simp
  moreover have "linked ready unacked s'"
    by (rule worked_linked [OF laws inv work(2,3,4)]) (simp_all add: work(1))
  ultimately show ?thesis by blast
next
  case (work_cut i wenv ws db' cmds)
  have "sent_of cmds = []" by (rule worker_step_unsent [OF work_cut(5,4)])
  then have "sys_step drv C B view is_print (q_sys s) (q_sys s')"
    using sys_step.work [OF work_cut(2,5), of C B view is_print] work_cut(1) by simp
  moreover have "(sy_workers (q_sys s))[i := ws] ! j = sy_workers (q_sys s) ! j" if "j \<notin> q_cut s" for j
    using that work_cut(3) by (intro nth_list_update_neq) auto
  then have "linked ready unacked s'" using work_cut(1) inv by (auto simp: linked_def)
  ultimately show ?thesis by blast
next
  case (cut i)
  with inv held_close [OF laws] show ?thesis by (auto simp: linked_def broker_lawsD(10) [OF laws])
next
  case (restart i)
  with inv held_close [OF laws] show ?thesis
    by (auto simp: linked_def broker_lawsD(10) [OF laws] holds_msg_def)
qed

lemma q_crash_linked:
  assumes laws: "broker_laws Br ready unacked" and step: "q_crash Br s s'" and inv: "linked ready unacked s"
  shows "linked ready unacked s' \<and> crash (q_sys s) (q_sys s')"
  using step
proof (cases rule: q_crash.cases)
  case (drop_request i)
  with inv show ?thesis by (auto simp: linked_def intro: crash.drop_request)
next
  case (drop_worker i)
  have "crash (q_sys s) (q_sys s')" using drop_worker by (auto intro: crash.drop_worker)
  moreover have "linked ready unacked s'"
    using drop_worker inv held_close [OF laws]
    by (auto simp: linked_def broker_lawsD(10) [OF laws] holds_msg_def nth_list_update)
  ultimately show ?thesis by blast
qed

lemma q_any_linked:
  assumes "broker_laws Br ready unacked" and "q_any Br drv C B view is_print s s'" and "linked ready unacked s"
  shows "linked ready unacked s' \<and> (sys_any drv C B view is_print)\<^sup>*\<^sup>* (q_sys s) (q_sys s')"
  using assms(2) unfolding q_any_def
proof
  assume "q_step Br drv C B view is_print s s'"
  from q_step_linked [OF assms(1) this assms(3)] sys_steps_any show ?thesis by blast
next
  assume "q_crash Br s s'"
  from q_crash_linked [OF assms(1) this assms(3)] show ?thesis by (auto simp: sys_any_def)
qed

lemma q_init_linked: "q_init view ready unacked n s \<Longrightarrow> linked ready unacked s"
  by (simp add: q_init_def sys_init_def linked_def held_def holds_msg_def)

lemma queued_steps_simulated:
  assumes "broker_laws Br ready unacked" and "(q_any Br drv C B view is_print)\<^sup>*\<^sup>* s s'"
    and "linked ready unacked s"
  shows "linked ready unacked s' \<and> (sys_any drv C B view is_print)\<^sup>*\<^sup>* (q_sys s) (q_sys s')"
  using assms(2)
proof (induction rule: rtranclp_induct)
  case base
  with assms(3) show ?case by simp
next
  case (step y z)
  then show ?case using q_any_linked [OF assms(1) step.hyps(2)] by (meson rtranclp_trans)
qed

end
