(* ===== verification/Broker_Cover.thy ===== *)
theory Broker_Cover
  imports Broker
begin

section \<open>No published task is lost silently\<close>

text \<open>
  For every message that was published and can be decoded: the row of its task is final, or the
  broker still has a message for the task, or the worker has abandoned it (\<open>abandons\<close>), or a
  worker whose channel had closed marked it PROCESSING (\<open>starts_late\<close>). The invariant is by task, so that duplicates and retries, which all name the task, count.
\<close>

definition msg_for :: "delivery \<Rightarrow> int \<Rightarrow> bool" where
  "msg_for m i \<longleftrightarrow> (\<exists>p. unmarshal_payload (Body m) = Some p \<and> payload_ID p = i)"

definition final_task :: "database \<Rightarrow> int \<Rightarrow> bool" where
  "final_task db i \<longleftrightarrow> (\<exists>t. task_at db i = Some t \<and> (Status t = ''SUCCESS'' \<or> Status t = ''FAILED''))"

definition covered ::
  "('b \<Rightarrow> delivery multiset) \<Rightarrow> ('b \<Rightarrow> nat \<Rightarrow> delivery option) \<Rightarrow> ('r, 'b) queued \<Rightarrow> int \<Rightarrow> bool" where
  "covered ready unacked s i \<longleftrightarrow> final_task (q_db s) i \<or>
     (\<exists>m. held ready unacked (q_broker s) m \<and> msg_for m i) \<or> i \<in> set (q_lost s)"

definition all_covered ::
  "('b \<Rightarrow> delivery multiset) \<Rightarrow> ('b \<Rightarrow> nat \<Rightarrow> delivery option) \<Rightarrow> ('r, 'b) queued \<Rightarrow> bool" where
  "all_covered ready unacked s \<longleftrightarrow>
     (\<forall>m \<in> set (q_published s). \<forall>i. msg_for m i \<longrightarrow> covered ready unacked s i)"

definition q_inv ::
  "('r \<Rightarrow> string \<Rightarrow> string option) \<Rightarrow> (nat \<Rightarrow> bool) \<Rightarrow> ('b \<Rightarrow> delivery multiset) \<Rightarrow>
     ('b \<Rightarrow> nat \<Rightarrow> delivery option) \<Rightarrow> ('r, 'b) queued \<Rightarrow> bool" where
  "q_inv view is_print ready unacked s \<longleftrightarrow>
     sys_inv view is_print (q_sys s) \<and> linked ready unacked s \<and> all_covered ready unacked s"

lemma msg_for_retry [simp]: "msg_for (retry_message m n) i \<longleftrightarrow> msg_for m i"
  by (simp add: msg_for_def)

lemma msg_for_inject: "msg_for m i \<Longrightarrow> msg_for m j \<Longrightarrow> i = j"
  by (auto simp: msg_for_def)

lemma all_covered_step:
  assumes "all_covered ready unacked s"
    and fin: "\<And>i. final_task (q_db s) i \<Longrightarrow> final_task (q_db s') i"
    and kept: "\<And>m. held ready unacked (q_broker s) m \<Longrightarrow> held ready unacked (q_broker s') m"
    and lost: "set (q_lost s) \<subseteq> set (q_lost s')"
    and pub: "\<And>m. m \<in> set (q_published s') \<Longrightarrow> m \<in> set (q_published s) \<or> held ready unacked (q_broker s') m"
  shows "all_covered ready unacked s'"
  unfolding all_covered_def covered_def
proof (intro ballI allI impI)
  fix m i assume m: "m \<in> set (q_published s')" "msg_for m i"
  from pub [OF m(1)] show "final_task (q_db s') i \<or>
      (\<exists>m. held ready unacked (q_broker s') m \<and> msg_for m i) \<or> i \<in> set (q_lost s')"
  proof
    assume "m \<in> set (q_published s)"
    with assms(1) m(2) have "covered ready unacked s i" by (simp add: all_covered_def)
    with fin kept lost show ?thesis unfolding covered_def by blast
  next
    assume "held ready unacked (q_broker s') m"
    with m(2) show ?thesis by blast
  qed
qed

subsection \<open>Requests leave the rows there are\<close>

lemma request_step_rows:
  assumes wf: "wf_db (w_db w)"
    and run: "request_step (NewTaskRepository drv) (NewUserRepository drv) C B is_print env x w = (x', w')"
    and row: "task_at (w_db w) i = Some t"
  shows "task_at (w_db w') i = Some t"
proof (cases x)
  case (Creating u)
  with run obtain db' where
    c: "create_txn (NewTaskRepository drv) (ph_create env) u (w_db w) = (x', db')" "w' = w\<lparr>w_db := db'\<rparr>"
    by (auto simp: request_step_def split: prod.splits)
  with create_txn_cases [OF c(1)] task_repo.create_ok row show ?thesis by fastforce
next
  case (Inserting n h)
  with run row insert_user_ok [OF wf] show ?thesis by (auto simp: request_step_def task_at_def)
qed (use run row in \<open>auto simp: request_step_def split: option.splits sum.splits\<close>)

lemma request_step_final:
  "wf_db (w_db w) \<Longrightarrow>
   request_step (NewTaskRepository drv) (NewUserRepository drv) C B is_print env x w = (x', w') \<Longrightarrow>
   final_task (w_db w) i \<Longrightarrow> final_task (w_db w') i"
  unfolding final_task_def using request_step_rows by blast

subsection \<open>What a step of a worker does to the row of its task and to others\<close>

lemma worker_step_steps_at:
  assumes run: "worker_step (NewTaskRepository drv) env ws db = (ws', db', cmds)" and ok: "worker_ok msgs ws"
    and m: "holds_msg ws = Some m"
  shows "db' = db \<and> (\<forall>i. \<not> msg_for m i) \<or> (\<exists>i. msg_for m i \<and> steps_at i db db')"
proof (cases ws)
  case Idle
  with m show ?thesis by (simp add: holds_msg_def)
next
  case (Received msg)
  with run m task_repo.processing_steps show ?thesis
    by (fastforce simp: worker_step_def holds_msg_def msg_for_def split: option.splits prod.splits)
next
  case (Processing msg p)
  with run m ok task_repo.result_steps show ?thesis
    by (fastforce simp: worker_step_def holds_msg_def msg_for_def worker_ok_def split: option.splits prod.splits)
next
  case (Unrecorded msg p)
  with run m ok task_repo.give_up_steps show ?thesis
    by (fastforce simp: worker_step_def holds_msg_def msg_for_def worker_ok_def split: prod.splits)
qed

lemma worker_step_other_rows:
  assumes "worker_step (NewTaskRepository drv) env ws db = (ws', db', cmds)" and "worker_ok msgs ws"
    and "holds_msg ws = Some m" and "\<not> msg_for m j"
  shows "task_at db' j = task_at db j"
  using worker_step_steps_at [OF assms(1-3)] assms(4) steps_at_row(2) by metis

lemma result_recorded:
  "mark_result (NewTaskRepository drv) st i taskErr db = (None, db') \<Longrightarrow> task_at db i \<noteq> None \<Longrightarrow> final_task db' i"
  by (auto simp: mark_result_def final_task_def task_at_update_tasks
      dest!: task_repo.success_ok task_repo.failed_ok split: option.splits)

lemma failure_recorded:
  "repo_MarkFailed (NewTaskRepository drv) st i msg db = (None, db') \<Longrightarrow> task_at db i \<noteq> None \<Longrightarrow> final_task db' i"
  by (auto simp: final_task_def task_at_update_tasks dest!: task_repo.failed_ok)

text \<open>The task of the message a worker holds stays covered by each of its steps.\<close>

lemma processing_covers:
  assumes "worker_step (NewTaskRepository drv) env (Processing m p) db = (ws', db', cmds)"
    and "payload_ID p = i" and "task_at db i \<noteq> None"
  shows "cmds = [] \<or> final_task db' i"
proof -
  from assms(1,2) have "cmds = [] \<or> run_stmt (we_tx2 env)
      (mark_result (NewTaskRepository drv) (we_st2 env) i (fst (handleTask p))) db = (None, db')"
    by (auto simp: worker_step_def split: option.splits prod.splits)
  then show ?thesis by (auto dest!: run_stmt_None intro: result_recorded [OF _ assms(3)])
qed

lemma unrecorded_covers:
  assumes run: "worker_step (NewTaskRepository drv) env (Unrecorded m p) db = (ws', db', cmds)"
    and p: "payload_ID p = i" and row: "task_at db i \<noteq> None"
    and kept: "\<not> abandons (NewTaskRepository drv) env m i db"
  shows "final_task db' i \<or> retry_message m (retry_count m + 1) \<in> set (sent_of cmds)"
proof (cases "3 <=s retry_count m")
  case True
  let ?mark = "run_stmt (we_tx3 env) (repo_MarkFailed (NewTaskRepository drv) (we_st3 env) i ''max retries reached'') db"
  have "fst ?mark = None" using True kept by (simp add: abandons_def)
  moreover have "db' = snd ?mark" using run p True by (simp add: worker_step_def retry_or_give_up_def)
  ultimately have "?mark = (None, db')" by (simp add: prod_eq_iff)
  from failure_recorded [OF run_stmt_None [OF this] row] show ?thesis ..
next
  case False
  with kept have "publish_sent (we_publish env)" by (simp add: abandons_def)
  with run False show ?thesis
    by (auto simp: worker_step_def retry_or_give_up_def Let_def sent_of_def split: option.splits)
qed

lemma worker_step_covers:
  assumes laws: "broker_laws Br ready unacked"
    and run: "worker_step (NewTaskRepository drv) env ws db = (ws', db', cmds)" and ok: "worker_ok msgs ws"
    and m: "holds_msg ws = Some m" "unacked b k = Some m" and i: "msg_for m i" and row: "task_at db i \<noteq> None"
  shows "final_task db' i \<or> (\<exists>m'. held ready unacked (br_cmds Br k settled cmds b) m' \<and> msg_for m' i) \<or>
    i \<in> set (abandoned (NewTaskRepository drv) env ws db)"
proof -
  have held: "held ready unacked b m" using m(2) by (auto simp: held_def)
  from m(1) ok i consider "ws = Received m" | p where "ws = Processing m p" "payload_ID p = i"
    | p where "ws = Unrecorded m p" "payload_ID p = i"
    by (cases ws) (auto simp: holds_msg_def worker_ok_def msg_for_def)
  then show ?thesis
  proof cases
    case 1
    with run i have "cmds = [] \<or> cmds = [Nack True]"
      by (auto simp: worker_step_def msg_for_def split: option.splits prod.splits)
    with held held_nack_requeue [OF laws held] i show ?thesis by (auto simp del: br_cmds_simps(2))
  next
    case 2
    with processing_covers [OF run [unfolded 2(1)] 2(2) row] held i show ?thesis by auto
  next
    case 3
    show ?thesis
    proof (cases "abandons (NewTaskRepository drv) env m i db")
      case True
      with 3 show ?thesis by (simp add: abandoned_def)
    next
      case False
      from unrecorded_covers [OF run [unfolded 3(1)] 3(2) row False] sent_cmds_ready [OF laws] msg_for_retry i
      show ?thesis by (fastforce simp: held_def)
    qed
  qed
qed

lemma idle_keeps:
  "holds_msg w = None \<Longrightarrow> worker_step R env w db = (ws, db', cmds) \<Longrightarrow> db' = db \<and> cmds = []"
  by (auto simp: holds_msg_def worker_step_def split: wstate.splits)

text \<open>A worker whose channel has closed takes a task back from its final state only by starting it.\<close>

lemma late_step_final:
  assumes run: "worker_step (NewTaskRepository drv) env ws db = (ws', db', cmds)" and ok: "worker_ok msgs ws"
    and fin: "final_task db i"
  shows "final_task db' i \<or> i \<in> set (starts_late ws)"
proof (cases "\<exists>m. holds_msg ws = Some m \<and> msg_for m i")
  case False
  then show ?thesis
    using fin idle_keeps [OF _ run] worker_step_other_rows [OF run ok]
    by (cases "holds_msg ws") (auto simp: final_task_def)
next
  case True
  then obtain m where m: "holds_msg ws = Some m" "msg_for m i" by blast
  have row: "task_at db i \<noteq> None" using fin by (auto simp: final_task_def)
  from m ok consider "ws = Received m" | p where "ws = Processing m p" "payload_ID p = i"
    | p where "ws = Unrecorded m p" "payload_ID p = i"
    by (cases ws) (auto simp: holds_msg_def worker_ok_def msg_for_def)
  then show ?thesis
  proof cases
    case 1
    with m(2) show ?thesis by (auto simp: starts_late_def msg_for_def)
  next
    case 2
    obtain r where "run_stmt (we_tx2 env) (mark_result (NewTaskRepository drv) (we_st2 env) i (fst (handleTask p))) db
        = (r, db')" using run 2 by (auto simp: worker_step_def split: option.splits prod.splits)
    from run_stmt_store [OF this] fin result_recorded [OF _ row] show ?thesis by blast
  next
    case 3
    show ?thesis
    proof (cases "3 <=s retry_count m")
      case True
      let ?mark = "run_stmt (we_tx3 env)
          (repo_MarkFailed (NewTaskRepository drv) (we_st3 env) i ''max retries reached'') db"
      have "?mark = (fst ?mark, db')"
        using run 3 True by (auto simp: worker_step_def retry_or_give_up_def prod_eq_iff)
      from run_stmt_store [OF this] fin failure_recorded [OF _ row] show ?thesis by blast
    next
      case False
      with run 3 fin show ?thesis
        by (auto simp: worker_step_def retry_or_give_up_def Let_def split: option.splits prod.splits)
    qed
  qed
qed

subsection \<open>Every step keeps it\<close>

text \<open>A step of a worker leaves other tasks covered, and sends nothing for them.\<close>

lemma other_task_covered:
  assumes laws: "broker_laws Br ready unacked"
    and run: "worker_step (NewTaskRepository drv) env w db = (ws, db', cmds)" and wok: "worker_ok msgs w"
    and m: "holds_msg w = Some m" "unacked (q_broker s) k = Some m" and other: "\<not> msg_for m i"
    and s': "q_db s = db" "q_db s' = db'" "q_broker s' = br_cmds Br k settled cmds (q_broker s)"
      "set (q_lost s) \<subseteq> set (q_lost s')"
    and cov: "covered ready unacked s i"
  shows "covered ready unacked s' i"
proof -
  note rows = worker_step_other_rows [OF run wok m(1) other]
  from cov consider "final_task (q_db s) i" | x where "held ready unacked (q_broker s) x" "msg_for x i"
    | "i \<in> set (q_lost s)" unfolding covered_def by blast
  then show ?thesis
  proof cases
    case 1
    with rows s'(1,2) show ?thesis by (simp add: covered_def final_task_def)
  next
    case 2
    with other m(2) have "unacked (q_broker s) k \<noteq> Some x" by auto
    from held_cmds [OF laws 2(1) this] 2(2) s'(3) show ?thesis by (auto simp: covered_def)
  next
    case 3
    with s'(4) show ?thesis by (auto simp: covered_def)
  qed
qed

lemma sent_for_own_task:
  assumes "worker_step R env w db = (ws, db', cmds)" and "m' \<in> set (sent_of cmds)"
    and "holds_msg w = Some m" and "msg_for m' i"
  shows "msg_for m i"
  using worker_step_sent [OF assms(1,2)] assms(3,4) by (auto simp: holds_msg_def)

lemma work_covered:
  assumes laws: "broker_laws Br ready unacked" and inv: "q_inv view is_print ready unacked s"
    and k: "k < length (sy_workers (q_sys s))" "k \<notin> q_cut s"
    and run: "worker_step (NewTaskRepository drv) env (sy_workers (q_sys s) ! k) (q_db s) = (ws, db', cmds)"
    and s': "q_db s' = db'" "q_published s' = q_published s @ sent_of cmds"
      "q_broker s' = br_cmds Br k settled cmds (q_broker s)"
      "q_lost s' = q_lost s @ abandoned (NewTaskRepository drv) env (sy_workers (q_sys s) ! k) (q_db s)"
  shows "all_covered ready unacked s'"
proof (cases "holds_msg (sy_workers (q_sys s) ! k)")
  case None
  from inv have "all_covered ready unacked s" by (simp add: q_inv_def)
  then show ?thesis
    by (rule all_covered_step) (simp_all add: s' idle_keeps [OF None run] sent_of_def)
next
  case (Some m)
  from inv have sinv: "sys_inv view is_print (q_sys s)" and link: "linked ready unacked s"
    and cov: "all_covered ready unacked s" by (simp_all add: q_inv_def)
  note un = linkedD(1) [OF link k Some]
  have wok: "worker_ok (set (q_published s)) (sy_workers (q_sys s) ! k)"
    using sys_invD(2) [OF sinv] k(1) by simp
  have mpub: "m \<in> set (q_published s)" using linkedD(3) [OF link] un by (auto simp: held_def)
  show ?thesis
    unfolding all_covered_def
  proof (intro ballI allI impI)
    fix m' i assume m': "m' \<in> set (q_published s')" "msg_for m' i"
    show "covered ready unacked s' i"
    proof (cases "msg_for m i")
      case True
      have "msg_ok is_print (q_db s) m" using sys_invD(1) [OF sinv] mpub by (simp add: world_ok_def)
      then have "task_at (q_db s) i \<noteq> None"
        using True msg_ok_payload by (fastforce simp: msg_for_def)
      from worker_step_covers [OF laws run wok Some un True this, of settled] s' show ?thesis
        by (auto simp: covered_def)
    next
      case False
      with m' sent_for_own_task [OF run _ Some] have "m' \<in> set (q_published s)" by (auto simp: s'(2))
      with cov m'(2) have "covered ready unacked s i" by (simp add: all_covered_def)
      from other_task_covered [OF laws run wok Some un False refl s'(1,3) _ this] show ?thesis
        by (simp add: s'(4))
    qed
  qed
qed

lemma q_step_covered:
  assumes laws: "broker_laws Br ready unacked" and step: "q_step Br drv C B view is_print s s'"
    and inv: "q_inv view is_print ready unacked s"
  shows "all_covered ready unacked s'"
proof -
  from inv have sinv: "sys_inv view is_print (q_sys s)" and link: "linked ready unacked s"
    and cov: "all_covered ready unacked s" by (simp_all add: q_inv_def)
  show ?thesis
    using step
  proof (cases rule: q_step.cases)
    case (arrive x)
    then show ?thesis by (intro all_covered_step [OF cov]) auto
  next
    case (request i env x w')
    have wf: "wf_db (q_db s)" using sys_invD(1) [OF sinv] by (simp add: world_ok_def)
    obtain new where new: "w_published w' = q_published s @ new"
      using request_step_published [OF request(4)] by blast
    with request(1) request_step_final [OF wf request(4)] show ?thesis
      by (intro all_covered_step [OF cov]) (auto simp: held_publishes [OF laws])
  next
    case (expire r')
    then show ?thesis by (intro all_covered_step [OF cov]) auto
  next
    case (deliver i msg b')
    then show ?thesis by (intro all_covered_step [OF cov]) (auto simp: held_deliver [OF laws deliver(5)])
  next
    case (work i wenv ws db' cmds ok)
    then show ?thesis by (intro work_covered [OF laws inv work(2,3,4)]) simp_all
  next
    case (work_cut i wenv ws db' cmds)
    have ok: "worker_ok (set (q_published s)) (sy_workers (q_sys s) ! i)"
      using sys_invD(2) [OF sinv] work_cut(2) by simp
    have "covered ready unacked s' j" if "covered ready unacked s j" for j
      using that late_step_final [OF work_cut(5) ok, of j] work_cut(1) by (auto simp: covered_def)
    with cov work_cut(1) show ?thesis by (simp add: all_covered_def)
  next
    case (cut i)
    then show ?thesis by (intro all_covered_step [OF cov]) (auto simp: held_close [OF laws])
  next
    case (restart i)
    then show ?thesis by (intro all_covered_step [OF cov]) (auto simp: held_close [OF laws])
  qed
qed

lemma q_any_inv:
  assumes laws: "broker_laws Br ready unacked" and redis: "redis_laws C view"
    and step: "q_any Br drv C B view is_print s s'" and inv: "q_inv view is_print ready unacked s"
  shows "q_inv view is_print ready unacked s'"
proof -
  from inv have sinv: "sys_inv view is_print (q_sys s)" and link: "linked ready unacked s"
    and cov: "all_covered ready unacked s" by (simp_all add: q_inv_def)
  from q_any_linked [OF laws step link] sys_steps_inv [OF redis _ sinv]
  have "sys_inv view is_print (q_sys s')" "linked ready unacked s'" by blast+
  moreover have "all_covered ready unacked s'"
    using step unfolding q_any_def
  proof
    assume "q_step Br drv C B view is_print s s'"
    then show ?thesis by (rule q_step_covered [OF laws _ inv])
  next
    assume "q_crash Br s s'"
    then show ?thesis
      by (cases rule: q_crash.cases) (intro all_covered_step [OF cov], auto simp: held_close [OF laws])+
  qed
  ultimately show ?thesis by (simp add: q_inv_def)
qed

lemma q_init_inv:
  assumes "q_init view ready unacked n s"
  shows "q_inv view is_print ready unacked s"
proof -
  from assms have init: "sys_init view n (q_sys s)" by (simp add: q_init_def)
  then have "all_covered ready unacked s" by (simp add: all_covered_def sys_init_def)
  with sys_init_inv [OF init] q_init_linked [OF assms] show ?thesis by (simp add: q_inv_def)
qed

lemma q_steps_inv:
  assumes "broker_laws Br ready unacked" and "redis_laws C view"
    and "(q_any Br drv C B view is_print)\<^sup>*\<^sup>* s s'" and "q_inv view is_print ready unacked s"
  shows "q_inv view is_print ready unacked s'"
  using assms(3)
  by (induction rule: rtranclp_induct) (auto intro: assms(4) q_any_inv [OF assms(1,2)])

end
