(* ===== verification/Broker_Drain.thy ===== *)
theory Broker_Drain
  imports Broker_Cover Task_Properties
begin

section \<open>What is left to do for the workers\<close>

text \<open>
  \<open>work_left\<close> counts what the broker and the workers still have to do. A step of a worker without
  faults lowers it, abandons no task, and sends only the same body again.
\<close>

definition load :: "wstate \<Rightarrow> delivery option \<Rightarrow> nat" where
  "load ws u =
     (case ws of Idle \<Rightarrow> if u = None then 0 else 5 | Received m \<Rightarrow> 3 | Processing m p \<Rightarrow> 2
      | Unrecorded m p \<Rightarrow> 5)"

definition work_left ::
  "('b \<Rightarrow> delivery multiset) \<Rightarrow> ('b \<Rightarrow> nat \<Rightarrow> delivery option) \<Rightarrow> ('r, 'b) queued \<Rightarrow> nat" where
  "work_left ready unacked s = 4 * size (ready (q_broker s)) +
     (\<Sum>i<length (sy_workers (q_sys s)). load (sy_workers (q_sys s) ! i) (unacked (q_broker s) i))"

text \<open>The server accepts every text the workers record for the messages there are.\<close>

definition accepts :: "driver \<Rightarrow> delivery list \<Rightarrow> bool" where
  "accepts drv msgs \<longleftrightarrow> text_error drv ''max retries reached'' = None \<and>
     (\<forall>m \<in> set msgs. \<forall>p. unmarshal_payload (Body m) = Some p \<longrightarrow> texts_ok drv p)"

lemma accepts_bodies: "accepts drv msgs \<Longrightarrow> Body ` set msgs' \<subseteq> Body ` set msgs \<Longrightarrow> accepts drv msgs'"
  unfolding accepts_def by fastforce

lemma load_0: "load ws u = 0 \<Longrightarrow> ws = Idle \<and> u = None"
  by (cases ws) (auto simp: load_def split: if_splits)

lemma work_left_0:
  assumes "work_left ready unacked s = 0" and "linked ready unacked s"
  shows "ready (q_broker s) = {#}" and "unacked (q_broker s) i = None"
proof -
  from assms(1) show "ready (q_broker s) = {#}" by (simp add: work_left_def)
  show "unacked (q_broker s) i = None"
  proof (cases "i < length (sy_workers (q_sys s))")
    case True
    with assms(1) have "load (sy_workers (q_sys s) ! i) (unacked (q_broker s) i) = 0"
      by (simp add: work_left_def)
    from load_0 [OF this] show ?thesis ..
  next
    case False
    with linkedD(2) [OF assms(2)] show ?thesis by simp
  qed
qed

lemma sum_except:
  fixes f g :: "nat \<Rightarrow> nat"
  assumes "k < n" and "\<And>j. j \<noteq> k \<Longrightarrow> g j = f j"
  shows "(\<Sum>i<n. g i) + f k = (\<Sum>i<n. f i) + g k"
proof -
  have "sum g ({..<n} - {k}) = sum f ({..<n} - {k})" using assms(2) by (intro sum.cong) auto
  with assms(1) show ?thesis
    using sum.remove [of "{..<n}" k f] sum.remove [of "{..<n}" k g] by simp
qed

lemma work_left_less:
  assumes "k < length (sy_workers (q_sys s))"
    and "length (sy_workers (q_sys s')) = length (sy_workers (q_sys s))"
    and "\<And>j. j \<noteq> k \<Longrightarrow> sy_workers (q_sys s') ! j = sy_workers (q_sys s) ! j \<and>
      unacked (q_broker s') j = unacked (q_broker s) j"
    and "4 * size (ready (q_broker s')) + load (sy_workers (q_sys s') ! k) (unacked (q_broker s') k)
      < 4 * size (ready (q_broker s)) + load (sy_workers (q_sys s) ! k) (unacked (q_broker s) k)"
  shows "work_left ready unacked s' < work_left ready unacked s"
  using sum_except [OF assms(1), of "\<lambda>i. load (sy_workers (q_sys s') ! i) (unacked (q_broker s') i)"
      "\<lambda>i. load (sy_workers (q_sys s) ! i) (unacked (q_broker s) i)"] assms(2-4)
  by (simp add: work_left_def)

subsection \<open>A step of a worker without faults\<close>

text \<open>
  What each kind of step does: it lowers the load by settling, by the first transaction, or by a
  republication; it abandons nothing and sends only the same body again.
\<close>

lemma received_plain:
  assumes laws: "broker_laws Br ready unacked" and m: "unacked b k = Some m"
    and int4: "\<And>p. unmarshal_payload (Body m) = Some p \<Longrightarrow> int4_ok (payload_ID p)"
    and run: "worker_step (NewTaskRepository drv) (plain_worker_env now) (Received m) db = (ws', db', cmds)"
  shows "4 * size (ready (br_cmds Br k True cmds b)) + load ws' (unacked (br_cmds Br k True cmds b) k)
      < 4 * size (ready b) + load (Received m) (unacked b k) \<and> sent_of cmds = []"
proof (cases "unmarshal_payload (Body m)")
  case None
  with run m show ?thesis
    by (auto simp: worker_step_def load_def br_cmd_def broker_lawsD(7,8) [OF laws] sent_of_def)
next
  case (Some p)
  have "run_stmt plain_tx (TaskRepository_MarkProcessing drv (plain_stmt now 0) (payload_ID p)) db =
      (None, update_tasks (payload_ID p) (\<lambda>t. t\<lparr>Status := ''PROCESSING'', UpdatedAt := utc now\<rparr>) db)"
    using int4 [OF Some] by (simp add: run_stmt_plain TaskRepository_MarkProcessing_def plain_stmt_def)
  with Some run m show ?thesis
    by (auto simp: worker_step_def load_def plain_worker_env_def NewTaskRepository_def sent_of_def)
qed

lemma processing_plain:
  assumes laws: "broker_laws Br ready unacked" and m: "unacked b k = Some m"
    and ok: "int4_ok (payload_ID p)" "texts_ok drv p"
    and run: "worker_step (NewTaskRepository drv) (plain_worker_env now) (Processing m p) db = (ws', db', cmds)"
  shows "4 * size (ready (br_cmds Br k True cmds b)) + load ws' (unacked (br_cmds Br k True cmds b) k)
      < 4 * size (ready b) + load (Processing m p) (unacked b k) \<and> sent_of cmds = []"
proof -
  from mark_result_final [OF ok, of now db] run m show ?thesis
    by (auto simp: worker_step_def load_def plain_worker_env_def br_cmd_def broker_lawsD(5,6) [OF laws] sent_of_def)
qed

lemma unrecorded_plain:
  assumes laws: "broker_laws Br ready unacked" and m: "unacked b k = Some m"
    and ok: "int4_ok (payload_ID p)" "text_error drv ''max retries reached'' = None"
    and run: "worker_step (NewTaskRepository drv) (plain_worker_env now) (Unrecorded m p) db = (ws', db', cmds)"
  shows "4 * size (ready (br_cmds Br k True cmds b)) + load ws' (unacked (br_cmds Br k True cmds b) k)
      < 4 * size (ready b) + load (Unrecorded m p) (unacked b k) \<and> Body ` set (sent_of cmds) \<subseteq> {Body m} \<and>
    \<not> abandons (NewTaskRepository drv) (plain_worker_env now) m (payload_ID p) db"
proof (cases "3 <=s retry_count m")
  case True
  have "fst (run_stmt plain_tx (TaskRepository_MarkFailed drv (plain_stmt now 0) (payload_ID p)
      ''max retries reached'') db) = None"
    using ok by (simp add: run_stmt_plain TaskRepository_MarkFailed_def plain_stmt_def)
  with True run m show ?thesis
    by (auto simp: worker_step_def retry_or_give_up_def load_def abandons_def plain_worker_env_def
        NewTaskRepository_def br_cmd_def broker_lawsD(7,8) [OF laws] sent_of_def)
next
  case False
  with run m show ?thesis
    by (auto simp: worker_step_def retry_or_give_up_def Let_def load_def abandons_def plain_worker_env_def
        br_cmd_def broker_lawsD(1,2,5,6) [OF laws] publish_err_def publish_sent_def sent_of_def)
qed

lemma worker_step_plain:
  assumes laws: "broker_laws Br ready unacked" and m: "holds_msg ws = Some m" "unacked b k = Some m"
    and ok: "worker_ok msgs ws" and int4: "\<And>p. unmarshal_payload (Body m) = Some p \<Longrightarrow> int4_ok (payload_ID p)"
    and acc: "accepts drv [m]"
    and run: "worker_step (NewTaskRepository drv) (plain_worker_env now) ws db = (ws', db', cmds)"
  shows "4 * size (ready (br_cmds Br k True cmds b)) + load ws' (unacked (br_cmds Br k True cmds b) k)
      < 4 * size (ready b) + load ws (unacked b k)" (is ?less)
    and "abandoned (NewTaskRepository drv) (plain_worker_env now) ws db = []" (is ?none)
    and "Body ` set (sent_of cmds) \<subseteq> {Body m}" (is ?sent)
proof -
  have texts: "texts_ok drv p" if "unmarshal_payload (Body m) = Some p" for p
    using acc that by (simp add: accepts_def)
  have max: "text_error drv ''max retries reached'' = None" using acc by (simp add: accepts_def)
  consider (received) "ws = Received m" | (processing) p where "ws = Processing m p" "unmarshal_payload (Body m) = Some p"
    | (unrecorded) p where "ws = Unrecorded m p" "unmarshal_payload (Body m) = Some p"
    using m ok by (cases ws) (auto simp: holds_msg_def worker_ok_def)
  then have "?less \<and> ?none \<and> ?sent"
  proof cases
    case received
    with received_plain [OF laws m(2) int4] run show ?thesis by (simp add: abandoned_def)
  next
    case processing
    with processing_plain [OF laws m(2) int4 texts] run show ?thesis by (simp add: abandoned_def)
  next
    case unrecorded
    with unrecorded_plain [OF laws m(2) int4 max] run show ?thesis by (simp add: abandoned_def)
  qed
  then show ?less ?none ?sent by blast+
qed

subsection \<open>Progress\<close>

definition advances ::
  "('b \<Rightarrow> delivery multiset) \<Rightarrow> ('b \<Rightarrow> nat \<Rightarrow> delivery option) \<Rightarrow> ('r, 'b) queued \<Rightarrow> ('r, 'b) queued \<Rightarrow> bool" where
  "advances ready unacked s s' \<longleftrightarrow> q_cut s' = q_cut s \<and> work_left ready unacked s' < work_left ready unacked s \<and>
     q_lost s' = q_lost s \<and> sy_workers (q_sys s') \<noteq> [] \<and>
     Body ` set (q_published s') = Body ` set (q_published s)"

end
