(* ===== verification/Calm_Runs.thy ===== *)
theory Calm_Runs
  imports Broker_Drain Progress Statuses
begin

section \<open>Runs without faults\<close>

text \<open>
  The runs in which the workers take, handle and settle messages and nothing fails. Each step
  lowers \<open>work_left\<close>, so that every such run ends; it can go on as long as the broker has a message.
  A worker whose channel has closed is started again first (\<open>restart_cut\<close>), since the program
  opens no channel again.
\<close>

subsection \<open>Steps\<close>

definition steady ::
  "('r \<Rightarrow> string \<Rightarrow> string option) \<Rightarrow> (nat \<Rightarrow> bool) \<Rightarrow> ('b \<Rightarrow> delivery multiset) \<Rightarrow>
     ('b \<Rightarrow> nat \<Rightarrow> delivery option) \<Rightarrow> driver \<Rightarrow> ('r, 'b) queued \<Rightarrow> bool" where
  "steady view is_print ready unacked drv s \<longleftrightarrow> q_inv view is_print ready unacked s \<and>
     sy_workers (q_sys s) \<noteq> [] \<and> q_cut s = {} \<and> accepts drv (q_published s) \<and> statuses_ok (q_db s)"

text \<open>
  What the workers do when nothing fails and no request comes in: an idle one takes a message,
  a busy one goes on with what it holds, and one that is idle although the broker still waits
  for its acknowledgement, which was lost, is started again.
\<close>

inductive calm_step ::
  "'b amqp_broker \<Rightarrow> driver \<Rightarrow> ('b \<Rightarrow> nat \<Rightarrow> delivery option) \<Rightarrow> ('r, 'b) queued \<Rightarrow> ('r, 'b) queued \<Rightarrow> bool"
  for Br drv unacked where
  calm_deliver: "i < length (sy_workers (q_sys s)) \<Longrightarrow> sy_workers (q_sys s) ! i = Idle \<Longrightarrow> i \<notin> q_cut s \<Longrightarrow>
      br_deliver Br (q_broker s) i = Some (msg, b') \<Longrightarrow>
    calm_step Br drv unacked s
      (s\<lparr>q_sys := (q_sys s)\<lparr>sy_workers := (sy_workers (q_sys s))[i := Received msg]\<rparr>, q_broker := b'\<rparr>)"
| calm_work: "i < length (sy_workers (q_sys s)) \<Longrightarrow> sy_workers (q_sys s) ! i \<noteq> Idle \<Longrightarrow> i \<notin> q_cut s \<Longrightarrow>
      worker_step (NewTaskRepository drv) (plain_worker_env now) (sy_workers (q_sys s) ! i) (q_db s) =
        (ws, db', cmds) \<Longrightarrow>
    calm_step Br drv unacked s
      (s\<lparr>q_sys := (q_sys s)\<lparr>sy_world := (sy_world (q_sys s))\<lparr>w_db := db',
             w_published := q_published s @ sent_of cmds\<rparr>,
           sy_workers := (sy_workers (q_sys s))[i := ws]\<rparr>,
         q_broker := br_cmds Br i True cmds (q_broker s),
         q_lost := q_lost s @
           abandoned (NewTaskRepository drv) (plain_worker_env now) (sy_workers (q_sys s) ! i) (q_db s)\<rparr>)"
| calm_restart: "i < length (sy_workers (q_sys s)) \<Longrightarrow> sy_workers (q_sys s) ! i = Idle \<Longrightarrow>
      unacked (q_broker s) i \<noteq> None \<Longrightarrow>
    calm_step Br drv unacked s (s\<lparr>q_broker := br_close Br (q_broker s) i, q_cut := q_cut s - {i}\<rparr>)"

lemma calm_step_q_step: "calm_step Br drv unacked s s' \<Longrightarrow> q_step Br drv C B view is_print s s'"
  by (induction rule: calm_step.induct) (auto intro: q_step.intros)

lemma calm_work_advances:
  assumes laws: "broker_laws Br ready unacked" and st: "steady view is_print ready unacked drv s"
    and k: "k < length (sy_workers (q_sys s))" and busy: "sy_workers (q_sys s) ! k \<noteq> Idle"
    and run: "worker_step (NewTaskRepository drv) (plain_worker_env now) (sy_workers (q_sys s) ! k) (q_db s) = (ws, db', cmds)"
  shows "advances ready unacked s (s\<lparr>q_sys := (q_sys s)\<lparr>sy_world := (sy_world (q_sys s))\<lparr>w_db := db',
        w_published := q_published s @ sent_of cmds\<rparr>, sy_workers := (sy_workers (q_sys s))[k := ws]\<rparr>,
      q_broker := br_cmds Br k True cmds (q_broker s),
      q_lost := q_lost s @ abandoned (NewTaskRepository drv) (plain_worker_env now) (sy_workers (q_sys s) ! k) (q_db s)\<rparr>)"
    (is "advances _ _ _ ?s'")
proof -
  from st have sinv: "sys_inv view is_print (q_sys s)" and link: "linked ready unacked s" and cut: "q_cut s = {}"
    and acc: "accepts drv (q_published s)" by (simp_all add: steady_def q_inv_def)
  obtain m where holds: "holds_msg (sy_workers (q_sys s) ! k) = Some m"
    using busy by (cases "sy_workers (q_sys s) ! k") (simp_all add: holds_msg_def)
  note un = linkedD(1) [OF link k _ holds, unfolded cut, simplified]
  have mpub: "m \<in> set (q_published s)" using linkedD(3) [OF link] un by (auto simp: held_def)
  have wok: "worker_ok (set (q_published s)) (sy_workers (q_sys s) ! k)" using sys_invD(2) [OF sinv] k by simp
  have "msg_ok is_print (q_db s) m" using sys_invD(1) [OF sinv] mpub by (simp add: world_ok_def)
  note int4 = msg_ok_payload [OF this, THEN conjunct1]
  have acc1: "accepts drv [m]" using acc mpub by (simp add: accepts_def)
  note plain = worker_step_plain [OF laws holds un wok int4 acc1 run]
  have "work_left ready unacked ?s' < work_left ready unacked s"
    by (rule work_left_less [OF k]) (use k plain(1) in \<open>simp_all add: unacked_cmds [OF laws]\<close>)
  moreover have "Body ` set (q_published ?s') = Body ` set (q_published s)" using plain(3) mpub by auto
  moreover have "sy_workers (q_sys s) \<noteq> []" using k by auto
  ultimately show ?thesis using plain(2) by (simp add: advances_def)
qed

lemma calm_step_advances:
  assumes laws: "broker_laws Br ready unacked" and st: "steady view is_print ready unacked drv s"
    and step: "calm_step Br drv unacked s s'"
  shows "advances ready unacked s s'"
  using step
proof cases
  case (calm_deliver i msg b')
  note del = broker_lawsD(4) [OF laws calm_deliver(5)]
  then have "size (ready (q_broker s)) = Suc (size (ready b'))" by (metis size_Suc_Diff1)
  then have "work_left ready unacked s' < work_left ready unacked s"
    by (intro work_left_less [OF calm_deliver(2)]) (use calm_deliver del in \<open>auto simp: load_def\<close>)
  then show ?thesis using calm_deliver(1,2) by (auto simp: advances_def)
next
  case (calm_work i now ws db' cmds)
  from calm_work_advances [OF laws st calm_work(2,3,5)] calm_work(1) show ?thesis by simp
next
  case (calm_restart i)
  have "work_left ready unacked s' < work_left ready unacked s"
    by (rule work_left_less [OF calm_restart(2)])
      (use calm_restart in \<open>auto simp: broker_lawsD(9,10) [OF laws] load_def\<close>)
  then show ?thesis using calm_restart(1,2) st by (auto simp: advances_def steady_def)
qed

lemma calm_step_steady:
  assumes laws: "broker_laws Br ready unacked" and redis: "redis_laws C view"
    and st: "steady view is_print ready unacked drv s" and step: "calm_step Br drv unacked s s'"
  shows "steady view is_print ready unacked drv s'"
proof -
  have any: "q_any Br drv C undefined view is_print s s'" using calm_step_q_step [OF step] by (simp add: q_any_def)
  from q_any_inv [OF laws redis this] st have "q_inv view is_print ready unacked s'" by (simp add: steady_def)
  moreover from q_any_linked [OF laws any] st have "statuses_ok (q_db s')"
    using sys_runs_keep_statuses [OF redis] by (fastforce simp: steady_def q_inv_def)
  moreover note calm_step_advances [OF laws st step]
  ultimately show ?thesis using st accepts_bodies [of drv "q_published s" "q_published s'"]
    by (simp add: steady_def advances_def)
qed

text \<open>Such a step is possible as long as the broker has a message.\<close>

lemma calm_step_enabled:
  assumes laws: "broker_laws Br ready unacked" and st: "steady view is_print ready unacked drv s"
    and left: "work_left ready unacked s \<noteq> 0"
  shows "\<exists>s'. calm_step Br drv unacked s s'"
proof (cases "\<exists>k < length (sy_workers (q_sys s)). load (sy_workers (q_sys s) ! k) (unacked (q_broker s) k) \<noteq> 0")
  case True
  then obtain k where k: "k < length (sy_workers (q_sys s))"
    and ld: "load (sy_workers (q_sys s) ! k) (unacked (q_broker s) k) \<noteq> 0" by blast
  show ?thesis
  proof (cases "sy_workers (q_sys s) ! k = Idle")
    case True
    with ld have "unacked (q_broker s) k \<noteq> None" by (auto simp: load_def split: if_splits)
    from calm_step.calm_restart [where Br = Br and drv = drv and unacked = unacked, OF k True this] show ?thesis ..
  next
    case False
    obtain ws db' cmds where
      "worker_step (NewTaskRepository drv) (plain_worker_env 0) (sy_workers (q_sys s) ! k) (q_db s) = (ws, db', cmds)"
      by (metis prod_cases3)
    from calm_step.calm_work [OF k False _ this] st show ?thesis by (auto simp: steady_def)
  qed
next
  case False
  then have idle: "load (sy_workers (q_sys s) ! i) (unacked (q_broker s) i) = 0"
    if "i < length (sy_workers (q_sys s))" for i using that by blast
  have 0: "0 < length (sy_workers (q_sys s))" using st by (simp add: steady_def)
  from load_0 [OF idle [OF 0]] have i0: "sy_workers (q_sys s) ! 0 = Idle" "unacked (q_broker s) 0 = None" by simp_all
  from left idle have "ready (q_broker s) \<noteq> {#}" by (auto simp: work_left_def)
  with i0 broker_lawsD(3) [OF laws] obtain m b' where d: "br_deliver Br (q_broker s) 0 = Some (m, b')"
    by (metis not_None_eq surj_pair)
  from calm_step.calm_deliver [OF 0 i0(1) _ d] st show ?thesis by (auto simp: steady_def)
qed

subsection \<open>Runs without faults\<close>

lemma calm_run:
  assumes laws: "broker_laws Br ready unacked" and redis: "redis_laws C view"
    and st: "steady view is_print ready unacked drv s" and run: "(calm_step Br drv unacked ^^ n) s s'"
  shows "n + work_left ready unacked s' \<le> work_left ready unacked s \<and> steady view is_print ready unacked drv s' \<and>
    (q_step Br drv C B view is_print)\<^sup>*\<^sup>* s s' \<and> q_lost s' = q_lost s \<and>
    Body ` set (q_published s') = Body ` set (q_published s)"
  using run
proof (induction n arbitrary: s')
  case 0
  with st show ?case by simp
next
  case (Suc n)
  then obtain s1 where s1: "(calm_step Br drv unacked ^^ n) s s1" and step: "calm_step Br drv unacked s1 s'" by auto
  note IH = Suc.IH [OF s1]
  then have st1: "steady view is_print ready unacked drv s1" by simp
  have "q_step Br drv C B view is_print s1 s'" by (rule calm_step_q_step [OF step])
  with IH have "(q_step Br drv C B view is_print)\<^sup>*\<^sup>* s s'" by (meson rtranclp.rtrancl_into_rtrancl)
  with IH calm_step_advances [OF laws st1 step] calm_step_steady [OF laws redis st1 step] show ?case
    by (simp add: advances_def)
qed

lemma calm_run_ends:
  assumes laws: "broker_laws Br ready unacked" and redis: "redis_laws C view"
    and "steady view is_print ready unacked drv s"
  shows "\<exists>n s'. (calm_step Br drv unacked ^^ n) s s' \<and> (\<forall>s''. \<not> calm_step Br drv unacked s' s'')"
  using assms(3)
proof (induction "work_left ready unacked s" arbitrary: s rule: less_induct)
  case less
  show ?case
  proof (cases "\<exists>s1. calm_step Br drv unacked s s1")
    case True
    then obtain s1 where step: "calm_step Br drv unacked s s1" ..
    with calm_step_advances [OF laws less.prems] have "work_left ready unacked s1 < work_left ready unacked s"
      by (simp add: advances_def)
    from less.hyps [OF this calm_step_steady [OF laws redis less.prems step]] step show ?thesis
      by (meson relpowp_Suc_I2)
  next
    case False
    then have "\<forall>s''. \<not> calm_step Br drv unacked s s''" by blast
    moreover have "(calm_step Br drv unacked ^^ 0) s s" by simp
    ultimately show ?thesis by blast
  qed
qed

subsection \<open>What becomes of a task\<close>

text \<open>
  A task is on its track when it has not failed for want of retries and no worker is about to
  retry it or give it up. Without faults it stays there.
\<close>

definition on_track :: "int \<Rightarrow> ('r, 'b) queued \<Rightarrow> bool" where
  "on_track i s \<longleftrightarrow>
     (\<forall>t. task_at (q_db s) i = Some t \<longrightarrow> Status t = ''FAILED'' \<longrightarrow> TaskType t \<notin> set known_types) \<and>
     (\<forall>m p. Unrecorded m p \<in> set (sy_workers (q_sys s)) \<longrightarrow> payload_ID p \<noteq> i)"

lemma on_track_same:
  assumes "on_track i s" and "q_db s' = q_db s"
    and "\<And>m p. Unrecorded m p \<in> set (sy_workers (q_sys s')) \<Longrightarrow> Unrecorded m p \<in> set (sy_workers (q_sys s))"
  shows "on_track i s'"
  using assms unfolding on_track_def by metis

text \<open>The three steps of a worker, on the row of the task and on what the worker then holds.\<close>

lemma mark_processing_failed:
  assumes "run_stmt env (repo_MarkProcessing (NewTaskRepository drv) st j) db = (r, db')"
    and "task_at db' i = Some t" and "Status t = ''FAILED''"
  shows "task_at db i = Some t"
proof (cases "db' = db")
  case False
  with run_stmt_store [OF assms(1)] task_repo.processing_ok
  have "db' = update_tasks j (\<lambda>t. t\<lparr>Status := ''PROCESSING'', UpdatedAt := utc (st_now st)\<rparr>) db" by blast
  with assms(2,3) show ?thesis by (auto simp: task_at_update_tasks split: if_splits)
qed (use assms(2) in simp)

lemma processing_on_track:
  assumes db: "\<And>t. task_at db i = Some t \<Longrightarrow> Status t = ''FAILED'' \<Longrightarrow> TaskType t \<notin> set known_types"
    and type: "\<And>t. task_at db (payload_ID p) = Some t \<Longrightarrow> varchar 50 (payload_TaskType p) = Some (TaskType t)"
    and ok: "int4_ok (payload_ID p)" "texts_ok drv p"
    and run: "worker_step (NewTaskRepository drv) (plain_worker_env now) (Processing m p) db = (ws, d', cmds)"
  shows "ws = Idle \<and> (\<forall>t. task_at d' i = Some t \<longrightarrow> Status t = ''FAILED'' \<longrightarrow> TaskType t \<notin> set known_types)"
proof -
  have d': "ws = Idle \<and> d' = update_tasks (payload_ID p) (final_row p now) db"
    using run mark_result_final [OF ok, of now db] by (simp add: worker_step_def plain_worker_env_def)
  have "TaskType t \<notin> set known_types" if row: "task_at d' i = Some t" and failed: "Status t = ''FAILED''" for t
  proof (cases "i = payload_ID p")
    case True
    with row d' obtain t0 where t0: "task_at db i = Some t0" "t = final_row p now t0"
      by (auto simp: task_at_update_tasks)
    with failed have "payload_TaskType p \<notin> set known_types" by (simp add: final_row_status split: if_splits)
    moreover have "TaskType t = TaskType t0" using t0(2) by (simp add: final_row_def split: option.split)
    ultimately show ?thesis using varchar_known [OF type] t0(1) True by simp
  next
    case False
    with row d' have "task_at db i = Some t" by (simp add: task_at_update_tasks)
    from db [OF this failed] show ?thesis .
  qed
  with d' show ?thesis by blast
qed

lemma calm_work_on_track:
  assumes st: "steady view is_print ready unacked drv s" and track: "on_track i s"
    and k: "k < length (sy_workers (q_sys s))" and busy: "sy_workers (q_sys s) ! k \<noteq> Idle"
    and run: "worker_step (NewTaskRepository drv) (plain_worker_env now) (sy_workers (q_sys s) ! k) (q_db s) = (ws, db', cmds)"
  shows "(\<forall>t. task_at db' i = Some t \<longrightarrow> Status t = ''FAILED'' \<longrightarrow> TaskType t \<notin> set known_types) \<and>
    (\<forall>m p. ws \<noteq> Unrecorded m p)"
proof -
  from st have sinv: "sys_inv view is_print (q_sys s)" and acc: "accepts drv (q_published s)"
    by (simp_all add: steady_def q_inv_def)
  have w: "world_ok view is_print (sy_world (q_sys s))" by (rule sys_invD(1) [OF sinv])
  then have wf: "wf_db (q_db s)" by (simp add: world_ok_def)
  have wok: "worker_ok (set (q_published s)) (sy_workers (q_sys s) ! k)" using sys_invD(2) [OF sinv] k by simp
  have row: "TaskType t \<notin> set known_types" if "task_at (q_db s) i = Some t" "Status t = ''FAILED''" for t
    using track that by (simp add: on_track_def)
  show ?thesis
  proof (cases "sy_workers (q_sys s) ! k")
    case Idle
    with busy show ?thesis by simp
  next
    case (Received m)
    with run row mark_processing_failed show ?thesis
      by (fastforce simp: worker_step_def split: option.splits prod.splits)
  next
    case (Processing m p)
    with wok have m: "m \<in> set (q_published s)" "unmarshal_payload (Body m) = Some p" by (auto simp: worker_ok_def)
    with w have msg: "msg_ok is_print (q_db s) m" by (simp add: world_ok_def)
    have type: "varchar 50 (payload_TaskType p) = Some (TaskType t)" if "task_at (q_db s) (payload_ID p) = Some t" for t
      using msg_ok_type [OF msg m(2) wf] task_at_SomeD [OF that] by simp
    have ok: "int4_ok (payload_ID p)" "texts_ok drv p"
      using msg_ok_payload [OF msg m(2)] acc m by (auto simp: accepts_def)
    from processing_on_track [where i = i and db = "q_db s", OF row type ok run [unfolded Processing]]
    show ?thesis by blast
  next
    case (Unrecorded m p)
    with k track have "payload_ID p \<noteq> i" using nth_mem [OF k] by (auto simp: on_track_def)
    moreover obtain c where give: "retry_or_give_up (NewTaskRepository drv) (plain_worker_env now) m (payload_ID p) (q_db s) = (db', c)"
      and "ws = Idle" using run Unrecorded by (auto simp: worker_step_def split: prod.splits)
    ultimately show ?thesis using steps_at_row(2) [OF task_repo.give_up_steps [OF give], of i] row by auto
  qed
qed

lemma calm_step_on_track:
  assumes st: "steady view is_print ready unacked drv s" and track: "on_track i s"
    and step: "calm_step Br drv unacked s s'"
  shows "on_track i s'"
  using step
proof cases
  case (calm_work k now ws db' cmds)
  from calm_work_on_track [OF st track calm_work(2,3,5)] track calm_work(1) show ?thesis
    by (auto simp: on_track_def dest!: set_update_cases)
qed (rule on_track_same [OF track], auto dest: set_update_cases)+

lemma calm_run_on_track:
  assumes laws: "broker_laws Br ready unacked" and redis: "redis_laws C view"
    and st: "steady view is_print ready unacked drv s" and run: "(calm_step Br drv unacked ^^ n) s s'"
    and track: "on_track i s"
  shows "on_track i s'"
  using run
proof (induction n arbitrary: s')
  case 0
  with track show ?case by simp
next
  case (Suc n)
  then obtain s1 where s1: "(calm_step Br drv unacked ^^ n) s s1" and step: "calm_step Br drv unacked s1 s'" by auto
  from calm_run [OF laws redis st s1] have "steady view is_print ready unacked drv s1" by simp
  from calm_step_on_track [OF this Suc.IH [OF s1] step] show ?case .
qed

text \<open>
  What is left when such a run cannot go on: the broker has nothing, nothing more was lost, and
  every task has the status its type calls for, but for those that were not on their track.
\<close>

definition drained ::
  "('b \<Rightarrow> delivery multiset) \<Rightarrow> ('b \<Rightarrow> nat \<Rightarrow> delivery option) \<Rightarrow> ('r, 'b) queued \<Rightarrow> ('r, 'b) queued \<Rightarrow> bool" where
  "drained ready unacked s s' \<longleftrightarrow> ready (q_broker s') = {#} \<and> unacked (q_broker s') = Map.empty \<and>
     q_lost s' = q_lost s \<and>
     (\<forall>m \<in> set (q_published s). \<forall>p. unmarshal_payload (Body m) = Some p \<longrightarrow>
        payload_ID p \<in> set (q_lost s) \<or>
        (\<exists>t. task_at (q_db s') (payload_ID p) = Some t \<and>
           (Status t = (if TaskType t \<in> set known_types then ''SUCCESS'' else ''FAILED'') \<or>
            Status t = ''FAILED'' \<and> \<not> on_track (payload_ID p) s)))"

lemma drained_same:
  assumes "drained ready unacked s1 s'" and "q_lost s1 = q_lost s" and "q_published s1 = q_published s"
    and "\<forall>i. on_track i s \<longrightarrow> on_track i s1"
  shows "drained ready unacked s s'"
  using assms unfolding drained_def by metis

lemma final_status:
  assumes "final_task (q_db s) i" and "statuses_ok (q_db s)"
  shows "\<exists>t. task_at (q_db s) i = Some t \<and>
    (Status t = (if TaskType t \<in> set known_types then ''SUCCESS'' else ''FAILED'') \<or>
     Status t = ''FAILED'' \<and> \<not> on_track i s)"
proof -
  from assms(1) obtain t where t: "task_at (q_db s) i = Some t" "Status t \<in> {''SUCCESS'', ''FAILED''}"
    by (auto simp: final_task_def)
  have "status_ok t" using assms(2) task_at_SomeD [OF t(1)] by (simp add: list_all_iff)
  with t show ?thesis by (auto simp: status_ok_def on_track_def)
qed

lemma calm_run_drained:
  assumes laws: "broker_laws Br ready unacked" and redis: "redis_laws C view"
    and st: "steady view is_print ready unacked drv s" and run: "(calm_step Br drv unacked ^^ n) s s'"
    and stuck: "\<forall>s''. \<not> calm_step Br drv unacked s' s''"
  shows "drained ready unacked s s'"
proof -
  note after = calm_run [OF laws redis st run]
  with calm_step_enabled [OF laws] stuck have zero: "work_left ready unacked s' = 0" by blast
  from after have link: "linked ready unacked s'" and cov: "all_covered ready unacked s'"
    and ok: "statuses_ok (q_db s')" by (simp_all add: steady_def q_inv_def)
  note empty = work_left_0 [OF zero link]
  have final: "final_task (q_db s') i \<or> i \<in> set (q_lost s)" if m: "m \<in> set (q_published s)" "msg_for m i" for m i
  proof -
    from m(1) after obtain m' where m': "m' \<in> set (q_published s')" "Body m' = Body m" by (metis imageE imageI)
    with m(2) have "msg_for m' i" by (simp add: msg_for_def)
    with cov m'(1) have "covered ready unacked s' i" by (simp add: all_covered_def)
    with empty after show ?thesis by (simp add: covered_def held_def)
  qed
  have "i \<in> set (q_lost s) \<or> (\<exists>t. task_at (q_db s') i = Some t \<and>
      (Status t = (if TaskType t \<in> set known_types then ''SUCCESS'' else ''FAILED'') \<or>
       Status t = ''FAILED'' \<and> \<not> on_track i s))" if m: "m \<in> set (q_published s)" "msg_for m i" for m i
    using final [OF m] final_status [OF _ ok, of i] calm_run_on_track [OF laws redis st run, of i] by blast
  then have "\<forall>m \<in> set (q_published s). \<forall>p. unmarshal_payload (Body m) = Some p \<longrightarrow>
        payload_ID p \<in> set (q_lost s) \<or>
        (\<exists>t. task_at (q_db s') (payload_ID p) = Some t \<and>
           (Status t = (if TaskType t \<in> set known_types then ''SUCCESS'' else ''FAILED'') \<or>
            Status t = ''FAILED'' \<and> \<not> on_track (payload_ID p) s))" unfolding msg_for_def by blast
  moreover have "unacked (q_broker s') = Map.empty" using empty(2) by (simp add: fun_eq_iff)
  ultimately show ?thesis using empty(1) after by (simp add: drained_def)
qed

subsection \<open>Starting again\<close>

lemma restart_cut:
  assumes laws: "broker_laws Br ready unacked" and redis: "redis_laws C view"
    and "q_inv view is_print ready unacked s"
  shows "\<exists>s1. (q_crash Br)\<^sup>*\<^sup>* s s1 \<and> q_inv view is_print ready unacked s1 \<and> q_cut s1 = {} \<and>
    (q_cut s = {} \<longrightarrow> s1 = s) \<and> length (sy_workers (q_sys s1)) = length (sy_workers (q_sys s)) \<and>
    q_lost s1 = q_lost s \<and> q_published s1 = q_published s \<and> q_db s1 = q_db s \<and> (\<forall>i. on_track i s \<longrightarrow> on_track i s1)"
  using assms(3)
proof (induction "card (q_cut s)" arbitrary: s rule: less_induct)
  case less
  show ?case
  proof (cases "q_cut s = {}")
    case True
    with less.prems show ?thesis by blast
  next
    case False
    then obtain i where i: "i \<in> q_cut s" by blast
    from less.prems have link: "linked ready unacked s" by (simp add: q_inv_def)
    have "finite (q_cut s)"
      by (rule finite_subset [of _ "{..<length (sy_workers (q_sys s))}"]) (auto dest: linkedD(5) [OF link])
    with i have small: "card (q_cut s - {i}) < card (q_cut s)" by (rule card_Diff1_less [rotated])
    let ?s = "s\<lparr>q_sys := (q_sys s)\<lparr>sy_workers := (sy_workers (q_sys s))[i := Idle]\<rparr>,
      q_broker := br_close Br (q_broker s) i, q_cut := q_cut s - {i}\<rparr>"
    have step: "q_crash Br s ?s" by (rule q_crash.drop_worker [OF linkedD(5) [OF link i]])
    then have "q_any Br drv C B view is_print s ?s" for drv by (simp add: q_any_def)
    from q_any_inv [OF laws redis this less.prems] have "q_inv view is_print ready unacked ?s" .
    from less.hyps [OF _ this] small obtain s1 where run: "(q_crash Br)\<^sup>*\<^sup>* ?s s1" and s1: "q_inv view is_print ready unacked s1"
      "q_cut s1 = {}" "length (sy_workers (q_sys s1)) = length (sy_workers (q_sys s))"
      "q_lost s1 = q_lost s" "q_published s1 = q_published s" "q_db s1 = q_db s"
      and track: "\<forall>j. on_track j ?s \<longrightarrow> on_track j s1" by auto
    have "on_track j ?s" if "on_track j s" for j
      by (rule on_track_same [OF that]) (auto dest: set_update_cases)
    with track have "\<forall>j. on_track j s \<longrightarrow> on_track j s1" by blast
    have "(q_crash Br)\<^sup>*\<^sup>* s s1"
      using step run by (rule converse_rtranclp_into_rtranclp [where r = "q_crash Br"])
    with s1 False \<open>\<forall>j. on_track j s \<longrightarrow> on_track j s1\<close> show ?thesis by (intro exI [of _ s1] conjI) simp_all
  qed
qed

end
