(* ===== verification/Queue_Properties.thy ===== *)
theory Queue_Properties
  imports System_Properties Calm_Runs
begin

section \<open>Properties of the system with its queue\<close>

text \<open>The claims on the runs of Broker, with a broker that is a list as the instance.\<close>

subsection \<open>An example\<close>

type_synonym list_queue = "delivery list \<times> (nat \<rightharpoonup> delivery)"

definition requeued :: "list_queue \<Rightarrow> nat \<Rightarrow> list_queue" where
  "requeued b i = (case snd b i of None \<Rightarrow> b | Some m \<Rightarrow> (m # fst b, (snd b)(i := None)))"

definition list_broker :: "list_queue amqp_broker" where
  "list_broker =
     \<lparr>br_publish = (\<lambda>b m. (fst b @ [m], snd b)),
      br_deliver = (\<lambda>b i. case fst b of [] \<Rightarrow> None
        | m # ms \<Rightarrow> if snd b i = None then Some (m, (ms, (snd b)(i \<mapsto> m))) else None),
      br_ack = (\<lambda>b i. (fst b, (snd b)(i := None))),
      br_nack = (\<lambda>b i requeue. if requeue then requeued b i else (fst b, (snd b)(i := None))),
      br_close = requeued\<rparr>"

abbreviation list_ready :: "list_queue \<Rightarrow> delivery multiset" where
  "list_ready b \<equiv> mset (fst b)"

abbreviation list_unacked :: "list_queue \<Rightarrow> nat \<Rightarrow> delivery option" where
  "list_unacked b \<equiv> snd b"

lemma list_broker_laws: "broker_laws list_broker list_ready list_unacked"
  by (auto simp: broker_laws_def list_broker_def requeued_def fun_eq_iff
      split: option.splits list.splits if_splits)

text \<open>A task is created and its message published; the queue then holds that one message.\<close>

definition queued_start :: "(string \<rightharpoonup> string, list_queue) queued" where
  "queued_start = \<lparr>q_sys = start_system, q_broker = ([], Map.empty), q_cut = {}, q_lost = []\<rparr>"

definition queued_created :: "(string \<rightharpoonup> string, list_queue) queued" where
  "queued_created = \<lparr>q_sys = created_system,
     q_broker = ([task_message (\<lambda>_. True) example_created], Map.empty), q_cut = {}, q_lost = []\<rparr>"

abbreviation example_queue_step ::
  "(string \<rightharpoonup> string, list_queue) queued \<Rightarrow> (string \<rightharpoonup> string, list_queue) queued \<Rightarrow> bool" where
  "example_queue_step \<equiv> q_step list_broker plain_driver map_redis mark_bcrypt (\<lambda>r. r) (\<lambda>_. True)"

lemma queued_start_init: "q_init (\<lambda>r. r) list_ready list_unacked 3 queued_start"
  using start_init by (simp add: q_init_def queued_start_def)

lemma queued_steps: "example_queue_step\<^sup>*\<^sup>* queued_start queued_created"
proof -
  let ?env = "\<lparr>ph_create = plain_create_env 9 8, ph_query = plain_query, ph_user = example_user_env\<rparr>"
  let ?step = "request_step (NewTaskRepository plain_driver) (NewUserRepository plain_driver) map_redis
      mark_bcrypt (\<lambda>_. True) ?env"
  let ?t = "pending_task 3 ''send_email''"
  let ?w1 = "(sy_world created_system)\<lparr>w_published := []\<rparr>"
  let ?s1 = "queued_start\<lparr>q_sys := start_system\<lparr>sy_requests := [Creating ?t]\<rparr>\<rparr>"
  let ?s2 = "queued_start\<lparr>q_sys := start_system\<lparr>sy_world := ?w1, sy_requests := [Publishing example_created]\<rparr>\<rparr>"
  have "?step (Creating ?t) (sy_world start_system) = (Publishing example_created, ?w1)"
    using example_varchar
    by (simp add: request_step_def create_txn_def WithTransaction_def plain_create_env_def plain_tx_def
        create_closure_def NewTaskRepository_def TaskRepository_Create_def plain_stmt_def plain_driver_def
        text_error_def pending_task_def int4_ok_def start_system_def created_system_def no_users_def
        example_created_def task_at_def)
  from q_step.request [where s = ?s1 and i = 0 and x = "Publishing example_created" and w' = ?w1
      and Br = list_broker and drv = plain_driver and C = map_redis and B = mark_bcrypt and env = ?env
      and view = "\<lambda>r. r" and is_print = "\<lambda>_. True"] this order_ok_plain
  have two: "example_queue_step ?s1 ?s2"
    by (simp add: queued_start_def start_system_def created_system_def br_publishes_def)
  have "?step (Publishing example_created) ?w1 = (Done, sy_world created_system)"
    by (simp add: request_step_def publish_task_def plain_create_env_def CreateChannel_def publish_sent_def
        created_system_def)
  from q_step.request [where s = ?s2 and i = 0 and x = Done and w' = "sy_world created_system"
      and Br = list_broker and drv = plain_driver and C = map_redis and B = mark_bcrypt and env = ?env
      and view = "\<lambda>r. r" and is_print = "\<lambda>_. True"] this order_ok_plain
  have three: "example_queue_step ?s2 queued_created"
    by (simp add: queued_start_def queued_created_def start_system_def created_system_def br_publishes_def
        list_broker_def)
  have "example_queue_step queued_start ?s1"
    using q_step.arrive [OF arrives.intros(1) [of 3 "''send_email''"], where s = queued_start and Br = list_broker
        and drv = plain_driver and C = map_redis and B = mark_bcrypt and view = "\<lambda>r. r" and is_print = "\<lambda>_. True"]
    by (simp add: queued_start_def start_system_def)
  with two three show ?thesis by (meson converse_rtranclp_into_rtranclp rtranclp.rtrancl_refl)
qed

lemmas queued_runs = q_steps_any [OF queued_steps]

subsection \<open>Refinement\<close>

text \<open>
  C5: The queue refines the free broker. Every run of the system with a broker that keeps the
  promises of AMQP, lost acknowledgements, closed channels and crashes included, is a run of
  the system in which any published message may be delivered at any time; a worker that has a
  message has it unsettled at the broker unless its channel has closed, and the broker has only messages that were published.
  All that holds of the runs of that system therefore holds with the queue.
\<close>

theorem queue_refines_system:
  assumes "broker_laws Br ready unacked" and "q_init view ready unacked n s0"
    and "(q_any Br drv C B view is_print)\<^sup>*\<^sup>* s0 s"
  shows "sys_init view n (q_sys s0) \<and> (sys_any drv C B view is_print)\<^sup>*\<^sup>* (q_sys s0) (q_sys s) \<and>
    linked ready unacked s"
  using queued_steps_simulated [OF assms(1,3) q_init_linked [OF assms(2)]] assms(2)
  by (simp add: q_init_def)

theorem queue_refines_system_witness:
  "(sys_any plain_driver map_redis mark_bcrypt (\<lambda>r. r) (\<lambda>_. True))\<^sup>*\<^sup>* start_system created_system \<and>
   linked list_ready list_unacked queued_created"
  using queue_refines_system [OF list_broker_laws queued_start_init queued_runs]
  by (simp add: queued_start_def queued_created_def)

subsection \<open>Safety and liveness\<close>

text \<open>
  C3: No task is lost silently. In every state the system with its queue reaches, for every
  message that was ever published and can be decoded: the row of its task is SUCCESS or
  FAILED, or the broker still has a message for this task, or its id is on the record of what a
  worker abandoned or started late: it does the first only when the update to FAILED after the
  last retry reports an error or the republication does not reach the broker, the second only
  when its channel has closed between the delivery and the update to PROCESSING.
\<close>

theorem no_task_lost_silently:
  assumes "broker_laws Br ready unacked" and "redis_laws C view" and "q_init view ready unacked n s0"
    and "(q_any Br drv C B view is_print)\<^sup>*\<^sup>* s0 s"
    and "m \<in> set (q_published s)" and "unmarshal_payload (Body m) = Some p"
  shows "(\<exists>t. task_at (q_db s) (payload_ID p) = Some t \<and> Status t \<in> {''SUCCESS'', ''FAILED''}) \<or>
    (\<exists>m' p'. held ready unacked (q_broker s) m' \<and> unmarshal_payload (Body m') = Some p' \<and>
       payload_ID p' = payload_ID p) \<or>
    payload_ID p \<in> set (q_lost s)"
proof -
  have "q_inv view is_print ready unacked s"
    by (rule q_steps_inv [OF assms(1,2,4) q_init_inv [OF assms(3)]])
  then have "covered ready unacked s (payload_ID p)"
    using assms(5,6) by (auto simp: q_inv_def all_covered_def msg_for_def)
  then show ?thesis by (auto simp: covered_def final_task_def msg_for_def)
qed

lemma example_unmarshal: "unmarshal_payload (Body (task_message (\<lambda>_. True) example_created)) =
    Some \<lparr>payload_ID = 8, payload_UserID = 3, payload_TaskType = ''send_email''\<rparr>"
proof -
  have "json_safe (\<lambda>_. True) ''send_email''" by (rule ascii_json_safe) code_simp
  then show ?thesis by (simp add: unmarshal_task_body example_created_def pending_task_def in_int64_def)
qed

lemma example_published: "task_message (\<lambda>_. True) example_created \<in> set (q_published queued_created)"
  "q_lost queued_created = []" "\<not> final_task (q_db queued_created) 8"
  by (simp_all add: queued_created_def created_system_def final_task_def task_at_def)

theorem no_task_lost_silently_witness:
  "\<exists>m' p'. held list_ready list_unacked (q_broker queued_created) m' \<and>
     unmarshal_payload (Body m') = Some p' \<and> payload_ID p' = 8"
  using no_task_lost_silently [OF list_broker_laws map_redis_laws queued_start_init queued_runs
      example_published(1) example_unmarshal] example_published(2,3)
  by (auto simp: final_task_def)

text \<open>
  C4: The queue empties, in every run without faults. From every state the system reaches, once the
  workers whose channel has closed are started again, no run in which the workers take, handle
  and settle messages without faults goes on for more than \<open>work_left\<close> steps, whatever order
  the workers take turns in; such a run ends, and wherever one can go on no further, the broker
  has no message left, ready or unsettled, no further task has been abandoned, and every task of
  a message that was published until then and can be decoded is SUCCESS if its type is known and
  FAILED if not, unless it had been abandoned before; only a task that had failed already, or
  whose outcome a worker had just failed to record, may be FAILED with a known type. There must
  be a worker, and the database must accept the texts to be recorded.
\<close>

theorem queue_drains:
  assumes "broker_laws Br ready unacked" and "redis_laws C view" and "q_init view ready unacked n s0"
    and "(q_any Br drv C B view is_print)\<^sup>*\<^sup>* s0 s" and "sy_workers (q_sys s) \<noteq> []"
    and "accepts drv (q_published s)"
  shows "\<exists>s1. (q_crash Br)\<^sup>*\<^sup>* s s1 \<and> (q_cut s = {} \<longrightarrow> s1 = s) \<and> q_cut s1 = {} \<and>
    (\<forall>k s'. (calm_step Br drv unacked ^^ k) s1 s' \<longrightarrow> k \<le> work_left ready unacked s1 \<and>
       (q_step Br drv C B view is_print)\<^sup>*\<^sup>* s1 s' \<and>
       ((\<forall>s''. \<not> calm_step Br drv unacked s' s'') \<longrightarrow> drained ready unacked s s')) \<and>
    (\<exists>k s'. (calm_step Br drv unacked ^^ k) s1 s' \<and> (\<forall>s''. \<not> calm_step Br drv unacked s' s''))"
proof -
  have "q_inv view is_print ready unacked s"
    by (rule q_steps_inv [OF assms(1,2,4) q_init_inv [OF assms(3)]])
  from restart_cut [OF assms(1,2) this] obtain s1 where again: "(q_crash Br)\<^sup>*\<^sup>* s s1" "q_cut s = {} \<longrightarrow> s1 = s"
    "q_cut s1 = {}" and inv1: "q_inv view is_print ready unacked s1"
    and same: "length (sy_workers (q_sys s1)) = length (sy_workers (q_sys s))" "q_lost s1 = q_lost s"
      "q_published s1 = q_published s" "q_db s1 = q_db s"
    and track: "\<forall>i. on_track i s \<longrightarrow> on_track i s1" by blast
  have "sy_workers (q_sys s1) \<noteq> []" using assms(5) same(1) by auto
  moreover have "statuses_ok (q_db s)"
    using queued_steps_simulated [OF assms(1,4) q_init_linked [OF assms(3)]] assms(3) sys_runs_statuses [OF assms(2)]
    by (fastforce simp: q_init_def)
  ultimately have st: "steady view is_print ready unacked drv s1"
    using inv1 again(3) assms(6) by (simp add: steady_def same)
  have run: "k \<le> work_left ready unacked s1 \<and> (q_step Br drv C B view is_print)\<^sup>*\<^sup>* s1 s' \<and>
      ((\<forall>s''. \<not> calm_step Br drv unacked s' s'') \<longrightarrow> drained ready unacked s s')"
    if "(calm_step Br drv unacked ^^ k) s1 s'" for k s'
    using calm_run [OF assms(1,2) st that, of B] calm_run_drained [OF assms(1,2) st that]
      drained_same [OF _ same(2,3) track] by auto
  show ?thesis
    by (intro exI [of _ s1] conjI again allI [OF allI [OF impI [OF run]]] calm_run_ends [OF assms(1,2) st])
qed

theorem queue_drains_witness:
  "\<exists>k s' t. (calm_step list_broker plain_driver list_unacked ^^ k) queued_created s' \<and>
     q_broker s' = ([], Map.empty) \<and> task_at (q_db s') 8 = Some t \<and>
     Status t = (if TaskType t \<in> set known_types then ''SUCCESS'' else ''FAILED'')"
proof -
  have workers: "sy_workers (q_sys queued_created) = replicate 3 Idle"
    by (simp add: queued_created_def created_system_def start_system_def)
  then have "sy_workers (q_sys queued_created) \<noteq> []" by simp
  moreover have "texts_ok plain_driver \<lparr>payload_ID = 8, payload_UserID = 3, payload_TaskType = ''send_email''\<rparr>"
    using example_valid by (simp add: texts_ok_def)
  then have "accepts plain_driver (q_published queued_created)"
    using example_unmarshal by (simp add: accepts_def queued_created_def created_system_def)
  moreover have "q_cut queued_created = {}" by (simp add: queued_created_def)
  ultimately obtain k s' where run: "(calm_step list_broker plain_driver list_unacked ^^ k) queued_created s'"
    and "drained list_ready list_unacked queued_created s'"
    using queue_drains [OF list_broker_laws map_redis_laws queued_start_init queued_runs] by metis
  moreover have "on_track 8 queued_created"
    using example_published(3) workers by (auto simp: on_track_def final_task_def)
  ultimately show ?thesis using example_published(1,2) example_unmarshal
    by (fastforce simp: drained_def prod_eq_iff)
qed

subsection \<open>How a task is abandoned\<close>

text \<open>
  C33: A republication that fails loses the task. Whenever the second transaction of the worker
  reports an error (of Begin, of the statement, or of Commit), retries are left, and the
  republication fails before the broker has the message, the worker still drops the delivery
  without asking for it to be requeued: nothing is sent, the delivery is neither acknowledged
  nor requeued, and the row stays PROCESSING, unless the commit was carried out although its
  reply was lost.
\<close>

theorem failed_republish_loses_task:
  assumes "unmarshal_payload (Body msg) = Some p" and "task_at db (payload_ID p) = Some t"
    and "run_stmt (we_tx1 env)
      (repo_MarkProcessing (NewTaskRepository drv) (we_st1 env) (payload_ID p)) db = (None, db1)"
    and "run_stmt (we_tx2 env)
      (mark_result (NewTaskRepository drv) (we_st2 env) (payload_ID p) (fst (handleTask p))) db1 = (Some e, db2)"
    and "\<not> 3 <=s retry_count msg" and "we_publish env = Publish_failed e'"
  shows "\<exists>cmds r. handle_delivery (NewTaskRepository drv) env msg db = (db2, cmds) \<and>
    last cmds = Nack False \<and> Ack \<notin> set cmds \<and> Nack True \<notin> set cmds \<and> sent_of cmds = [] \<and>
    task_at db2 (payload_ID p) = Some r \<and>
    (Status r = ''PROCESSING'' \<or>
     Status r \<in> {''SUCCESS'', ''FAILED''} \<and> (\<exists>e''. tx_commit (we_tx2 env) = Commit_unknown e''))"
proof -
  let ?R = "NewTaskRepository drv" and ?i = "payload_ID p"
  have db1: "db1 = update_tasks ?i (\<lambda>t. t\<lparr>Status := ''PROCESSING'', UpdatedAt := utc (st_now (we_st1 env))\<rparr>) db"
    by (rule task_repo.processing_ok [OF run_stmt_None [OF assms(3)]])
  then have row: "\<exists>r. task_at db1 ?i = Some r \<and> Status r = ''PROCESSING''"
    using assms(2) by (simp add: task_at_update_tasks)
  have "db2 = db1 \<or> mark_result ?R (we_st2 env) ?i (fst (handleTask p)) db1 = (None, db2) \<and>
      (\<exists>e''. tx_commit (we_tx2 env) = Commit_unknown e'')"
    using assms(4) by (auto simp: run_stmt_eq split: tx_splits)
  then have "\<exists>r. task_at db2 ?i = Some r \<and> (Status r = ''PROCESSING'' \<or>
      Status r \<in> {''SUCCESS'', ''FAILED''} \<and> (\<exists>e''. tx_commit (we_tx2 env) = Commit_unknown e''))"
  proof
    assume m: "mark_result ?R (we_st2 env) ?i (fst (handleTask p)) db1 = (None, db2) \<and>
      (\<exists>e''. tx_commit (we_tx2 env) = Commit_unknown e'')"
    then have "\<exists>r. task_at db2 ?i = Some r \<and> Status r \<in> {''SUCCESS'', ''FAILED''}"
      using row by (auto simp: mark_result_def task_at_update_tasks split: option.splits
          dest!: task_repo.success_ok task_repo.failed_ok)
    with m show ?thesis by blast
  qed (use row in blast)
  moreover have "handle_delivery ?R env msg db =
      (db2, [Republish (retry_message msg (retry_count msg + 1)) (Publish_failed e'), Nack False])"
    using assms(1,3-6) by (simp add: handle_delivery_def retry_or_give_up_def publish_err_def Let_def)
  ultimately show ?thesis by (simp add: sent_of_def publish_sent_def)
qed

text \<open>The second transaction fails at its commit, and the republication with the lost channel.\<close>

definition unrecorded_env :: worker_env where
  "unrecorded_env = (plain_worker_env 6)\<lparr>
     we_tx2 := plain_tx\<lparr>tx_commit := Commit_lost (ErrorString ''connection lost'')\<rparr>,
     we_publish := Publish_failed (ErrorString ''channel closed'')\<rparr>"

theorem failed_republish_loses_task_witness:
  "\<exists>db2 cmds r. handle_delivery (NewTaskRepository plain_driver) unrecorded_env
      (task_message (\<lambda>_. True) example_created) (q_db queued_created) = (db2, cmds) \<and>
    last cmds = Nack False \<and> task_at db2 8 = Some r \<and> Status r = ''PROCESSING''"
proof -
  let ?p = "\<lparr>payload_ID = 8, payload_UserID = 3, payload_TaskType = ''send_email''\<rparr> :: task_payload"
  let ?db1 = "update_tasks 8 (\<lambda>t. t\<lparr>Status := ''PROCESSING'', UpdatedAt := utc 6\<rparr>) (q_db queued_created)"
  obtain t where t: "task_at (q_db queued_created) (payload_ID ?p) = Some t"
    by (simp add: queued_created_def created_system_def task_at_def)
  have first: "run_stmt (we_tx1 unrecorded_env)
      (repo_MarkProcessing (NewTaskRepository plain_driver) (we_st1 unrecorded_env) (payload_ID ?p))
      (q_db queued_created) = (None, ?db1)"
    by (simp add: unrecorded_env_def plain_worker_env_def run_stmt_eq plain_tx_def NewTaskRepository_def
        TaskRepository_MarkProcessing_def plain_stmt_def int4_ok_def)
  have second: "run_stmt (we_tx2 unrecorded_env)
      (mark_result (NewTaskRepository plain_driver) (we_st2 unrecorded_env) (payload_ID ?p) (fst (handleTask ?p)))
      ?db1 = (Some (ErrorString ''connection lost''), ?db1)"
    by (simp add: text_error_plain [OF example_valid(3)] unrecorded_env_def plain_worker_env_def run_stmt_eq plain_tx_def NewTaskRepository_def
        TaskRepository_MarkSuccess_def plain_stmt_def int4_ok_def mark_result_def handleTask_def processSendEmail_def)
  have r: "\<not> 3 <=s retry_count (task_message (\<lambda>_. True) example_created)"
    by (simp add: retry_count_def task_message_def word_sle_eq)
  have f: "we_publish unrecorded_env = Publish_failed (ErrorString ''channel closed'')"
    "tx_commit (we_tx2 unrecorded_env) \<noteq> Commit_unknown e" for e
    by (simp_all add: unrecorded_env_def)
  from failed_republish_loses_task [OF example_unmarshal t first second r f(1)] f(2) show ?thesis by auto
qed

subsection \<open>A worker that has lost its channel\<close>

definition late_env :: "int \<Rightarrow> worker_env" where
  "late_env now = (plain_worker_env now)\<lparr>we_tx2 := plain_tx\<lparr>tx_begin_err := Some ErrTxDone\<rparr>,
     we_tx3 := plain_tx\<lparr>tx_begin_err := Some ErrTxDone\<rparr>,
     we_publish := Publish_failed (ErrorString ''channel closed'')\<rparr>"

lemma late_unsent: "\<not> publish_sent (we_publish (late_env now))"
  by (simp add: late_env_def publish_sent_def)

lemma late_steps:
  assumes "unmarshal_payload (Body m) = Some p" and "int4_ok (payload_ID p)"
    and db1: "db1 = update_tasks (payload_ID p) (\<lambda>t. t\<lparr>Status := ''PROCESSING'', UpdatedAt := utc now\<rparr>) db"
  shows "worker_step (NewTaskRepository drv) (late_env now) (Received m) db = (Processing m p, db1, [])"
    and "worker_step (NewTaskRepository drv) (late_env now) (Processing m p) db1 = (Unrecorded m p, db1, [])"
    and "\<exists>cmds. worker_step (NewTaskRepository drv) (late_env now) (Unrecorded m p) db1 = (Idle, db1, cmds)"
  using assms(1,2)
  by (simp_all add: worker_step_def late_env_def plain_worker_env_def NewTaskRepository_def run_stmt_eq plain_tx_def
      TaskRepository_MarkProcessing_def plain_stmt_def retry_or_give_up_def Let_def db1 split: option.split)

text \<open>
  C34: A worker without a channel undoes finished tasks. Once a worker has a message and its channel
  has closed, whatever the status of the task is by then (SUCCESS, when another worker has
  got the message again and handled it), the worker still marks it PROCESSING; if the outcome
  then cannot be recorded, it can neither retry nor give the message back: the row stays
  PROCESSING although nothing was sent and the broker has no more messages than before.
\<close>

theorem late_worker_undoes_task:
  assumes i: "i < length (sy_workers (q_sys s))" "sy_workers (q_sys s) ! i = Received m" "i \<in> q_cut s"
    and p: "unmarshal_payload (Body m) = Some p" "int4_ok (payload_ID p)"
    and row: "task_at (q_db s) (payload_ID p) = Some t"
  shows "\<exists>s'. (q_step Br drv C B view is_print)\<^sup>*\<^sup>* s s' \<and> q_broker s' = q_broker s \<and>
    q_published s' = q_published s \<and> sy_workers (q_sys s') = (sy_workers (q_sys s))[i := Idle] \<and>
    task_at (q_db s') (payload_ID p) = Some (t\<lparr>Status := ''PROCESSING'', UpdatedAt := utc now\<rparr>)"
proof -
  let ?step = "q_step Br drv C B view is_print"
  let ?db = "update_tasks (payload_ID p) (\<lambda>t. t\<lparr>Status := ''PROCESSING'', UpdatedAt := utc now\<rparr>) (q_db s)"
  let ?s = "\<lambda>ws. s\<lparr>q_sys := (q_sys s)\<lparr>sy_world := (sy_world (q_sys s))\<lparr>w_db := ?db\<rparr>,
      sy_workers := (sy_workers (q_sys s))[i := ws]\<rparr>, q_lost := q_lost s @ [payload_ID p]\<rparr>"
  note late = late_steps [OF p refl, of drv now "q_db s"]
  have 1: "?step s (?s (Processing m p))"
    using q_step.work_cut [OF i(1,3) late_unsent, of drv now "Processing m p" ?db "[]" Br C B view is_print] late(1) i p
    by (simp add: starts_late_def)
  have 2: "?step (?s (Processing m p)) (?s (Unrecorded m p))"
    using q_step.work_cut [where s = "?s (Processing m p)" and i = i and wenv = "late_env now" and drv = drv
        and ws = "Unrecorded m p" and db' = ?db and cmds = "[]" and Br = Br and C = C and B = B and view = view
        and is_print = is_print] late(2) i late_unsent
    by (simp add: starts_late_def)
  obtain cmds where "worker_step (NewTaskRepository drv) (late_env now) (Unrecorded m p) ?db = (Idle, ?db, cmds)"
    using late(3) ..
  then have 3: "?step (?s (Unrecorded m p)) (?s Idle)"
    using q_step.work_cut [where s = "?s (Unrecorded m p)" and i = i and wenv = "late_env now" and drv = drv
        and ws = Idle and db' = ?db and cmds = cmds and Br = Br and C = C and B = B and view = view
        and is_print = is_print] i late_unsent
    by (simp add: starts_late_def)
  from 1 2 3 have "?step\<^sup>*\<^sup>* s (?s Idle)"
    by (meson converse_rtranclp_into_rtranclp rtranclp.rtrancl_refl)
  then show ?thesis using row by (intro exI [of _ "?s Idle"]) (simp add: task_at_update_tasks)
qed

text \<open>
  The run of the example: worker 0 gets the message and loses its channel, worker 1 gets the
  message again and finishes the task.
\<close>

abbreviation example_msg :: delivery where
  "example_msg \<equiv> task_message (\<lambda>_. True) example_created"

definition handled_db :: database where
  "handled_db = fst (handle_delivery (NewTaskRepository plain_driver) (plain_worker_env 11) example_msg
     (q_db queued_created))"

definition queued_handled :: "(string \<rightharpoonup> string, list_queue) queued" where
  "queued_handled = queued_created\<lparr>
     q_sys := created_system\<lparr>sy_world := (sy_world created_system)\<lparr>w_db := handled_db\<rparr>,
       sy_workers := [Received example_msg, Idle, Idle]\<rparr>,
     q_broker := ([], Map.empty), q_cut := {0}\<rparr>"

lemma handled_steps:
  "\<exists>db1. worker_step (NewTaskRepository plain_driver) (plain_worker_env 11) (Received example_msg)
      (q_db queued_created) = (Processing example_msg \<lparr>payload_ID = 8, payload_UserID = 3, payload_TaskType = ''send_email''\<rparr>, db1, []) \<and>
    worker_step (NewTaskRepository plain_driver) (plain_worker_env 11)
      (Processing example_msg \<lparr>payload_ID = 8, payload_UserID = 3, payload_TaskType = ''send_email''\<rparr>) db1
      = (Idle, handled_db, [Ack])"
  using example_unmarshal
  by (simp add: text_error_plain [OF example_valid(3)] handled_db_def worker_step_def handle_delivery_def run_stmt_plain plain_worker_env_def
      NewTaskRepository_def TaskRepository_MarkProcessing_def TaskRepository_MarkSuccess_def plain_stmt_def int4_ok_def
      mark_result_def handleTask_def processSendEmail_def)

lemma replicate_three: "replicate 3 x = [x, x, x]"
  by (simp add: numeral_eq_Suc)

lemma queued_handled_reached: "example_queue_step\<^sup>*\<^sup>* queued_created queued_handled"
proof -
  let ?p = "\<lparr>payload_ID = 8, payload_UserID = 3, payload_TaskType = ''send_email''\<rparr> :: task_payload"
  let ?st = "\<lambda>db ws b cut. queued_created\<lparr>q_sys := created_system\<lparr>sy_world := (sy_world created_system)\<lparr>w_db := db\<rparr>,
      sy_workers := ws\<rparr>, q_broker := b, q_cut := cut\<rparr>"
  let ?db = "q_db queued_created"
  from handled_steps obtain db1 where
    w: "worker_step (NewTaskRepository plain_driver) (plain_worker_env 11) (Received example_msg) ?db = (Processing example_msg ?p, db1, [])"
      "worker_step (NewTaskRepository plain_driver) (plain_worker_env 11) (Processing example_msg ?p) db1 = (Idle, handled_db, [Ack])"
    by blast
  let ?s1 = "?st ?db [Received example_msg, Idle, Idle] ([], [0 \<mapsto> example_msg]) {}"
  let ?s2 = "?st ?db [Received example_msg, Idle, Idle] ([example_msg], Map.empty) {0}"
  let ?s3 = "?st ?db [Received example_msg, Received example_msg, Idle] ([], [1 \<mapsto> example_msg]) {0}"
  let ?s4 = "?st db1 [Received example_msg, Processing example_msg ?p, Idle] ([], [1 \<mapsto> example_msg]) {0}"
  note parts = queued_created_def created_system_def start_system_def list_broker_def requeued_def replicate_three
  have 1: "example_queue_step queued_created ?s1"
    using q_step.deliver [where s = queued_created and i = 0 and Br = list_broker and msg = example_msg
        and b' = "([], [0 \<mapsto> example_msg])" and drv = plain_driver and C = map_redis and B = mark_bcrypt and view = "\<lambda>r. r" and is_print = "\<lambda>_. True"]
    by (simp add: parts)
  have 2: "example_queue_step ?s1 ?s2"
    using q_step.cut [where s = ?s1 and i = 0 and Br = list_broker and drv = plain_driver and C = map_redis
        and view = "\<lambda>r. r" and is_print = "\<lambda>_. True"] by (simp add: parts)
  have 3: "example_queue_step ?s2 ?s3"
    using q_step.deliver [where s = ?s2 and i = 1 and Br = list_broker and msg = example_msg
        and b' = "([], [1 \<mapsto> example_msg])" and drv = plain_driver and C = map_redis and B = mark_bcrypt and view = "\<lambda>r. r" and is_print = "\<lambda>_. True"]
    by (simp add: parts)
  have 4: "example_queue_step ?s3 ?s4"
    using q_step.work [where s = ?s3 and i = 1 and wenv = "plain_worker_env 11" and Br = list_broker and drv = plain_driver
        and C = map_redis and B = mark_bcrypt and view = "\<lambda>r. r" and is_print = "\<lambda>_. True" and settled = True] w(1)
    by (simp add: parts sent_of_def abandoned_def)
  have 5: "example_queue_step ?s4 queued_handled"
    using q_step.work [where s = ?s4 and i = 1 and wenv = "plain_worker_env 11" and Br = list_broker and drv = plain_driver
        and C = map_redis and B = mark_bcrypt and view = "\<lambda>r. r" and is_print = "\<lambda>_. True" and settled = True] w(2)
    by (simp add: parts sent_of_def abandoned_def queued_handled_def br_cmd_def)
  from 1 2 3 4 5 show ?thesis by (meson converse_rtranclp_into_rtranclp rtranclp.rtrancl_refl)
qed

theorem late_worker_undoes_task_witness:
  "\<exists>s s' t t'. example_queue_step\<^sup>*\<^sup>* queued_created s \<and> task_at (q_db s) 8 = Some t \<and> Status t = ''SUCCESS'' \<and>
     example_queue_step\<^sup>*\<^sup>* s s' \<and> q_broker s' = ([], Map.empty) \<and>
     task_at (q_db s') 8 = Some t' \<and> Status t' = ''PROCESSING''"
proof -
  have i: "0 < length (sy_workers (q_sys queued_handled))"
    "sy_workers (q_sys queued_handled) ! 0 = Received example_msg" "0 \<in> q_cut queued_handled"
    by (simp_all add: queued_handled_def)
  have int4: "int4_ok (payload_ID \<lparr>payload_ID = 8, payload_UserID = 3, payload_TaskType = ''send_email''\<rparr>)"
    by (simp add: int4_ok_def)
  let ?p = "\<lparr>payload_ID = 8, payload_UserID = 3, payload_TaskType = ''send_email''\<rparr> :: task_payload"
  have "texts_ok plain_driver ?p" using example_valid by (simp add: texts_ok_def)
  from handle_delivery_plain [OF example_unmarshal int4 this, of 11 "q_db queued_created"]
  have db: "handled_db = update_tasks 8 (final_row ?p 11) (q_db queued_created)" by (simp add: handled_db_def)
  have ok: "fst (handleTask ?p) = None" by (simp add: handleTask_def processSendEmail_def)
  obtain r where "task_at (q_db queued_created) 8 = Some r"
    by (simp add: queued_created_def created_system_def task_at_def)
  then have "task_at handled_db 8 =
      Some (r\<lparr>Status := ''SUCCESS'', ResultFile := Some ''result.txt'', UpdatedAt := utc 11\<rparr>)"
    unfolding db final_row_None [OF ok] by (simp add: task_at_update_tasks)
  then obtain t where t: "task_at (q_db queued_handled) 8 = Some t" "Status t = ''SUCCESS''"
    by (simp add: queued_handled_def)
  from late_worker_undoes_task [OF i example_unmarshal int4, of t list_broker plain_driver map_redis mark_bcrypt "\<lambda>r. r" "\<lambda>_. True" 12] t
    queued_handled_reached
  show ?thesis by (fastforce simp: queued_handled_def)
qed

end
