(* ===== verification/Float64.thy ===== *)
theory Float64
  imports Complex_Main
begin

section \<open>Double-precision rounding\<close>

text \<open>
  The rate limiter computes with IEEE doubles: Go's float64 and the numbers of Lua. A finite
  double is a rational here, and each arithmetic operation is the exact one followed by
  \<open>round_double\<close>, rounding to the nearest double, ties to even, with the exponent of
  subnormal numbers bounded below. Overflow to infinity (beyond 2 to the 1024) is not
  modelled: every value the limiter meets is far below it. What the proofs about the limiter
  need of rounding is the locale \<open>rounding\<close>: it is monotone, exact on the integers up to
  2 to the 53, and never above the exact value by more than one part in 2 to the 53.
\<close>

subsection \<open>Rounding a rational to an integer, ties to even\<close>

definition rne :: "rat \<Rightarrow> int" where
  "rne q = (let f = \<lfloor>q\<rfloor>; d = q - of_int f in
            if d < 1/2 then f else if 1/2 < d then f + 1 else if even f then f else f + 1)"

lemma rne_of_int [simp]: "rne (of_int i) = i"
  by (simp add: rne_def)

lemma rne_bounds: "\<lfloor>q\<rfloor> \<le> rne q" "rne q \<le> \<lfloor>q\<rfloor> + 1"
  by (simp_all add: rne_def Let_def)

lemma rne_mono:
  assumes "x \<le> y"
  shows "rne x \<le> rne y"
proof (cases "\<lfloor>x\<rfloor> = \<lfloor>y\<rfloor>")
  case True
  with assms show ?thesis by (auto simp: rne_def Let_def)
next
  case False
  with floor_mono [OF assms] have "\<lfloor>x\<rfloor> + 1 \<le> \<lfloor>y\<rfloor>" by linarith
  with rne_bounds(2) [of x] rne_bounds(1) [of y] show ?thesis by linarith
qed

subsection \<open>The binary exponent of a positive rational\<close>

function ilog2 :: "int \<Rightarrow> nat" where
  "ilog2 a = (if a \<le> 1 then 0 else Suc (ilog2 (a div 2)))"
  by pat_completeness auto
termination
  by (relation "measure nat") auto

declare ilog2.simps [simp del]

lemma ilog2_bounds: "0 < a \<Longrightarrow> 2 ^ ilog2 a \<le> a \<and> a < 2 ^ Suc (ilog2 a)"
proof (induction a rule: ilog2.induct)
  case (1 a)
  show ?case
  proof (cases "a \<le> 1")
    case True
    with "1.prems" show ?thesis by (simp add: ilog2.simps)
  next
    case False
    then have "0 < a div 2" by simp
    with False "1.IH" have "2 ^ ilog2 (a div 2) \<le> a div 2 \<and> a div 2 < 2 ^ Suc (ilog2 (a div 2))"
      by blast
    then have "2 * 2 ^ ilog2 (a div 2) \<le> a \<and> a < 2 * 2 ^ Suc (ilog2 (a div 2))" by linarith
    with False show ?thesis by (simp add: ilog2.simps [of a])
  qed
qed

definition floor_log2 :: "rat \<Rightarrow> int" where
  "floor_log2 q = (case quotient_of q of (a, b) \<Rightarrow>
     let k = int (ilog2 a) - int (ilog2 b) in
     if 2 powi k \<le> q then k else k - 1)"

lemma powi_two_pos [simp]: "0 < (2 :: rat) powi k"
  by (simp add: zero_less_power_int)

lemma powi_two_add: "(2 :: rat) powi (i + j) = 2 powi i * 2 powi j"
  by (simp add: power_int_add)

lemma powi_two_mono: "i \<le> j \<Longrightarrow> (2 :: rat) powi i \<le> 2 powi j"
  by (simp add: power_int_increasing)

lemma powi_two_less: "(2 :: rat) powi i < 2 powi j \<Longrightarrow> i < j"
  using powi_two_mono [of j i] by (metis not_le)

lemma powi_two_le:
  assumes "(2 :: rat) powi i \<le> 2 powi j"
  shows "i \<le> j"
proof (rule ccontr)
  assume "\<not> i \<le> j"
  then have "(2 :: rat) powi j < 2 powi i" by (intro power_int_strict_increasing) auto
  with assms show False by simp
qed

lemma powi_two_nat: "(2 :: rat) powi int n = 2 ^ n"
  by (simp add: power_int_def)

lemma floor_log2_bounds:
  assumes "0 < q"
  shows "2 powi floor_log2 q \<le> q" "q < 2 powi (floor_log2 q + 1)"
proof -
  obtain a b where ab: "quotient_of q = (a, b)" by fastforce
  have b: "0 < b" and q: "q = of_int a / of_int b"
    using quotient_of_denom_pos [OF ab] quotient_of_div [OF ab] by auto
  with assms have a: "0 < a" by (simp add: zero_less_divide_iff)
  let ?m = "ilog2 a" and ?n = "ilog2 b"
  have "2 ^ ?m \<le> a" "a < 2 ^ Suc ?m" "2 ^ ?n \<le> b" "b < 2 ^ Suc ?n"
    using ilog2_bounds [OF a] ilog2_bounds [OF b] by blast+
  then have ab': "2 ^ ?m \<le> (of_int a :: rat)" "(of_int a :: rat) < 2 ^ Suc ?m"
    "2 ^ ?n \<le> (of_int b :: rat)" "(of_int b :: rat) < 2 ^ Suc ?n"
    by (metis of_int_le_iff of_int_less_iff of_int_numeral of_int_power)+
  let ?k = "int ?m - int ?n"
  have e1: "?k + 1 + int ?n = int (Suc ?m)" "?k - 1 + int (Suc ?n) = int ?m" by simp_all
  have up: "(2 :: rat) powi (?k + 1) * 2 ^ ?n = 2 ^ Suc ?m"
    and lo: "(2 :: rat) powi (?k - 1) * 2 ^ Suc ?n = 2 ^ ?m"
    by (simp_all only: powi_two_nat [symmetric] powi_two_add [symmetric] e1)
  have bpos: "(0 :: rat) < of_int b" using b by simp
  have "(2 :: rat) powi (?k + 1) * 2 ^ ?n \<le> 2 powi (?k + 1) * of_int b"
    using ab'(3) by (intro mult_left_mono) auto
  with ab'(2) have "of_int a < (2 :: rat) powi (?k + 1) * of_int b"
    unfolding up by linarith
  then have hi: "q < 2 powi (?k + 1)" using q bpos by (simp add: divide_less_eq)
  have "(2 :: rat) powi (?k - 1) * of_int b \<le> 2 powi (?k - 1) * 2 ^ Suc ?n"
    using ab'(4) by (intro mult_left_mono) auto
  with ab'(1) have "(2 :: rat) powi (?k - 1) * of_int b \<le> of_int a"
    unfolding lo by linarith
  then have low: "2 powi (?k - 1) \<le> q" using q bpos by (simp add: le_divide_eq)
  have e: "floor_log2 q = (if 2 powi ?k \<le> q then ?k else ?k - 1)"
    by (simp add: floor_log2_def ab Let_def)
  show "2 powi floor_log2 q \<le> q" using low by (simp add: e)
  show "q < 2 powi (floor_log2 q + 1)" using hi by (auto simp: e)
qed

lemma floor_log2_mono:
  assumes "0 < x" and "x \<le> y"
  shows "floor_log2 x \<le> floor_log2 y"
proof -
  have "(2 :: rat) powi floor_log2 x < 2 powi (floor_log2 y + 1)"
    using floor_log2_bounds [of x] floor_log2_bounds [of y] assms by linarith
  from powi_two_less [OF this] show ?thesis by simp
qed

subsection \<open>Rounding to a double\<close>

text \<open>The exponent of the last bit of the significand: 52 below the leading one, at least -1074.\<close>

definition ulp_exp :: "rat \<Rightarrow> int" where
  "ulp_exp q = max (floor_log2 q - 52) (- 1074)"

definition round_pos :: "rat \<Rightarrow> rat" where
  "round_pos q = of_int (rne (q * 2 powi (- ulp_exp q))) * 2 powi ulp_exp q"

definition round_double :: "rat \<Rightarrow> rat" where
  "round_double q = (if q = 0 then 0 else if 0 < q then round_pos q else - round_pos (- q))"

lemma powi_two_cancel [simp]: "(2 :: rat) powi (- e) * 2 powi e = 1"
  by (simp flip: powi_two_add)

lemma round_pos_upper:
  assumes "0 < q"
  shows "round_pos q \<le> 2 powi (ulp_exp q + 53)"
proof -
  have "q * 2 powi (- ulp_exp q) \<le> 2 powi (floor_log2 q + 1) * 2 powi (- ulp_exp q)"
    using floor_log2_bounds(2) [OF assms] by (intro mult_right_mono) auto
  also have "\<dots> = 2 powi (floor_log2 q + 1 + - ulp_exp q)"
    by (rule powi_two_add [symmetric])
  also have "\<dots> \<le> 2 powi 53"
    by (rule powi_two_mono) (simp add: ulp_exp_def)
  also have "\<dots> = of_int (2 ^ 53)" by (simp add: power_int_def)
  finally have "rne (q * 2 powi (- ulp_exp q)) \<le> 2 ^ 53"
    using rne_mono rne_of_int by metis
  then have "(of_int (rne (q * 2 powi (- ulp_exp q))) :: rat) \<le> 2 powi 53"
    using of_int_le_iff [of _ "2 ^ 53", where 'a = rat] by (simp add: power_int_def)
  then show ?thesis
    by (simp add: round_pos_def powi_two_add mult.commute mult_right_mono)
qed

lemma round_pos_lower:
  assumes "0 < q" and "- 1074 < ulp_exp q"
  shows "2 powi (ulp_exp q + 52) \<le> round_pos q"
proof -
  have f: "floor_log2 q = ulp_exp q + 52" using assms(2) by (simp add: ulp_exp_def max_def split: if_splits)
  have "(2 :: rat) powi 52 = 2 powi floor_log2 q * 2 powi (- ulp_exp q)"
    by (simp add: f flip: powi_two_add)
  also have "\<dots> \<le> q * 2 powi (- ulp_exp q)"
    using floor_log2_bounds(1) [OF assms(1)] by (intro mult_right_mono) auto
  finally have "of_int (2 ^ 52) \<le> q * 2 powi (- ulp_exp q)" by (simp add: power_int_def)
  then have "2 ^ 52 \<le> rne (q * 2 powi (- ulp_exp q))"
    using rne_mono rne_of_int by metis
  then have "(2 :: rat) powi 52 \<le> of_int (rne (q * 2 powi (- ulp_exp q)))"
    using of_int_le_iff [of "2 ^ 52", where 'a = rat] by (simp add: power_int_def)
  then show ?thesis
    by (simp add: round_pos_def powi_two_add mult.commute mult_left_mono)
qed

lemma round_pos_mono:
  assumes "0 < x" and "x \<le> y"
  shows "round_pos x \<le> round_pos y"
proof (cases "ulp_exp x = ulp_exp y")
  case True
  have "rne (x * 2 powi (- ulp_exp y)) \<le> rne (y * 2 powi (- ulp_exp y))"
    using assms(2) by (intro rne_mono mult_right_mono) auto
  then show ?thesis by (simp add: round_pos_def True mult_right_mono)
next
  case False
  have "ulp_exp x \<le> ulp_exp y"
    using floor_log2_mono [OF assms] by (simp add: ulp_exp_def)
  with False have lt: "ulp_exp x < ulp_exp y" by simp
  then have "- 1074 < ulp_exp y" by (simp add: ulp_exp_def)
  with assms have "2 powi (ulp_exp y + 52) \<le> round_pos y" by (intro round_pos_lower) auto
  moreover have "round_pos x \<le> 2 powi (ulp_exp x + 53)" by (rule round_pos_upper [OF assms(1)])
  moreover have "(2 :: rat) powi (ulp_exp x + 53) \<le> 2 powi (ulp_exp y + 52)"
    using lt by (intro powi_two_mono) simp
  ultimately show ?thesis by linarith
qed

lemma round_pos_nonneg: "0 < q \<Longrightarrow> 0 \<le> round_pos q"
  using rne_mono [of 0 "q * 2 powi (- ulp_exp q)"] rne_of_int [of 0]
  by (simp add: round_pos_def)

lemma round_double_mono:
  assumes "x \<le> y"
  shows "round_double x \<le> round_double y"
proof (cases "0 < x")
  case True
  with assms round_pos_mono [OF True assms] show ?thesis by (simp add: round_double_def)
next
  case x: False
  show ?thesis
  proof (cases "0 \<le> y")
    case True
    have "round_double x \<le> 0"
      using x round_pos_nonneg [of "- x"] by (cases "x = 0") (simp_all add: round_double_def)
    moreover have "0 \<le> round_double y"
      using True round_pos_nonneg [of y] by (cases "y = 0") (simp_all add: round_double_def)
    ultimately show ?thesis by linarith
  next
    case False
    with assms x round_pos_mono [of "- y" "- x"] show ?thesis by (simp add: round_double_def)
  qed
qed

lemma round_pos_exact:
  assumes "q * 2 powi (- ulp_exp q) = of_int m"
  shows "round_pos q = q"
proof -
  have "round_pos q = of_int m * 2 powi ulp_exp q"
    by (simp only: round_pos_def assms rne_of_int)
  also have "\<dots> = q * 2 powi (- ulp_exp q) * 2 powi ulp_exp q"
    by (simp only: assms)
  also have "\<dots> = q * (2 powi (- ulp_exp q) * 2 powi ulp_exp q)"
    by (rule mult.assoc)
  finally show ?thesis by (simp only: powi_two_cancel mult_1_right)
qed

lemma round_pos_of_nat:
  assumes "0 < n" and "n \<le> 2 ^ 53"
  shows "round_pos (of_nat n) = of_nat n"
proof -
  let ?q = "of_nat n :: rat"
  have "?q \<le> of_nat (2 ^ 53)" using assms(2) by (simp only: of_nat_le_iff)
  with assms(1) have q: "0 < ?q" "?q \<le> 2 powi 53" by (simp_all add: power_int_def)
  have lt: "floor_log2 ?q \<le> 53"
    by (rule powi_two_le) (rule order_trans [OF floor_log2_bounds(1) [OF q(1)] q(2)])
  have "(2 :: rat) powi 0 \<le> ?q" using assms(1) by simp
  then have "(2 :: rat) powi 0 < 2 powi (floor_log2 ?q + 1)"
    using floor_log2_bounds(2) [OF q(1)] by (rule le_less_trans)
  then have ge: "0 \<le> floor_log2 ?q"
    using powi_two_less by fastforce
  show ?thesis
  proof (cases "floor_log2 ?q \<le> 52")
    case True
    then obtain k where "52 - floor_log2 ?q = int k" by (metis diff_ge_0_iff_ge nonneg_int_cases)
    with ge have "- ulp_exp ?q = int k" by (simp add: ulp_exp_def)
    then have "?q * 2 powi (- ulp_exp ?q) = of_int (int n * 2 ^ k)"
      by (simp add: powi_two_nat)
    then show ?thesis by (rule round_pos_exact)
  next
    case False
    with lt have f: "floor_log2 ?q = 53" by simp
    with floor_log2_bounds(1) [OF q(1)] q(2) have "?q = 2 powi 53" by simp
    moreover have "- ulp_exp ?q = - 1" by (simp add: ulp_exp_def f)
    ultimately have "?q * 2 powi (- ulp_exp ?q) = of_int (2 ^ 52)"
      by (simp only: powi_two_add [symmetric]) (simp add: power_int_def)
    then show ?thesis by (rule round_pos_exact)
  qed
qed

lemma round_double_of_int:
  assumes "\<bar>i\<bar> \<le> 2 ^ 53"
  shows "round_double (of_int i) = of_int i"
proof -
  obtain n where n: "i = int n \<or> i = - int n" by (metis int_cases2)
  with assms have le: "n \<le> 2 ^ 53" by auto
  show ?thesis
  proof (cases "n = 0")
    case True
    with n show ?thesis by (auto simp: round_double_def)
  next
    case False
    with n round_pos_of_nat [OF _ le] show ?thesis by (auto simp: round_double_def)
  qed
qed

lemma rne_near: "of_int (rne q) \<le> q + 1 / 2"
  by (simp add: rne_def Let_def) linarith

text \<open>The error of rounding up is at most half of the last bit.\<close>

lemma round_pos_near:
  assumes "0 < q" and "q \<le> M" and "1 \<le> M"
  shows "round_pos q \<le> q + M / 2 ^ 53"
proof -
  let ?u = "ulp_exp q"
  have "(of_int (rne (q * 2 powi (- ?u))) :: rat) * 2 powi ?u \<le> (q * 2 powi (- ?u) + 1 / 2) * 2 powi ?u"
    by (intro mult_right_mono rne_near) (simp add: less_imp_le)
  also have "\<dots> = q * (2 powi (- ?u) * 2 powi ?u) + 1 / 2 * 2 powi ?u"
    by (simp only: distrib_right mult.assoc)
  also have "\<dots> = q + 2 powi ?u / 2" by (simp only: powi_two_cancel mult_1_right mult_1_left times_divide_eq_left)
  finally have r: "round_pos q \<le> q + 2 powi ?u / 2" by (simp only: round_pos_def)
  have "(2 :: rat) powi ?u * 2 powi 52 \<le> M"
  proof (cases "floor_log2 q - 52 \<le> - 1074")
    case True
    then have "?u + 52 = - 1022" by (simp add: ulp_exp_def)
    then have "(2 :: rat) powi ?u * 2 powi 52 = 2 powi (- 1022)"
      by (simp only: powi_two_add [symmetric])
    also have "\<dots> \<le> 2 powi 0" by (rule powi_two_mono) simp
    finally show ?thesis using assms(3) by simp
  next
    case False
    then have "?u + 52 = floor_log2 q" by (simp add: ulp_exp_def)
    then have "(2 :: rat) powi ?u * 2 powi 52 = 2 powi floor_log2 q"
      by (simp only: powi_two_add [symmetric])
    with floor_log2_bounds(1) [OF assms(1)] assms(2) show ?thesis by simp
  qed
  then have "(2 :: rat) powi ?u * 2 ^ 52 \<le> M" by (simp add: power_int_def)
  then have "2 powi ?u / 2 \<le> M / 2 ^ 53" by (simp add: field_simps)
  with r show ?thesis by linarith
qed

lemma round_double_near:
  assumes "0 \<le> x" and "x \<le> M" and "1 \<le> M"
  shows "round_double x \<le> x + M / 2 ^ 53"
  using assms round_pos_near [of x M] by (cases "x = 0") (simp_all add: round_double_def)

subsection \<open>What the limiter relies on\<close>

locale rounding =
  fixes rnd :: "rat \<Rightarrow> rat"
  assumes rnd_mono: "x \<le> y \<Longrightarrow> rnd x \<le> rnd y"
    and rnd_int: "\<bar>i\<bar> \<le> 2 ^ 53 \<Longrightarrow> rnd (of_int i) = of_int i"
    and rnd_near: "0 \<le> x \<Longrightarrow> x \<le> M \<Longrightarrow> 1 \<le> M \<Longrightarrow> rnd x \<le> x + M / 2 ^ 53"
begin

lemma rnd_0 [simp]: "rnd 0 = 0"
  using rnd_int [of 0] by simp

lemma rnd_le_int: "x \<le> of_int i \<Longrightarrow> \<bar>i\<bar> \<le> 2 ^ 53 \<Longrightarrow> rnd x \<le> of_int i"
  using rnd_mono rnd_int by metis

lemma rnd_ge_int: "of_int i \<le> x \<Longrightarrow> \<bar>i\<bar> \<le> 2 ^ 53 \<Longrightarrow> of_int i \<le> rnd x"
  using rnd_mono rnd_int by metis

lemma rnd_nonneg: "0 \<le> x \<Longrightarrow> 0 \<le> rnd x"
  using rnd_mono [of 0 x] by simp

end

interpretation double: rounding round_double
  by unfold_locales (simp_all only: round_double_mono round_double_of_int round_double_near)

end
