(* ===== verification/Rate_Limiter.thy ===== *)
theory Rate_Limiter
  imports Float64 Gin
begin

section \<open>Rate limiter: internal/middleware/rate_limiter.go, its presets and its Lua script\<close>

text \<open>
  The token bucket of the Lua script as a function on the hash of a key, over a rounding
  function (\<open>round_double\<close> in the program); its execution on Redis, whose three commands
  HMGET, HMSET and EXPIRE are the parameter \<open>redis_hash\<close>; the middleware around it; the
  presets. Numbers pass between Go, Redis and Lua as decimal texts that restore the same
  double, so no further rounding happens there. Times are whole seconds in the script and
  milliseconds on the Redis server.
\<close>

subsection \<open>Configurations\<close>

record RateLimiterConfig =
  Capacity :: int
  RefillRate :: rat

definition DefaultRateLimiterConfig :: RateLimiterConfig where
  "DefaultRateLimiterConfig = \<lparr>Capacity = 20, RefillRate = 10\<rparr>"

definition StrictRateLimiter :: RateLimiterConfig where
  "StrictRateLimiter = \<lparr>Capacity = 3, RefillRate = round_double (1 / 10)\<rparr>"

definition ConservativeRateLimiter :: RateLimiterConfig where
  "ConservativeRateLimiter = \<lparr>Capacity = 10, RefillRate = 5\<rparr>"

definition ModerateRateLimiter :: RateLimiterConfig where
  "ModerateRateLimiter = DefaultRateLimiterConfig"

definition GenerousRateLimiter :: RateLimiterConfig where
  "GenerousRateLimiter = \<lparr>Capacity = 100, RefillRate = 50\<rparr>"

definition UnlimitedRateLimiter :: RateLimiterConfig where
  "UnlimitedRateLimiter = \<lparr>Capacity = 10000, RefillRate = 1000\<rparr>"

definition CustomRateLimiter :: "int \<Rightarrow> rat \<Rightarrow> RateLimiterConfig" where
  "CustomRateLimiter capacity refillRate = \<lparr>Capacity = capacity, RefillRate = refillRate\<rparr>"

definition presets :: "RateLimiterConfig list" where
  "presets = [DefaultRateLimiterConfig, StrictRateLimiter, ConservativeRateLimiter,
     ModerateRateLimiter, GenerousRateLimiter, UnlimitedRateLimiter]"

subsection \<open>The script on the hash of one key\<close>

record bucket =
  tokens :: rat
  last_refill :: int

text \<open>
  The argument of EXPIRE. Redis refuses it when it is no integer, as with a rate of 0, which makes
  it infinite, and when its milliseconds do not fit 64 bits, as with a rate that is almost 0; the
  error is only logged.
\<close>

definition script_ttl :: "(rat \<Rightarrow> rat) \<Rightarrow> RateLimiterConfig \<Rightarrow> int option" where
  "script_ttl rnd cfg =
     (if RefillRate cfg = 0 then None
      else let d = \<lceil>rnd (of_int (Capacity cfg) / RefillRate cfg)\<rceil>
           in if (2 ^ 63 - 1) div 1000 < d then None else Some d)"

text \<open>The script's lines in order: initialise, refill, check, and the hash it writes back.\<close>

definition rate_limiter_lua ::
  "(rat \<Rightarrow> rat) \<Rightarrow> RateLimiterConfig \<Rightarrow> int \<Rightarrow> bucket option \<Rightarrow> int \<times> bucket" where
  "rate_limiter_lua rnd cfg now data =
     (let capacity = of_int (Capacity cfg);
          (toks, last) = (case data of None \<Rightarrow> (capacity, now)
                          | Some b \<Rightarrow> (tokens b, last_refill b));
          delta = rnd (of_int (now - last));
          (toks, last) = (if 0 < delta
                          then (min capacity (rnd (toks + rnd (delta * RefillRate cfg))), now)
                          else (toks, last));
          (allowed, toks) = (if 1 \<le> toks then (1, rnd (toks - 1)) else (0, toks))
      in (allowed, \<lparr>tokens = toks, last_refill = last\<rparr>))"

subsection \<open>The script on Redis\<close>

record 'r redis_hash =
  hash_get :: "'r \<Rightarrow> int \<Rightarrow> string \<Rightarrow> bucket option"
  hash_set :: "'r \<Rightarrow> int \<Rightarrow> string \<Rightarrow> bucket \<Rightarrow> 'r"
  hash_expire :: "'r \<Rightarrow> int \<Rightarrow> string \<Rightarrow> int \<Rightarrow> 'r"

text \<open>
  What Redis documents of the three commands as the script uses them, at server times in
  milliseconds: after HMSET and EXPIRE with d seconds the hash is there until d seconds have
  passed and gone after that, and no other key is touched.
\<close>

definition redis_hash_laws :: "'r redis_hash \<Rightarrow> bool" where
  "redis_hash_laws H \<longleftrightarrow>
     (\<forall>r t k b d t' k'. 0 < d \<longrightarrow> t \<le> t' \<longrightarrow>
        (let x = hash_get H (hash_expire H (hash_set H r t k b) t k d) t' k' in
         if k' \<noteq> k then x = hash_get H r t' k'
         else (t' < t + d * 1000 \<longrightarrow> x = Some b) \<and> (t + d * 1000 < t' \<longrightarrow> x = None) \<and>
              (x = Some b \<or> x = None)))"

definition eval_script ::
  "(rat \<Rightarrow> rat) \<Rightarrow> 'r redis_hash \<Rightarrow> RateLimiterConfig \<Rightarrow> string \<Rightarrow> int \<Rightarrow> int \<Rightarrow> 'r \<Rightarrow> int result \<times> 'r" where
  "eval_script rnd H cfg key now t r =
     (let (allowed, b) = rate_limiter_lua rnd cfg now (hash_get H r t key);
          r' = hash_set H r t key b
      in case script_ttl rnd cfg of
           None \<Rightarrow> (Inl (LibError ''ERR value is not an integer or out of range'' []), r')
         | Some d \<Rightarrow> (Inr allowed, hash_expire H r' t key d))"

subsection \<open>The middleware\<close>

definition UserRateLimiterKey :: "int \<Rightarrow> string" where
  "UserRateLimiterKey userID = ''rate_limiter:user:'' @ fmt_d userID"

text \<open>Go's conversion of a float64 to int, and the verb .1f.\<close>

definition go_int :: "rat \<Rightarrow> int" where
  "go_int q = (if 0 \<le> q then \<lfloor>q\<rfloor> else \<lceil>q\<rceil>)"

definition fmt_f1 :: "rat \<Rightarrow> string" where
  "fmt_f1 q = (let m = rne (\<bar>q\<bar> * 10) in
     (if q < 0 then ''-'' else []) @ fmt_d (m div 10) @ ''.'' @ fmt_d (m mod 10))"

definition limited_response :: "(rat \<Rightarrow> rat) \<Rightarrow> RateLimiterConfig \<Rightarrow> handled" where
  "limited_response rnd cfg =
     JSON 429
       [(''error'', RString ''Rate limit exceeded''),
        (''message'', RString (''Maximum '' @ fmt_d (go_int (RefillRate cfg)) @ '' requests per second allowed'')),
        (''retry_after'', RString ((if RefillRate cfg = 0 then ''+Inf'' else fmt_f1 (rnd (1 / RefillRate cfg)))
                             @ '' seconds''))]"

text \<open>
  One call of EvalSha may fail before the script runs or, when the reply is lost, after it;
  the middleware lets the request pass in both cases.
\<close>

datatype eval_outcome = Eval_ok | Eval_failed goerr | Eval_unknown goerr

record limiter_env =
  le_now :: int
  le_server_time :: int
  le_eval :: eval_outcome

definition RateLimiterMiddleware ::
  "(rat \<Rightarrow> rat) \<Rightarrow> 'r redis_hash \<Rightarrow> limiter_env \<Rightarrow> RateLimiterConfig \<Rightarrow> 'r handler" where
  "RateLimiterMiddleware rnd H env cfg c r =
     (case ctx_keys c UserIDKey of
        None \<Rightarrow> (error_json 401 ''Unauthorized - user_id not found in context'', r)
      | Some (AnyInt userID) \<Rightarrow>
          (let (reply, r') = eval_script rnd H cfg (UserRateLimiterKey userID) (le_now env)
                               (le_server_time env) r in
           case le_eval env of
             Eval_failed e \<Rightarrow> (Next c, r)
           | Eval_unknown e \<Rightarrow> (Next c, r')
           | Eval_ok \<Rightarrow>
               (case reply of
                  Inl e \<Rightarrow> (Next c, r')
                | Inr allowed \<Rightarrow>
                    if allowed = 0 then (limited_response rnd cfg, r') else (Next c, r')))
      | Some _ \<Rightarrow> (Panic ''interface conversion'', r))"

subsection \<open>Keys of different users\<close>

lemma UserRateLimiterKey_inject [simp]: "UserRateLimiterKey u = UserRateLimiterKey v \<longleftrightarrow> u = v"
  by (simp add: UserRateLimiterKey_def)

lemma lua_allowed: "fst (rate_limiter_lua rnd cfg now data) \<in> {0, 1}"
  by (simp add: rate_limiter_lua_def Let_def split: prod.split option.split)

subsection \<open>A Redis that satisfies the laws\<close>

text \<open>For examples: a map from keys to hashes with the time they expire.\<close>

definition map_hash :: "(string \<Rightarrow> (bucket \<times> int option) option) redis_hash" where
  "map_hash =
     \<lparr>hash_get = (\<lambda>r t k. case r k of
        Some (b, dl) \<Rightarrow> (case dl of Some d \<Rightarrow> if t < d then Some b else None | None \<Rightarrow> Some b)
      | None \<Rightarrow> None),
      hash_set = (\<lambda>r t k b. r(k \<mapsto> (b, None))),
      hash_expire = (\<lambda>r t k d. r(k := map_option (\<lambda>(b, _). (b, Some (t + d * 1000))) (r k)))\<rparr>"

lemma map_hash_laws: "redis_hash_laws map_hash"
  by (simp add: redis_hash_laws_def map_hash_def Let_def)

end
