(* ===== verification/Routes.thy ===== *)
theory Routes
  imports Rate_Limiter User_Controller Task_Controller
begin

section \<open>Routes: internal/handler/handler.go\<close>

text \<open>
  The route table setupRoutes builds and the wiring of SetupHandler. The web framework is
  the parameter \<open>gin_engine\<close>, which runs the handlers of one route; \<open>gin_laws\<close> is what it
  documents of a chain: the handlers run in the order in which the group and the route
  registered them, a handler that aborts ends the chain with its response, one that calls
  Next hands over, and a panic is turned into status 500 by Recovery (gin.Default).
\<close>

subsection \<open>The world of the API process and a request\<close>

text \<open>
  The hashes of the limiter and the string cache are both in Redis, under keys with
  different prefixes; they are two fields here. The faults, times and bound bodies of one
  request are a record.
\<close>

record ('h, 'r) app_world =
  aw_hash :: 'h
  aw_svc :: "'r svc_world"

record request_env =
  rq_limiter :: limiter_env
  rq_now :: int
  rq_now1 :: int
  rq_now2 :: int
  rq_register :: "(string \<times> string) result"
  rq_login :: "(string \<times> string) result"
  rq_refresh :: "string result"
  rq_task :: "string result"
  rq_create :: create_env
  rq_query :: sql_query
  rq_create_user :: create_user_env
  rq_login_env :: login_env

definition on_hash :: "'h handler \<Rightarrow> ('h, 'r) app_world handler" where
  "on_hash h c w = (case h c (aw_hash w) of (x, s) \<Rightarrow> (x, w\<lparr>aw_hash := s\<rparr>))"

definition on_svc :: "'r svc_world handler \<Rightarrow> ('h, 'r) app_world handler" where
  "on_svc h c w = (case h c (aw_svc w) of (x, s) \<Rightarrow> (x, w\<lparr>aw_svc := s\<rparr>))"

definition on_db :: "database handler \<Rightarrow> ('h, 'r) app_world handler" where
  "on_db h c w = (case h c (w_db (aw_svc w)) of
     (x, db) \<Rightarrow> (x, w\<lparr>aw_svc := (aw_svc w)\<lparr>w_db := db\<rparr>\<rparr>))"

subsection \<open>The route table\<close>

datatype http_method = GET | POST

record 'w route =
  rt_method :: http_method
  rt_path :: string
  rt_chain :: "'w handler list"

text \<open>ScriptLoad runs when the middleware is built; the process ends when it fails.\<close>

definition LoadRateLimiter :: "goerr option \<Rightarrow> 'w handler \<Rightarrow> 'w handler startup" where
  "LoadRateLimiter load_err h =
     (case load_err of
        Some e \<Rightarrow> Fatal ''Failed to load Lua script for rate limiter''
      | None \<Rightarrow> Started h)"

text \<open>A group: its prefix, the handlers of Use, and the routes registered on it.\<close>

definition group_routes ::
  "string \<Rightarrow> 'w handler list \<Rightarrow> (http_method \<times> string \<times> 'w handler) list \<Rightarrow> 'w route list" where
  "group_routes prefix used rs =
     map (\<lambda>(m, path, h). \<lparr>rt_method = m, rt_path = prefix @ path, rt_chain = used @ [h]\<rparr>) rs"

record 'w controllers =
  ct_register :: "'w handler"
  ct_login :: "'w handler"
  ct_refresh :: "'w handler"
  ct_create :: "'w handler"
  ct_get :: "'w handler"
  ct_list :: "'w handler"

definition setupRoutes ::
  "goerr option \<Rightarrow> goerr option \<Rightarrow> (RateLimiterConfig \<Rightarrow> 'w handler) \<Rightarrow> 'w handler \<Rightarrow>
     'w controllers \<Rightarrow> 'w route list startup" where
  "setupRoutes load1 load2 limiter authentication K =
     (case LoadRateLimiter load1 (limiter StrictRateLimiter) of
        Fatal m \<Rightarrow> Fatal m
      | Started strict \<Rightarrow>
          let authGroup = group_routes ''/auth'' [strict]
                [(POST, ''/register'', ct_register K), (POST, ''/login'', ct_login K),
                 (POST, ''/refresh'', ct_refresh K)]
          in case LoadRateLimiter load2 (limiter DefaultRateLimiterConfig) of
               Fatal m \<Rightarrow> Fatal m
             | Started standard \<Rightarrow>
                 let api = group_routes ''/api/v1'' [standard, authentication]
                       [(POST, ''/tasks'', ct_create K), (GET, ''/tasks/:id'', ct_get K),
                        (GET, ''/users/tasks'', ct_list K)]
                 in Started (authGroup @ api))"

subsection \<open>SetupHandler\<close>

text \<open>What the program calls but does not define, together.\<close>

record ('h, 'r) libraries =
  lib_driver :: driver
  lib_redis :: "'r redis_client"
  lib_hash :: "'h redis_hash"
  lib_is_print :: "nat \<Rightarrow> bool"
  lib_bcrypt :: bcrypt_lib
  lib_jwt :: jwt_lib

definition SetupHandler ::
  "('h, 'r) libraries \<Rightarrow> string \<Rightarrow> goerr option \<Rightarrow> goerr option \<Rightarrow> request_env \<Rightarrow>
     ('h, 'r) app_world route list startup" where
  "SetupHandler Q jwtSecret load1 load2 e =
     (let userRepo = NewUserRepository (lib_driver Q);
          taskRepo = NewTaskRepository (lib_driver Q);
          userService = NewUserService userRepo (lib_bcrypt Q) (lib_jwt Q) (rq_create_user e) (rq_login_env e);
          taskService = NewTaskService taskRepo (lib_redis Q) (lib_is_print Q)
                          (rq_create e) (rq_query e);
          userCtrl = NewUserController userService jwtSecret;
          taskCtrl = NewTaskController taskService;
          K = \<lparr>ct_register = on_db (UserController_Register (uc_userService userCtrl) (rq_register e)),
               ct_login = on_db (UserController_Login (uc_userService userCtrl) (uc_jwtSecret userCtrl)
                            (rq_login e)),
               ct_refresh = on_db (UserController_RefreshToken (lib_jwt Q) (rq_now e) (rq_now1 e)
                              (rq_now2 e) (uc_jwtSecret userCtrl) (rq_refresh e)),
               ct_create = on_svc (TaskController_CreateTask (tc_service taskCtrl) (rq_task e)),
               ct_get = on_svc (TaskController_GetTask (tc_service taskCtrl)),
               ct_list = on_svc (TaskController_GetTasksByUser (tc_service taskCtrl))\<rparr>
      in setupRoutes load1 load2
           (\<lambda>cfg. on_hash (RateLimiterMiddleware round_double (lib_hash Q) (rq_limiter e) cfg))
           (AuthMiddleware (lib_jwt Q) (rq_now e) jwtSecret) K)"

subsection \<open>The framework\<close>

type_synonym 'w gin_engine = "'w handler list \<Rightarrow> gin_ctx \<Rightarrow> 'w \<Rightarrow> response option \<times> 'w"

definition gin_laws :: "'w gin_engine \<Rightarrow> bool" where
  "gin_laws E \<longleftrightarrow> (\<forall>h hs c w. E (h # hs) c w =
     (case h c w of
        (Respond r, w') \<Rightarrow> (Some r, w')
      | (Next c', w') \<Rightarrow> E hs c' w'
      | (Panic p, w') \<Rightarrow> (Some \<lparr>http_status = 500, http_body = []\<rparr>, w')))"

text \<open>A framework that satisfies the law, for examples.\<close>

fun chain_engine :: "'w gin_engine" where
  "chain_engine [] c w = (None, w)"
| "chain_engine (h # hs) c w =
     (case h c w of
        (Respond r, w') \<Rightarrow> (Some r, w')
      | (Next c', w') \<Rightarrow> chain_engine hs c' w'
      | (Panic p, w') \<Rightarrow> (Some \<lparr>http_status = 500, http_body = []\<rparr>, w'))"

lemma chain_engine_laws: "gin_laws chain_engine"
  by (simp add: gin_laws_def)

text \<open>A request as it arrives: no middleware has set a key.\<close>

definition fresh_ctx :: "gin_ctx \<Rightarrow> bool" where
  "fresh_ctx c \<longleftrightarrow> ctx_keys c = Map.empty"

subsection \<open>What a chain does\<close>

lemma gin_respond: "gin_laws E \<Longrightarrow> h c w = (Respond r, w') \<Longrightarrow> E (h # hs) c w = (Some r, w')"
  by (simp add: gin_laws_def)

lemma gin_next: "gin_laws E \<Longrightarrow> h c w = (Next c', w') \<Longrightarrow> E (h # hs) c w = E hs c' w'"
  by (simp add: gin_laws_def)

lemma limiter_without_user:
  "ctx_keys c UserIDKey = None \<Longrightarrow>
   RateLimiterMiddleware rnd H env cfg c r =
     (error_json 401 ''Unauthorized - user_id not found in context'', r)"
  by (simp add: RateLimiterMiddleware_def)

lemma on_hash_same: "h c (aw_hash w) = (x, aw_hash w) \<Longrightarrow> on_hash h c w = (x, w)"
  by (simp add: on_hash_def)

text \<open>Every chain of the table starts with a limiter.\<close>

lemma setupRoutes_limiter_first:
  assumes "setupRoutes load1 load2 limiter authentication K = Started routes" and "r \<in> set routes"
  shows "\<exists>cfg rest. rt_chain r = limiter cfg # rest"
  using assms
  by (auto simp: setupRoutes_def LoadRateLimiter_def group_routes_def Let_def
      split: option.splits startup.splits if_splits) blast+

lemma setupRoutes_table:
  assumes "setupRoutes None None limiter authentication K = Started routes"
  shows "map (\<lambda>r. (rt_method r, rt_path r)) routes =
    [(POST, ''/auth/register''), (POST, ''/auth/login''), (POST, ''/auth/refresh''),
     (POST, ''/api/v1/tasks''), (GET, ''/api/v1/tasks/:id''), (GET, ''/api/v1/users/tasks'')]"
  using assms by (auto simp: setupRoutes_def LoadRateLimiter_def group_routes_def Let_def)

end
