(* ===== verification/Startup.thy ===== *)
theory Startup
  imports Rabbit
begin

section \<open>Configuration and start of the two processes\<close>

text \<open>
  internal/config/config.go, internal/db/postgres.go, the set-up of internal/cache/redis.go,
  cmd/api/main.go and cmd/worker/main.go. The environment, the answers of the servers to
  each attempt and the errors of the calls to Close are arguments. log.Fatal ends the process
  at once: no deferred call runs.
\<close>

subsection \<open>config.go\<close>

record DBConfig =
  cfg_Host :: string
  cfg_Port :: string
  cfg_User :: string
  cfg_Password :: string
  cfg_Name :: string
  cfg_SSLMode :: string

record RedisConfig =
  rcfg_Host :: string
  rcfg_Port :: string
  RedisPassword :: string
  RedisDB :: string

record RabbitMQConfig =
  URL :: string

record JWTConfig =
  Secret :: string

record Config =
  AppName :: string
  AppEnv :: string
  AppPort :: string
  cfg_DB :: DBConfig
  cfg_Redis :: RedisConfig
  cfg_RabbitMQ :: RabbitMQConfig
  cfg_JWT :: JWTConfig

definition Load :: "(string \<Rightarrow> string) \<Rightarrow> Config" where
  "Load getenv =
     \<lparr>AppName = getenv ''APP_NAME'', AppEnv = getenv ''APP_ENV'', AppPort = getenv ''APP_PORT'',
      cfg_DB = \<lparr>cfg_Host = getenv ''DB_HOST'', cfg_Port = getenv ''DB_PORT'',
                cfg_User = getenv ''DB_USER'', cfg_Password = getenv ''DB_PASSWORD'',
                cfg_Name = getenv ''DB_NAME'', cfg_SSLMode = getenv ''DB_SSLMODE''\<rparr>,
      cfg_Redis = \<lparr>rcfg_Host = getenv ''REDIS_HOST'', rcfg_Port = getenv ''REDIS_PORT'',
                   RedisPassword = getenv ''REDIS_PASSWORD'', RedisDB = getenv ''REDIS_DB''\<rparr>,
      cfg_RabbitMQ = \<lparr>URL = getenv ''RABBITMQ_URL''\<rparr>,
      cfg_JWT = \<lparr>Secret = getenv ''JWT_SECRET''\<rparr>\<rparr>"

subsection \<open>postgres.go\<close>

definition db_dsn :: "DBConfig \<Rightarrow> string" where
  "db_dsn c = ''host='' @ cfg_Host c @ '' port='' @ cfg_Port c @ '' user='' @ cfg_User c
     @ '' password='' @ cfg_Password c @ '' dbname='' @ cfg_Name c @ '' sslmode='' @ cfg_SSLMode c"

text \<open>
  The loop of Init: Open, then Ping; a handle whose Ping fails is closed. The state is the
  pair of the code's variables (the last error or the handle), the seconds slept and the
  handles closed so far.
\<close>

fun init_loop ::
  "nat \<Rightarrow> (nat \<Rightarrow> 'd result) \<Rightarrow> (nat \<Rightarrow> goerr option) \<Rightarrow> nat \<Rightarrow> 'd result \<Rightarrow> nat \<Rightarrow> 'd list \<Rightarrow>
     'd result \<times> nat \<times> 'd list" where
  "init_loop 0 open_db ping i res slept closed = (res, slept, closed)"
| "init_loop (Suc n) open_db ping i res slept closed =
     (case open_db i of
        Inl e \<Rightarrow> init_loop n open_db ping (Suc i) (Inl e) (slept + (i + 1)) closed
      | Inr d \<Rightarrow>
          (case ping i of
             Some e \<Rightarrow> init_loop n open_db ping (Suc i) (Inl e) (slept + (i + 1)) (closed @ [d])
           | None \<Rightarrow> (Inr d, slept, closed)))"

record pool =
  MaxOpenConns :: nat
  MaxIdleConns :: nat
  ConnMaxLifetime :: int
  ConnMaxIdleTime :: int

definition Init ::
  "(string \<Rightarrow> nat \<Rightarrow> 'd result) \<Rightarrow> (nat \<Rightarrow> goerr option) \<Rightarrow> DBConfig \<Rightarrow>
     ('d \<times> pool) startup \<times> nat \<times> 'd list" where
  "Init open_db ping cfg =
     (case init_loop 5 (open_db (db_dsn cfg)) ping 0 (Inl (ErrorString [])) 0 [] of
        (Inl e, s, cl) \<Rightarrow> (Fatal (''Failed to connect to database after '' @ fmt_d 5 @ '' attempts: ''
                             @ err_text e), s, cl)
      | (Inr d, s, cl) \<Rightarrow>
          (Started (d, \<lparr>MaxOpenConns = 100, MaxIdleConns = 10,
                        ConnMaxLifetime = 30 * 60 * 1000000000, ConnMaxIdleTime = 5 * 60 * 1000000000\<rparr>),
           s, cl))"

subsection \<open>redis.go\<close>

record redis_options =
  opt_Addr :: string
  opt_Password :: string
  opt_DB :: int

definition SetupRedis :: "(redis_options \<Rightarrow> goerr option) \<Rightarrow> RedisConfig \<Rightarrow> redis_options startup" where
  "SetupRedis ping cfg =
     (let addr = rcfg_Host cfg @ '':'' @ rcfg_Port cfg in
      case strconv_Atoi (RedisDB cfg) of
        Inl e \<Rightarrow> Fatal (''Invalid Redis DB number: '' @ err_text e)
      | Inr db \<Rightarrow>
          let rdb = \<lparr>opt_Addr = addr, opt_Password = RedisPassword cfg, opt_DB = db\<rparr> in
          case ping rdb of
            Some e \<Rightarrow> Fatal (''Failed to connect to Redis: '' @ err_text e)
          | None \<Rightarrow> Started rdb)"

subsection \<open>cmd/api/main.go\<close>

datatype resource = Database | Redis | RabbitMQ

datatype event = Opened resource | Listening string | Closed resource

datatype exit = Exit_fatal string | Exit_ok

text \<open>
  A deferred Close: an error is fatal and ends the process, so the closes that were deferred
  earlier are skipped. Deferred calls run in the reverse order.
\<close>

fun run_defers :: "(resource \<times> goerr option \<times> string) list \<Rightarrow> event list \<times> exit" where
  "run_defers [] = ([], Exit_ok)"
| "run_defers ((r, err, msg) # ds) =
     (case err of
        Some e \<Rightarrow> ([], Exit_fatal msg)
      | None \<Rightarrow> (case run_defers ds of (evs, x) \<Rightarrow> (Closed r # evs, x)))"

record ('d, 'c) api_env =
  ae_open :: "string \<Rightarrow> nat \<Rightarrow> 'd result"
  ae_ping :: "nat \<Rightarrow> goerr option"
  ae_redis_ping :: "redis_options \<Rightarrow> goerr option"
  ae_dial :: "string \<Rightarrow> nat \<Rightarrow> 'c result"
  ae_setup_fatal :: "string option"
  ae_bound :: bool
  ae_listen :: "goerr option"
  ae_close_conn :: "goerr option"
  ae_close_rdb :: "goerr option"
  ae_close_db :: "goerr option"

text \<open>
  main of the API: the server runs in a goroutine; main waits for a signal, logs, and
  returns through its deferred calls. ListenAndServe first binds the port and then serves:
  \<open>ae_bound\<close> says whether it had bound the port before the signal came (it has not when the
  port is taken), \<open>ae_listen\<close> is the error it returned before the signal, which is fatal (and
  never http.ErrServerClosed, since nothing closes the server).
\<close>

definition api_main :: "(string \<Rightarrow> string) \<Rightarrow> ('d, 'c) api_env \<Rightarrow> event list \<times> exit" where
  "api_main getenv env =
     (let config = Load getenv in
      case fst (Init (ae_open env) (ae_ping env) (cfg_DB config)) of Fatal m \<Rightarrow> ([], Exit_fatal m)
      | Started _ \<Rightarrow>
      case SetupRedis (ae_redis_ping env) (cfg_Redis config) of
        Fatal m \<Rightarrow> ([Opened Database], Exit_fatal m)
      | Started _ \<Rightarrow>
      case fst (SetupRabbitMQ (ae_dial env (URL (cfg_RabbitMQ config)))) of
        Fatal m \<Rightarrow> ([Opened Database, Opened Redis], Exit_fatal m)
      | Started _ \<Rightarrow>
      let opened = [Opened Database, Opened Redis, Opened RabbitMQ] in
      case ae_setup_fatal env of Some m \<Rightarrow> (opened, Exit_fatal m)
      | None \<Rightarrow>
      let served = (if ae_bound env then [Listening '':8087''] else []) in
      case ae_listen env of
        Some e \<Rightarrow> (opened @ served, Exit_fatal ''Failed to start server'')
      | None \<Rightarrow>
          (case run_defers
                  [(RabbitMQ, ae_close_conn env, ''Failed to close RabbitMQ connection''),
                   (Redis, ae_close_rdb env, ''Failed to close redis connection''),
                   (Database, ae_close_db env, ''Failed to close database connection'')] of
             (evs, x) \<Rightarrow> (opened @ served @ evs, x)))"

subsection \<open>cmd/worker/main.go\<close>

record ('d, 'c, 'ch, 'q) wmain_env =
  wm_open :: "string \<Rightarrow> nat \<Rightarrow> 'd result"
  wm_ping :: "nat \<Rightarrow> goerr option"
  wm_dial :: "string \<Rightarrow> nat \<Rightarrow> 'c result"
  wm_channel :: "'c \<Rightarrow> 'ch result"
  wm_declare :: "'ch \<Rightarrow> string \<Rightarrow> bool \<Rightarrow> bool \<Rightarrow> bool \<Rightarrow> bool \<Rightarrow> 'q result"
  wm_close_channel :: "goerr option"

text \<open>
  main of the worker: it ends fatally, or starts three workers on the connection and blocks
  for ever; the result is their numbers with the handles they share.
\<close>

definition worker_main ::
  "(string \<Rightarrow> string) \<Rightarrow> ('d, 'c, 'ch, 'q) wmain_env \<Rightarrow> (int \<times> 'c \<times> 'd) list startup" where
  "worker_main getenv env =
     (let cfg = Load getenv in
      case fst (Init (wm_open env) (wm_ping env) (cfg_DB cfg)) of Fatal m \<Rightarrow> Fatal m
      | Started (db, _) \<Rightarrow>
      case fst (SetupRabbitMQ (wm_dial env (URL (cfg_RabbitMQ cfg)))) of Fatal m \<Rightarrow> Fatal m
      | Started conn \<Rightarrow>
      case CreateChannel (wm_channel env conn) of
        Inl e \<Rightarrow> Fatal ''Failed to create RabbitMQ channel''
      | Inr consumerChannel \<Rightarrow>
      case DeclareQueue (wm_declare env consumerChannel) ''task_queue'' of
        Inl e \<Rightarrow> Fatal ''Failed to declare RabbitMQ queue''
      | Inr _ \<Rightarrow>
      case wm_close_channel env of
        Some e \<Rightarrow> Fatal ''Failed to close RabbitMQ channel''
      | None \<Rightarrow> Started (map (\<lambda>i. (i, conn, db)) [1, 2, 3]))"

subsection \<open>The retry loops\<close>

text \<open>One attempt of Init as one answer: the database loop is the loop of the queue.\<close>

definition attempt :: "(nat \<Rightarrow> 'd result) \<Rightarrow> (nat \<Rightarrow> goerr option) \<Rightarrow> nat \<Rightarrow> 'd result" where
  "attempt open_db ping i =
     (case open_db i of Inl e \<Rightarrow> Inl e
      | Inr d \<Rightarrow> (case ping i of Some e \<Rightarrow> Inl e | None \<Rightarrow> Inr d))"

lemma init_loop_dial:
  "(case init_loop n open_db ping i res s cl of (r, s', _) \<Rightarrow> (r, s')) =
   dial_loop n (attempt open_db ping) i res s"
  by (induction n arbitrary: i res s cl) (auto simp: attempt_def split: sum.split option.split)

text \<open>Every handle that was opened is closed or returned.\<close>

lemma init_loop_handles:
  "init_loop n open_db ping i res s cl = (r, s', cl') \<Longrightarrow>
   set cl' \<subseteq> set cl \<union> {d. \<exists>j. open_db j = Inr d \<and> ping j \<noteq> None} \<and>
   (\<forall>d. r = Inr d \<longrightarrow> res = Inr d \<or> (\<exists>j. open_db j = Inr d \<and> ping j = None))"
  by (induction n arbitrary: i res s cl) (fastforce split: sum.splits option.splits)+

lemma run_defers_all:
  "list_all (\<lambda>(r, err, msg). err = None) ds \<Longrightarrow> run_defers ds = (map (\<lambda>(r, _). Closed r) ds, Exit_ok)"
  by (induction ds rule: run_defers.induct) auto

text \<open>The handles that were opened in some attempts, and those the loop closes.\<close>

definition opened_handles :: "(nat \<Rightarrow> 'd result) \<Rightarrow> nat list \<Rightarrow> 'd list" where
  "opened_handles op js = concat (map (\<lambda>j. case op j of Inl _ \<Rightarrow> [] | Inr d \<Rightarrow> [d]) js)"

lemma init_loop_closed:
  "snd (snd (init_loop n op ping i res s cl)) =
     cl @ opened_handles op (takeWhile (\<lambda>j. isl (attempt op ping j)) [i..<i + n])"
proof (induction n arbitrary: i res s cl)
  case 0
  then show ?case by (simp add: opened_handles_def)
next
  case (Suc n)
  have upt: "[i..<i + Suc n] = i # [Suc i..<Suc i + n]" by (simp add: upt_rec)
  show ?case unfolding upt using Suc.IH
    by (auto simp: attempt_def opened_handles_def split: sum.split option.split)
qed

lemma init_loop_result:
  "init_loop n op ping i res s cl = (r, s', cl') \<Longrightarrow> dial_loop n (attempt op ping) i res s = (r, s')"
  using init_loop_dial [of n op ping i res s cl] by simp

subsection \<open>When the processes start\<close>

lemma upt_ex: "(\<exists>k<5. P k) \<longleftrightarrow> P 0 \<or> P 1 \<or> P 2 \<or> P 3 \<or> P (4::nat)"
  by (simp add: eval_nat_numeral less_Suc_eq ex_disj_distrib) auto

lemma dial_loop_Started: "(\<exists>c s. dial_loop 5 dial 0 l 0 = (Inr c, s)) \<longleftrightarrow> (\<exists>k<5. \<not> isl (dial k))"
  unfolding upt_ex dial_loop_five by (auto split: sum.split)

definition starts :: "'a startup \<Rightarrow> bool" where
  "starts x \<longleftrightarrow> (case x of Started _ \<Rightarrow> True | Fatal _ \<Rightarrow> False)"

lemma SetupRabbitMQ_starts: "starts (fst (SetupRabbitMQ dial)) \<longleftrightarrow> (\<exists>k<5. \<not> isl (dial k))"
  unfolding dial_loop_Started [of dial "Inl (ErrorString [])", symmetric]
  by (auto simp: starts_def SetupRabbitMQ_def maxRetries_def split: sum.splits prod.splits)

lemma Init_starts: "starts (fst (Init open_db ping cfg)) \<longleftrightarrow> (\<exists>k<5. \<not> isl (attempt (open_db (db_dsn cfg)) ping k))"
proof -
  let ?op = "open_db (db_dsn cfg)"
  obtain r s cl where run: "init_loop 5 ?op ping 0 (Inl (ErrorString [])) 0 [] = (r, s, cl)"
    by (metis prod.collapse)
  from init_loop_result [OF run] dial_loop_Started [of "attempt ?op ping" "Inl (ErrorString [])"] show ?thesis
    by (cases r) (auto simp: Init_def run starts_def)
qed

lemma SetupRedis_starts: "starts (SetupRedis ping cfg) \<longleftrightarrow>
   (\<exists>n. strconv_Atoi (RedisDB cfg) = Inr n \<and>
     ping \<lparr>opt_Addr = rcfg_Host cfg @ '':'' @ rcfg_Port cfg, opt_Password = RedisPassword cfg, opt_DB = n\<rparr> = None)"
  by (auto simp: SetupRedis_def starts_def Let_def split: sum.split option.split)

lemma run_defers_closes: "Listening port \<notin> set (fst (run_defers ds))"
  by (induction ds rule: run_defers.induct) (auto split: option.split prod.split)

lemma api_main_listens:
  "Listening '':8087'' \<in> set (fst (api_main getenv env)) \<longleftrightarrow>
     starts (fst (Init (ae_open env) (ae_ping env) (cfg_DB (Load getenv)))) \<and>
     starts (SetupRedis (ae_redis_ping env) (cfg_Redis (Load getenv))) \<and>
     starts (fst (SetupRabbitMQ (ae_dial env (URL (cfg_RabbitMQ (Load getenv)))))) \<and>
     ae_setup_fatal env = None \<and> ae_bound env"
  using run_defers_closes [of _ "[(RabbitMQ, ae_close_conn env, ''Failed to close RabbitMQ connection''),
      (Redis, ae_close_rdb env, ''Failed to close redis connection''),
      (Database, ae_close_db env, ''Failed to close database connection'')]"]
  by (auto simp: api_main_def Let_def starts_def simp del: run_defers.simps
      split: startup.splits option.splits prod.splits)

lemma api_main_port: "set (fst (api_main getenv env)) \<inter> range Listening \<subseteq> {Listening '':8087''}"
  using run_defers_closes [of _ "[(RabbitMQ, ae_close_conn env, ''Failed to close RabbitMQ connection''),
      (Redis, ae_close_rdb env, ''Failed to close redis connection''),
      (Database, ae_close_db env, ''Failed to close database connection'')]"]
  by (auto simp: api_main_def Let_def split: startup.splits option.splits prod.splits)

end
