(* ===== verification/Cache_Staleness.thy ===== *)
theory Cache_Staleness
  imports Service_Properties Requests
begin

section \<open>How old an answer from the cache can be\<close>

text \<open>
  The cache with time: each entry of Redis has a deadline, the clock of Redis moves between
  the phases of requests, and the past is the list of all states of the database with the
  instants at which they were current. Other processes (workers, other instances, accounts)
  may change the database in any way at any time. A request writes to the cache what it has
  read at most \<open>lag\<close> before (the context of that write ends two seconds after the request
  began). The lifetime the code gives an entry then bounds the age of every answer.
\<close>

subsection \<open>Redis with deadlines\<close>

text \<open>
  What Redis documents of SET with an expiry and of GET: an entry is returned only before its
  deadline, and a SET gives its key the value and the deadline of the clock plus the lifetime.
\<close>

definition redis_ttl_laws ::
  "'r redis_client \<Rightarrow> ('r \<Rightarrow> string \<Rightarrow> (string \<times> int) option) \<Rightarrow> ('r \<Rightarrow> int) \<Rightarrow> bool" where
  "redis_ttl_laws C entry clk \<longleftrightarrow>
     (\<forall>r k v. redis_Get C r k = Redis_value v \<longrightarrow> (\<exists>d. entry r k = Some (v, d) \<and> clk r < d)) \<and>
     (\<forall>r k v ttl e r'. redis_Set C r k v ttl = (e, r') \<longrightarrow> clk r' = clk r \<and>
        (\<forall>k' x. entry r' k' = Some x \<longrightarrow> entry r k' = Some x \<or> k' = k \<and> x = (v, clk r + ttl)))"

text \<open>Time passes; entries may disappear, at their deadline or before.\<close>

definition passes ::
  "('r \<Rightarrow> string \<Rightarrow> (string \<times> int) option) \<Rightarrow> ('r \<Rightarrow> int) \<Rightarrow> 'r \<Rightarrow> 'r \<Rightarrow> bool" where
  "passes entry clk r r' \<longleftrightarrow> clk r \<le> clk r' \<and> (\<forall>k x. entry r' k = Some x \<longrightarrow> entry r k = Some x)"

lemma redis_ttl_Get:
  "redis_ttl_laws C entry clk \<Longrightarrow> redis_Get C r k = Redis_value v \<Longrightarrow>
   \<exists>d. entry r k = Some (v, d) \<and> clk r < d"
  unfolding redis_ttl_laws_def by blast

lemma redis_ttl_Set:
  assumes "redis_ttl_laws C entry clk" and "redis_Set C r k v ttl = (e, r')"
  shows "clk r' = clk r"
    and "entry r' k' = Some x \<Longrightarrow> entry r k' = Some x \<or> k' = k \<and> x = (v, clk r + ttl)"
  using assms unfolding redis_ttl_laws_def by blast+

lemma cached_entry:
  assumes "redis_ttl_laws C entry clk" and "cached C dec r k = Some x"
  shows "\<exists>v d. entry r k = Some (v, d) \<and> clk r < d \<and> dec v = Some x"
  using cached_SomeD [OF assms(2)] redis_ttl_Get [OF assms(1)]
  by (fastforce simp: TaskCache_Get_def split: redis_reply.splits)

lemma TaskCache_Set_entry:
  assumes "redis_ttl_laws C entry clk" and "TaskCache_Set C r k m = (e, r')"
  shows "clk r' = clk r"
    and "entry r' k' = Some (v, d) \<Longrightarrow>
      entry r k' = Some (v, d) \<or> k' = k \<and> m = Inr v \<and> d = clk r + TaskCacheTTL"
proof -
  show "clk r' = clk r"
    using assms redis_ttl_Set(1) by (fastforce simp: TaskCache_Set_def split: sum.splits)
  show "entry r' k' = Some (v, d) \<Longrightarrow>
      entry r k' = Some (v, d) \<or> k' = k \<and> m = Inr v \<and> d = clk r + TaskCacheTTL"
    using assms redis_ttl_Set(2) by (fastforce simp: TaskCache_Set_def split: sum.splits)
qed

subsection \<open>Runs with time\<close>

text \<open>A request in flight is its next phase and the instant of its last one.\<close>

record 'r timed =
  ti_world :: "'r svc_world"
  ti_requests :: "(request \<times> int) list"
  ti_past :: "(int \<times> database) list"

abbreviation ti_now :: "('r \<Rightarrow> int) \<Rightarrow> 'r timed \<Rightarrow> int" where
  "ti_now clk s \<equiv> clk (w_redis (ti_world s))"

definition stamp :: "('r \<Rightarrow> int) \<Rightarrow> 'r timed \<Rightarrow> 'r svc_world \<Rightarrow> (request \<times> int) list \<Rightarrow> 'r timed" where
  "stamp clk s w rqs =
     \<lparr>ti_world = w, ti_requests = rqs, ti_past = ti_past s @ [(clk (w_redis w), w_db w)]\<rparr>"

definition writes_cache :: "request \<Rightarrow> bool" where
  "writes_cache x = (case x of Caching_task i t \<Rightarrow> True | Caching_list u ts \<Rightarrow> True | _ \<Rightarrow> False)"

inductive timed_step ::
  "int \<Rightarrow> driver \<Rightarrow> 'r redis_client \<Rightarrow> ('r \<Rightarrow> string \<Rightarrow> (string \<times> int) option) \<Rightarrow> ('r \<Rightarrow> int) \<Rightarrow>
     (nat \<Rightarrow> bool) \<Rightarrow> 'r timed \<Rightarrow> 'r timed \<Rightarrow> bool"
  for lag drv C entry clk is_print where
  arrive: "arrives x \<Longrightarrow>
    timed_step lag drv C entry clk is_print s
      (stamp clk s (ti_world s) (ti_requests s @ [(x, ti_now clk s)]))"
| phase: "i < length (ti_requests s) \<Longrightarrow> ti_requests s ! i = (x, t0) \<Longrightarrow> order_ok (ph_query env) \<Longrightarrow>
      \<not> writes_cache x \<or> ti_now clk s \<le> t0 + lag \<Longrightarrow>
      request_step (NewTaskRepository drv) (NewUserRepository drv) C B is_print env x (ti_world s) = (x', w') \<Longrightarrow>
    timed_step lag drv C entry clk is_print s
      (stamp clk s w' ((ti_requests s)[i := (x', ti_now clk s)]))"
| others: "wf_db db' \<Longrightarrow>
    timed_step lag drv C entry clk is_print s
      (stamp clk s ((ti_world s)\<lparr>w_db := db', w_published := msgs\<rparr>) (ti_requests s))"
| time: "passes entry clk (w_redis (ti_world s)) r' \<Longrightarrow>
    timed_step lag drv C entry clk is_print s
      (stamp clk s ((ti_world s)\<lparr>w_redis := r'\<rparr>) (ti_requests s))"

definition timed_init ::
  "('r \<Rightarrow> string \<Rightarrow> (string \<times> int) option) \<Rightarrow> ('r \<Rightarrow> int) \<Rightarrow> 'r timed \<Rightarrow> bool" where
  "timed_init entry clk s \<longleftrightarrow> wf_db (w_db (ti_world s)) \<and>
     entry (w_redis (ti_world s)) = Map.empty \<and> ti_requests s = [] \<and>
     ti_past s = [(ti_now clk s, w_db (ti_world s))]"

text \<open>At some instant between two times the database was as a predicate says.\<close>

definition was ::
  "(int \<times> database) list \<Rightarrow> int \<Rightarrow> int \<Rightarrow> (database \<Rightarrow> bool) \<Rightarrow> bool" where
  "was past since until P \<longleftrightarrow>
     (\<exists>t db. (t, db) \<in> set past \<and> since \<le> t \<and> t \<le> until \<and> P db)"

lemma was_mono:
  "was past a b P \<Longrightarrow> set past \<subseteq> set past' \<Longrightarrow> a' \<le> a \<Longrightarrow> b \<le> b' \<Longrightarrow> was past' a' b' P"
  unfolding was_def by (meson order_trans subsetD)

lemma was_now: "(b, db) \<in> set past \<Longrightarrow> a \<le> b \<Longrightarrow> P db \<Longrightarrow> was past a b P"
  by (auto simp: was_def)

subsection \<open>The invariant\<close>

text \<open>What a query for a task, or for the tasks of a user, could answer on a database.\<close>

definition could_get :: "driver \<Rightarrow> int \<Rightarrow> task \<Rightarrow> database \<Rightarrow> bool" where
  "could_get drv i t db \<longleftrightarrow> (\<exists>q. TaskRepository_GetByID drv q db i = Inr t)"

definition could_list :: "driver \<Rightarrow> int \<Rightarrow> task option list option \<Rightarrow> database \<Rightarrow> bool" where
  "could_list drv u ts db \<longleftrightarrow>
     (\<exists>q rows. order_ok q \<and> TaskRepository_GetByUserID drv q db u = Inr rows \<and>
       ts = appended (map Some rows))"

definition timely ::
  "int \<Rightarrow> driver \<Rightarrow> ('r \<Rightarrow> string \<Rightarrow> (string \<times> int) option) \<Rightarrow> ('r \<Rightarrow> int) \<Rightarrow> (int \<times> database) list \<Rightarrow>
     'r \<Rightarrow> bool" where
  "timely lag drv entry clk past r \<longleftrightarrow>
     (\<forall>i v d t. entry r (TaskKey i) = Some (v, d) \<longrightarrow> unmarshal_task v = Some t \<longrightarrow>
        was past (d - TaskCacheTTL - lag) (clk r) (could_get drv i t)) \<and>
     (\<forall>u v d ts. entry r (UserTasksKey u) = Some (v, d) \<longrightarrow> unmarshal_tasks v = Some ts \<longrightarrow>
        was past (d - TaskCacheTTL - lag) (clk r) (could_list drv u ts))"

text \<open>What a request is about to write was read at the instant it carries.\<close>

definition holds_read :: "driver \<Rightarrow> (int \<times> database) list \<Rightarrow> int \<Rightarrow> request \<times> int \<Rightarrow> bool" where
  "holds_read drv past now y \<longleftrightarrow>
     (case y of
        (Caching_task i t, t0) \<Rightarrow> storable t \<and> was past t0 now (could_get drv i t)
      | (Caching_list u ts, t0) \<Rightarrow> list_all storable ts \<and> was past t0 now (could_list drv u (appended (map Some ts)))
      | _ \<Rightarrow> True)"

definition timed_inv ::
  "int \<Rightarrow> driver \<Rightarrow> ('r \<Rightarrow> string \<Rightarrow> (string \<times> int) option) \<Rightarrow> ('r \<Rightarrow> int) \<Rightarrow> 'r timed \<Rightarrow> bool" where
  "timed_inv lag drv entry clk s \<longleftrightarrow>
     wf_db (w_db (ti_world s)) \<and> (ti_now clk s, w_db (ti_world s)) \<in> set (ti_past s) \<and>
     timely lag drv entry clk (ti_past s) (w_redis (ti_world s)) \<and>
     (\<forall>y \<in> set (ti_requests s). holds_read drv (ti_past s) (ti_now clk s) y)"

lemma timed_invD:
  assumes "timed_inv lag drv entry clk s"
  shows "wf_db (w_db (ti_world s))" and "(ti_now clk s, w_db (ti_world s)) \<in> set (ti_past s)"
    and "timely lag drv entry clk (ti_past s) (w_redis (ti_world s))"
    and "y \<in> set (ti_requests s) \<Longrightarrow> holds_read drv (ti_past s) (ti_now clk s) y"
  using assms by (simp_all add: timed_inv_def)

lemma timelyD:
  assumes "timely lag drv entry clk past r"
  shows "entry r (TaskKey i) = Some (v, d) \<Longrightarrow> unmarshal_task v = Some t \<Longrightarrow>
      was past (d - TaskCacheTTL - lag) (clk r) (could_get drv i t)"
    and "entry r (UserTasksKey u) = Some (v, d) \<Longrightarrow> unmarshal_tasks v = Some ts \<Longrightarrow>
      was past (d - TaskCacheTTL - lag) (clk r) (could_list drv u ts)"
  using assms by (auto simp: timely_def)

lemma timely_passes:
  assumes "timely lag drv entry clk past r" and "passes entry clk r r'" and "set past \<subseteq> set past'"
  shows "timely lag drv entry clk past' r'"
  unfolding timely_def
  using assms(2,3) timelyD [OF assms(1)] was_mono [of past _ "clk r" _ past' _ "clk r'"]
  by (fastforce simp: passes_def)

lemma holds_read_mono:
  "holds_read drv past now y \<Longrightarrow> set past \<subseteq> set past' \<Longrightarrow> now \<le> now' \<Longrightarrow> holds_read drv past' now' y"
  using was_mono by (fastforce simp: holds_read_def split: request.splits prod.splits)

subsection \<open>Writes to the cache\<close>

lemma timely_task:
  assumes laws: "redis_ttl_laws C entry clk" and tm: "timely lag drv entry clk past r"
    and read: "holds_read drv past (clk r) (Caching_task i t, t0)" and lag: "clk r \<le> t0 + lag"
    and set: "TaskCache_Set C r (TaskKey i) (marshal_task t) = (e, r')"
  shows "timely lag drv entry clk past r'"
  unfolding timely_def
proof (intro conjI allI impI)
  note clk = TaskCache_Set_entry(1) [OF laws set]
  fix j v d t' assume e: "entry r' (TaskKey j) = Some (v, d)" and dec: "unmarshal_task v = Some t'"
  from TaskCache_Set_entry(2) [OF laws set e]
  consider "entry r (TaskKey j) = Some (v, d)"
    | "j = i" "marshal_task t = Inr v" "d = clk r + TaskCacheTTL" by auto
  then show "was past (d - TaskCacheTTL - lag) (clk r') (could_get drv j t')"
  proof cases
    case 1
    from timelyD(1) [OF tm 1 dec] show ?thesis by (simp add: clk)
  next
    case 2
    from read have "storable t" "was past t0 (clk r) (could_get drv i t)" by (simp_all add: holds_read_def)
    with 2 unmarshal_marshal_task [of t v] dec lag show ?thesis by (auto simp: clk intro: was_mono)
  qed
next
  fix u v d ts assume e: "entry r' (UserTasksKey u) = Some (v, d)" and dec: "unmarshal_tasks v = Some ts"
  from TaskCache_Set_entry(2) [OF laws set e] have "entry r (UserTasksKey u) = Some (v, d)" by simp
  from timelyD(2) [OF tm this dec]
  show "was past (d - TaskCacheTTL - lag) (clk r') (could_list drv u ts)"
    by (simp add: TaskCache_Set_entry(1) [OF laws set])
qed

lemma timely_tasks:
  assumes laws: "redis_ttl_laws C entry clk" and tm: "timely lag drv entry clk past r"
    and read: "holds_read drv past (clk r) (Caching_list u rows, t0)" and lag: "clk r \<le> t0 + lag"
    and set: "TaskCache_Set C r (UserTasksKey u) (marshal_tasks rows) = (e, r')"
  shows "timely lag drv entry clk past r'"
  unfolding timely_def
proof (intro conjI allI impI)
  fix j v d t assume e: "entry r' (TaskKey j) = Some (v, d)" and dec: "unmarshal_task v = Some t"
  from TaskCache_Set_entry(2) [OF laws set e] have "entry r (TaskKey j) = Some (v, d)" by simp
  from timelyD(1) [OF tm this dec]
  show "was past (d - TaskCacheTTL - lag) (clk r') (could_get drv j t)"
    by (simp add: TaskCache_Set_entry(1) [OF laws set])
next
  note clk = TaskCache_Set_entry(1) [OF laws set]
  fix u' v d ts assume e: "entry r' (UserTasksKey u') = Some (v, d)" and dec: "unmarshal_tasks v = Some ts"
  from TaskCache_Set_entry(2) [OF laws set e]
  consider "entry r (UserTasksKey u') = Some (v, d)"
    | "u' = u" "marshal_tasks rows = Inr v" "d = clk r + TaskCacheTTL" by auto
  then show "was past (d - TaskCacheTTL - lag) (clk r') (could_list drv u' ts)"
  proof cases
    case 1
    from timelyD(2) [OF tm 1 dec] show ?thesis by (simp add: clk)
  next
    case 2
    from read have "list_all storable rows" "was past t0 (clk r) (could_list drv u (appended (map Some rows)))"
      by (simp_all add: holds_read_def)
    with 2 unmarshal_marshal_tasks [of rows v] dec lag show ?thesis by (auto simp: clk intro: was_mono)
  qed
qed

subsection \<open>Every step keeps it\<close>

lemma stamp_simps [simp]: "ti_world (stamp clk s w rqs) = w" "ti_requests (stamp clk s w rqs) = rqs"
  "ti_past (stamp clk s w rqs) = ti_past s @ [(clk (w_redis w), w_db w)]"
  by (simp_all add: stamp_def)

lemma timely_same: "timely lag drv entry clk past r \<Longrightarrow> set past \<subseteq> set past' \<Longrightarrow> timely lag drv entry clk past' r"
  by (erule timely_passes) (simp_all add: passes_def)

lemma stamp_inv:
  assumes inv: "timed_inv lag drv entry clk s" and wf: "wf_db (w_db w)"
    and tm: "timely lag drv entry clk (ti_past s) (w_redis w)" and now: "ti_now clk s \<le> clk (w_redis w)"
    and rqs: "\<And>y. y \<in> set rqs \<Longrightarrow> y \<in> set (ti_requests s) \<or> holds_read drv (ti_past s) (clk (w_redis w)) y"
  shows "timed_inv lag drv entry clk (stamp clk s w rqs)"
proof -
  have sub: "set (ti_past s) \<subseteq> set (ti_past (stamp clk s w rqs))" by auto
  have "holds_read drv (ti_past (stamp clk s w rqs)) (clk (w_redis w)) y" if "y \<in> set rqs" for y
    using rqs [OF that] timed_invD(4) [OF inv] holds_read_mono [OF _ sub now]
      holds_read_mono [OF _ sub order_refl] by blast
  with wf timely_same [OF tm sub] show ?thesis by (simp add: timed_inv_def)
qed

lemma read_task_holds:
  assumes wf: "wf_db db" and past: "(now, db) \<in> set past"
    and got: "repo_GetByID (NewTaskRepository drv) q db i = Inr t"
  shows "holds_read drv past now (Caching_task i t, now)"
proof -
  have "storable t" by (rule row_fits_storable [OF task_at_fits [OF wf task_repo.get_ok [OF got]]])
  moreover have "could_get drv i t db"
    using got by (auto simp: could_get_def NewTaskRepository_def)
  ultimately show ?thesis using was_now [OF past] by (auto simp: holds_read_def)
qed

lemma read_list_holds:
  assumes wf: "wf_db db" and past: "(now, db) \<in> set past"
    and q: "order_ok q" and got: "repo_GetByUserID (NewTaskRepository drv) q db u = Inr rows"
  shows "holds_read drv past now (Caching_list u rows, now)"
proof -
  have "list_all storable rows"
    using task_repo.list_rows [OF wf q got] task_at_fits [OF wf] row_fits_storable
    by (fastforce simp: list_all_iff)
  moreover have "could_list drv u (appended (map Some rows)) db"
    using got q by (auto simp: could_list_def NewTaskRepository_def)
  ultimately show ?thesis using was_now [OF past] by (auto simp: holds_read_def)
qed

lemma request_step_timely:
  assumes laws: "redis_ttl_laws C entry clk" and inv: "timed_inv lag drv entry clk s"
    and read: "holds_read drv (ti_past s) (ti_now clk s) (x, t0)" and q: "order_ok (ph_query env)"
    and lag: "\<not> writes_cache x \<or> ti_now clk s \<le> t0 + lag"
    and run: "request_step (NewTaskRepository drv) (NewUserRepository drv) C B is_print env x (ti_world s) = (x', w')"
  shows "timely lag drv entry clk (ti_past s) (w_redis w') \<and> clk (w_redis w') = ti_now clk s \<and>
    holds_read drv (ti_past s) (ti_now clk s) (x', ti_now clk s)"
proof -
  note tm = timed_invD(3) [OF inv] and now = timed_invD(2) [OF inv] and wf = timed_invD(1) [OF inv]
  show ?thesis
  proof (cases x)
    case (Creating t)
    obtain x1 db1 where c: "create_txn (NewTaskRepository drv) (ph_create env) t (w_db (ti_world s)) = (x1, db1)"
      by fastforce
    from create_txn_cases [OF c] have "holds_read drv (ti_past s) (ti_now clk s) (x1, ti_now clk s)"
      by (auto simp: holds_read_def)
    with c Creating run tm show ?thesis by (auto simp: request_step_def)
  next
    case (Reading_task i)
    with run tm read_task_holds [OF wf now] show ?thesis
      by (auto simp: request_step_def holds_read_def [of _ _ _ "(Done, _)"] split: sum.splits)
  next
    case (Reading_list u)
    with run tm read_list_holds [OF wf now q] show ?thesis
      by (auto simp: request_step_def holds_read_def [of _ _ _ "(Done, _)"] split: sum.splits)
  next
    case (Caching_task i t)
    obtain e r' where set: "TaskCache_Set C (w_redis (ti_world s)) (TaskKey i) (marshal_task t) = (e, r')"
      by fastforce
    from lag Caching_task have "ti_now clk s \<le> t0 + lag" by (simp add: writes_cache_def)
    from timely_task [OF laws tm read [unfolded Caching_task] this set]
      TaskCache_Set_entry(1) [OF laws set] Caching_task run set
    show ?thesis by (auto simp: request_step_def holds_read_def)
  next
    case (Caching_list u rows)
    obtain e r' where set: "TaskCache_Set C (w_redis (ti_world s)) (UserTasksKey u) (marshal_tasks rows) = (e, r')"
      by fastforce
    from lag Caching_list have "ti_now clk s \<le> t0 + lag" by (simp add: writes_cache_def)
    from timely_tasks [OF laws tm read [unfolded Caching_list] this set]
      TaskCache_Set_entry(1) [OF laws set] Caching_list run set
    show ?thesis by (auto simp: request_step_def holds_read_def)
  qed (use run tm in \<open>auto simp: request_step_def holds_read_def look_up_user_def split: option.splits sum.splits\<close>)
qed

lemma timed_init_inv: "timed_init entry clk s \<Longrightarrow> timed_inv lag drv entry clk s"
  by (simp add: timed_init_def timed_inv_def timely_def)

lemma timed_step_inv:
  assumes "timed_step lag drv C entry clk is_print s s'" and laws: "redis_ttl_laws C entry clk"
    and inv: "timed_inv lag drv entry clk s"
  shows "timed_inv lag drv entry clk s'"
  using assms(1)
proof cases
  case (arrive x)
  have "holds_read drv (ti_past s) (ti_now clk s) (x, ti_now clk s)"
    using arrive(2) by (cases x) (auto simp: holds_read_def)
  with arrive(1) timed_invD(1,3) [OF inv] show ?thesis by (auto intro!: stamp_inv [OF inv])
next
  case (phase i x t0 env B x' w')
  have "(x, t0) \<in> set (ti_requests s)" using phase(2,3) by (metis nth_mem)
  from request_step_timely [OF laws inv timed_invD(4) [OF inv this] phase(4,5,6)]
    request_step_wf [OF timed_invD(1) [OF inv] phase(6)] phase(1)
  show ?thesis using set_update_subset_insert [of "ti_requests s" i] by (fastforce intro!: stamp_inv [OF inv])
next
  case (others db' msgs)
  with timed_invD(3) [OF inv] show ?thesis by (auto intro!: stamp_inv [OF inv])
next
  case (time r')
  with timely_passes [OF timed_invD(3) [OF inv] time(2)] timed_invD(1) [OF inv] show ?thesis
    by (auto simp: passes_def intro!: stamp_inv [OF inv])
qed

lemma timed_steps_inv:
  assumes "(timed_step lag drv C entry clk is_print)\<^sup>*\<^sup>* s0 s" and "redis_ttl_laws C entry clk"
    and "timed_init entry clk s0"
  shows "timed_inv lag drv entry clk s"
  using assms(1)
  by (induction rule: rtranclp_induct) (auto intro: timed_init_inv [OF assms(3)] timed_step_inv [OF _ assms(2)])

subsection \<open>Answers\<close>

lemma GetTask_answer_timely:
  assumes laws: "redis_ttl_laws C entry clk" and inv: "timed_inv lag drv entry clk s" and lag: "0 \<le> lag"
    and run: "TaskController_GetTask (NewTaskService (NewTaskRepository drv) C is_print env q) c
      (ti_world s) = (JSON 200 body, w')"
  shows "\<exists>i t. strconv_Atoi (ctx_param c ''id'') = Inr i \<and> body = task_json t \<and>
    was (ti_past s) (ti_now clk s - TaskCacheTTL - lag) (ti_now clk s) (could_get drv i t)"
proof -
  from run obtain i t w1 where i: "strconv_Atoi (ctx_param c ''id'') = Inr i" "body = task_json t"
    and g: "TaskService_GetTask (NewTaskRepository drv) C q i (ti_world s) = (Inr t, w1)"
    by (auto simp: TaskController_GetTask_def NewTaskService_def split: sum.splits if_splits prod.splits)
  have "was (ti_past s) (ti_now clk s - TaskCacheTTL - lag) (ti_now clk s) (could_get drv i t)"
  proof (cases "cached C unmarshal_task (w_redis (ti_world s)) (TaskKey i)")
    case (Some t')
    with g have "t' = t" by (simp add: TaskService_GetTask_def)
    with cached_entry [OF laws Some] obtain v d where e:
      "entry (w_redis (ti_world s)) (TaskKey i) = Some (v, d)" "ti_now clk s < d" "unmarshal_task v = Some t"
      by blast
    show ?thesis
      by (rule was_mono [OF timelyD(1) [OF timed_invD(3) [OF inv] e(1,3)]]) (use e(2) in auto)
  next
    case None
    with g have "TaskRepository_GetByID drv q (w_db (ti_world s)) i = Inr t"
      by (auto simp: TaskService_GetTask_def NewTaskRepository_def split: sum.splits)
    with timed_invD(2) [OF inv] lag show ?thesis
      by (intro was_now) (auto simp: could_get_def TaskCacheTTL_def)
  qed
  with i show ?thesis by blast
qed

lemma list_answer_timely:
  assumes laws: "redis_ttl_laws C entry clk" and inv: "timed_inv lag drv entry clk s" and lag: "0 \<le> lag"
    and q: "order_ok q"
    and run: "TaskController_GetTasksByUser (NewTaskService (NewTaskRepository drv) C is_print env q) c
      (ti_world s) = (JSON 200 body, w')"
  shows "\<exists>u ts. GetUserIDFromContext c = Inr u \<and>
    body = [(''tasks'', RTasks ts), (''count'', RInt (int (length (slice_elems ts))))] \<and>
    was (ti_past s) (ti_now clk s - TaskCacheTTL - lag) (ti_now clk s) (could_list drv u ts)"
proof -
  from run obtain u ts w1 where u: "GetUserIDFromContext c = Inr u"
      "body = [(''tasks'', RTasks ts), (''count'', RInt (int (length (slice_elems ts))))]"
    and g: "TaskService_GetTasks (NewTaskRepository drv) C q u (ti_world s) = (Inr ts, w1)"
    by (auto simp: TaskController_GetTasksByUser_def NewTaskService_def split: sum.splits prod.splits)
  have "was (ti_past s) (ti_now clk s - TaskCacheTTL - lag) (ti_now clk s) (could_list drv u ts)"
  proof (cases "cached C unmarshal_tasks (w_redis (ti_world s)) (UserTasksKey u)")
    case (Some ts')
    with g have "ts' = ts" by (simp add: TaskService_GetTasks_def)
    with cached_entry [OF laws Some] obtain v d where e:
      "entry (w_redis (ti_world s)) (UserTasksKey u) = Some (v, d)" "ti_now clk s < d"
      "unmarshal_tasks v = Some ts" by blast
    show ?thesis
      by (rule was_mono [OF timelyD(2) [OF timed_invD(3) [OF inv] e(1,3)]]) (use e(2) in auto)
  next
    case None
    with g obtain rows where "TaskRepository_GetByUserID drv q (w_db (ti_world s)) u = Inr rows"
      "ts = appended (map Some rows)"
      by (auto simp: TaskService_GetTasks_def NewTaskRepository_def split: sum.splits)
    with timed_invD(2) [OF inv] lag q show ?thesis
      by (intro was_now) (auto simp: could_list_def TaskCacheTTL_def)
  qed
  with u show ?thesis by blast
qed

subsection \<open>The bound\<close>

lemma could_get_row: "could_get drv i t db \<Longrightarrow> task_at db i = Some t"
  unfolding could_get_def using task_repo.get_ok by (fastforce simp: NewTaskRepository_def)

text \<open>
  C29: No answer is older than an hour and the time a request takes from its query to its write
  of the cache. In every run with time, in which phases of any requests interleave and other
  processes change the database in any way, a task shown by GET /tasks/:id is the row with
  that id as it was at some instant of that past, and a listing shown by GET /users/tasks is
  what a query for the tasks of the user could have answered at some instant of it.
\<close>

theorem answers_at_most_an_hour_old:
  assumes "redis_ttl_laws C entry clk" and "timed_init entry clk s0" and "0 \<le> lag"
    and "(timed_step lag drv C entry clk is_print)\<^sup>*\<^sup>* s0 s" and "order_ok q"
    and "oldest = ti_now clk s - 3600 * 1000000000 - lag"
  shows "(\<forall>body w'. TaskController_GetTask (NewTaskService (NewTaskRepository drv) C is_print env q) c
        (ti_world s) = (JSON 200 body, w') \<longrightarrow>
      (\<exists>i t. strconv_Atoi (ctx_param c ''id'') = Inr i \<and> body = task_json t \<and>
        was (ti_past s) oldest (ti_now clk s) (\<lambda>db. task_at db i = Some t))) \<and>
    (\<forall>body w'. TaskController_GetTasksByUser (NewTaskService (NewTaskRepository drv) C is_print env q) c
        (ti_world s) = (JSON 200 body, w') \<longrightarrow>
      (\<exists>u ts. GetUserIDFromContext c = Inr u \<and>
        body = [(''tasks'', RTasks ts), (''count'', RInt (int (length (slice_elems ts))))] \<and>
        was (ti_past s) oldest (ti_now clk s) (could_list drv u ts)))"
proof -
  note inv = timed_steps_inv [OF assms(4,1,2)]
  have row: "was past a b (could_get drv i t) \<Longrightarrow> was past a b (\<lambda>db. task_at db i = Some t)" for past a b i t
    unfolding was_def using could_get_row by blast
  have old: "oldest = ti_now clk s - TaskCacheTTL - lag" by (simp add: assms(6) TaskCacheTTL_def)
  show ?thesis
    using GetTask_answer_timely [OF assms(1) inv assms(3)] list_answer_timely [OF assms(1) inv assms(3,5)] row
    unfolding old by blast
qed

subsection \<open>An example\<close>

text \<open>A Redis with deadlines: the time and the entries.\<close>

type_synonym ttl_state = "int \<times> (string \<rightharpoonup> string \<times> int)"

definition ttl_redis :: "ttl_state redis_client" where
  "ttl_redis = \<lparr>redis_Get = (\<lambda>(now, m) k. case m k of None \<Rightarrow> Redis_nil
       | Some (v, d) \<Rightarrow> if now < d then Redis_value v else Redis_nil),
     redis_Set = (\<lambda>(now, m) k v ttl. (None, (now, m(k \<mapsto> (v, now + ttl)))))\<rparr>"

lemma ttl_redis_laws: "redis_ttl_laws ttl_redis snd fst"
  by (auto simp: redis_ttl_laws_def ttl_redis_def split: option.splits if_splits)

text \<open>
  A task is read when it is pending, then its row becomes SUCCESS, and ten minutes later the
  task is read again.
\<close>

abbreviation ttl_service :: "ttl_state svc_world task_service" where
  "ttl_service \<equiv> NewTaskService (NewTaskRepository plain_driver) ttl_redis
     (\<lambda>_. True) (plain_create_env 9 8) plain_query"

abbreviation ttl_step :: "ttl_state timed \<Rightarrow> ttl_state timed \<Rightarrow> bool" where
  "ttl_step \<equiv> timed_step 0 plain_driver ttl_redis snd fst (\<lambda>_. True)"

definition done_db :: database where
  "done_db = \<lparr>tasks_tbl = [example_task\<lparr>Status := ''SUCCESS''\<rparr>], users_tbl = []\<rparr>"

definition ttl_state_at :: "database \<Rightarrow> ttl_state \<Rightarrow> request list \<Rightarrow> (int \<times> database) list \<Rightarrow> ttl_state timed" where
  "ttl_state_at db r xs past = \<lparr>ti_world = \<lparr>w_db = db, w_redis = r, w_published = []\<rparr>,
     ti_requests = map (\<lambda>x. (x, 0)) xs, ti_past = past\<rparr>"

definition ttl_start :: "ttl_state timed" where
  "ttl_start = ttl_state_at example_db (0, Map.empty) [] [(0, example_db)]"

definition ttl_later :: "ttl_state timed" where
  "ttl_later = ttl_state_at done_db (600 * 1000000000, [TaskKey 7 \<mapsto> (example_json, 3600 * 1000000000)]) [Done]
     (replicate 5 (0, example_db) @ [(0, done_db), (600 * 1000000000, done_db)])"

lemma ttl_start_init: "timed_init snd fst ttl_start"
  by (simp add: timed_init_def ttl_start_def ttl_state_at_def wf_db_def example_db_def example_fits)

lemma ttl_phase:
  assumes "request_step (NewTaskRepository plain_driver) (NewUserRepository plain_driver) ttl_redis undefined
      (\<lambda>_. True) \<lparr>ph_create = undefined, ph_query = plain_query, ph_user = undefined\<rparr> x
      \<lparr>w_db = example_db, w_redis = (0, m), w_published = []\<rparr>
    = (x', \<lparr>w_db = example_db, w_redis = (0, m'), w_published = []\<rparr>)"
  shows "ttl_step (ttl_state_at example_db (0, m) [x] past)
    (ttl_state_at example_db (0, m') [x'] (past @ [(0, example_db)]))"
  using timed_step.phase [of 0 "ttl_state_at example_db (0, m) [x] past" x 0
      "\<lparr>ph_create = undefined, ph_query = plain_query, ph_user = undefined\<rparr>" fst 0 plain_driver ttl_redis
      undefined "\<lambda>_. True" x' "\<lparr>w_db = example_db, w_redis = (0, m'), w_published = []\<rparr>" snd] assms
  by (simp add: ttl_state_at_def stamp_def order_ok_plain)

lemmas request_defs = request_step_def cached_def TaskCache_Get_def TaskCache_Set_def TaskCacheTTL_def
  ttl_redis_def NewTaskRepository_def TaskRepository_GetByID_def plain_query_def int4_ok_def

lemma ttl_steps: "ttl_step\<^sup>*\<^sup>* ttl_start ttl_later"
proof -
  let ?m = "[TaskKey 7 \<mapsto> (example_json, 3600 * 1000000000)]" and ?e = "(0, example_db)"
  have "ttl_step ttl_start (ttl_state_at example_db (0, Map.empty) [Looking_task 7] [?e, ?e])"
    using timed_step.arrive [of "Looking_task 7" 0 plain_driver ttl_redis snd fst "\<lambda>_. True" ttl_start]
    by (simp add: ttl_start_def ttl_state_at_def stamp_def arrives.intros)
  moreover have "ttl_step (ttl_state_at example_db (0, Map.empty) [Looking_task 7] [?e, ?e])
      (ttl_state_at example_db (0, Map.empty) [Reading_task 7] [?e, ?e, ?e])"
    using ttl_phase [of "Looking_task 7" Map.empty "Reading_task 7" Map.empty "[?e, ?e]"]
    by (simp add: request_defs)
  moreover have "ttl_step (ttl_state_at example_db (0, Map.empty) [Reading_task 7] [?e, ?e, ?e])
      (ttl_state_at example_db (0, Map.empty) [Caching_task 7 example_task] [?e, ?e, ?e, ?e])"
    using ttl_phase [of "Reading_task 7" Map.empty "Caching_task 7 example_task" Map.empty "[?e, ?e, ?e]"]
    by (simp add: request_defs example_at)
  moreover have "ttl_step (ttl_state_at example_db (0, Map.empty) [Caching_task 7 example_task] [?e, ?e, ?e, ?e])
      (ttl_state_at example_db (0, ?m) [Done] [?e, ?e, ?e, ?e, ?e])"
    using ttl_phase [of "Caching_task 7 example_task" Map.empty Done ?m "[?e, ?e, ?e, ?e]"]
    by (simp add: request_defs example_marshal)
  moreover have "row_fits (example_task\<lparr>Status := ''SUCCESS''\<rparr>)"
    using example_fits by (simp add: row_fits_def rune_count_def is_continuation_def)
  then have "wf_db done_db" by (simp add: wf_db_def done_db_def)
  from timed_step.others [OF this, of 0 plain_driver ttl_redis snd fst "\<lambda>_. True"
      "ttl_state_at example_db (0, ?m) [Done] [?e, ?e, ?e, ?e, ?e]" "[]"]
  have "ttl_step (ttl_state_at example_db (0, ?m) [Done] [?e, ?e, ?e, ?e, ?e])
      (ttl_state_at done_db (0, ?m) [Done] [?e, ?e, ?e, ?e, ?e, (0, done_db)])"
    by (simp add: ttl_state_at_def stamp_def)
  moreover have "ttl_step (ttl_state_at done_db (0, ?m) [Done] [?e, ?e, ?e, ?e, ?e, (0, done_db)]) ttl_later"
    using timed_step.time [of snd fst "ttl_state_at done_db (0, ?m) [Done] [?e, ?e, ?e, ?e, ?e, (0, done_db)]"
        "(600 * 1000000000, ?m)" 0 plain_driver ttl_redis "\<lambda>_. True"]
    by (simp add: ttl_state_at_def ttl_later_def stamp_def passes_def eval_nat_numeral)
  ultimately show ?thesis by (meson converse_rtranclp_into_rtranclp rtranclp.rtrancl_refl)
qed

lemma ttl_get_later: "TaskController_GetTask ttl_service example_ctx (ti_world ttl_later) =
    (JSON 200 (task_json example_task), ti_world ttl_later)"
  using example_user example_param unmarshal_marshal_task [OF row_fits_storable [OF example_fits] example_marshal(1)]
  by (simp add: TaskController_GetTask_def NewTaskService_def TaskService_GetTask_def cached_def
      TaskCache_Get_def ttl_redis_def ttl_later_def ttl_state_at_def
      example_task_def [THEN arg_cong [of _ _ UserID]])

theorem answers_at_most_an_hour_old_witness:
  "task_at (w_db (ti_world ttl_later)) 7 = Some (example_task\<lparr>Status := ''SUCCESS''\<rparr>) \<and>
   fst (TaskController_GetTask ttl_service example_ctx (ti_world ttl_later)) = JSON 200 (task_json example_task) \<and>
   was (ti_past ttl_later) (600 * 1000000000 - 3600 * 1000000000) (600 * 1000000000)
     (\<lambda>db. task_at db 7 = Some example_task)"
proof -
  have now: "ti_now fst ttl_later = 600 * 1000000000" by (simp add: ttl_later_def ttl_state_at_def)
  from answers_at_most_an_hour_old [OF ttl_redis_laws ttl_start_init order_refl ttl_steps order_ok_plain refl]
    ttl_get_later
  obtain i t where "strconv_Atoi (ctx_param example_ctx ''id'') = Inr i" "task_json example_task = task_json t"
    "was (ti_past ttl_later) (ti_now fst ttl_later - 3600 * 1000000000 - 0) (ti_now fst ttl_later)
       (\<lambda>db. task_at db i = Some t)" by blast
  with example_param task_json_inject have
    "was (ti_past ttl_later) (600 * 1000000000 - 3600 * 1000000000) (600 * 1000000000)
       (\<lambda>db. task_at db 7 = Some example_task)" unfolding now by fastforce
  then show ?thesis
    using ttl_get_later by (simp add: ttl_later_def ttl_state_at_def done_db_def task_at_def example_task_def)
qed

end
