(* ===== verification/Json_Properties.thy ===== *)
theory Json_Properties
  imports Task_Properties
begin

section \<open>Properties of the JSON texts the program writes and reads\<close>

text \<open>What the cache stores comes back unchanged.\<close>

text \<open>
  C7: What the cache stores comes back unchanged. For all rows the tasks table can hold, whatever
  their times, there is a JSON text of a listing, and of a single task, exactly when every time
  in it is, in its own zone, in the years 0 to 9999 and the zone less than a day from UTC. That
  text is what is handed to Redis, and it is read back as exactly the tasks, in order, without a
  nil pointer, the nil slice as nil; when there is none, Set returns the error and leaves Redis
  alone.
\<close>

theorem cached_tasks_roundtrip:
  assumes "list_all row_fits ts"
  shows "(case marshal_tasks ts of
       Inr s \<Rightarrow> list_all task_writable ts \<and> unmarshal_tasks s = Some (appended (map Some ts)) \<and>
         TaskCache_Set C r key (marshal_tasks ts) = redis_Set C r key s TaskCacheTTL
     | Inl e \<Rightarrow> \<not> list_all task_writable ts \<and> TaskCache_Set C r key (marshal_tasks ts) = (Some e, r)) \<and>
    list_all (\<lambda>t. case marshal_task t of
       Inr s \<Rightarrow> task_writable t \<and> unmarshal_task s = Some t \<and>
         TaskCache_Set C r key (marshal_task t) = redis_Set C r key s TaskCacheTTL
     | Inl e \<Rightarrow> \<not> task_writable t \<and> TaskCache_Set C r key (marshal_task t) = (Some e, r)) ts"
  (is "?slice \<and> list_all ?single ts")
proof
  have storable: "list_all storable ts"
    using assms row_fits_storable by (simp add: list_all_iff)
  have ok: "isl (marshal_tasks ts) \<longleftrightarrow> \<not> list_all task_writable ts"
    by (auto simp: marshal_tasks_ok marshal_task_ok list_ex_iff list_all_iff)
  show ?slice
    using ok unmarshal_marshal_tasks [OF storable]
    by (cases "marshal_tasks ts") (auto simp: TaskCache_Set_def)
  have "?single t" if "storable t" for t
    using unmarshal_marshal_task [OF that] marshal_task_ok [of t]
    by (cases "marshal_task t") (auto simp: TaskCache_Set_def)
  with storable show "list_all ?single ts" by (simp add: list_all_iff)
qed

text \<open>A time in a zone that can be read but not written again.\<close>

definition far_task :: task where
  "far_task = example_task\<lparr>UpdatedAt := Time 5 (24 * 60)\<rparr>"

theorem cached_tasks_roundtrip_witness:
  "unmarshal_tasks example_list_json = Some (Some [Some example_task]) \<and>
   unmarshal_task example_json = Some example_task \<and>
   fst (TaskCache_Set map_redis Map.empty (TaskKey 7) (marshal_task far_task)) \<noteq> None"
proof -
  have "row_fits far_task" using example_fits by (simp add: far_task_def row_fits_def)
  then have far: "list_all row_fits [far_task]" by simp
  have "\<not> task_writable far_task" by (simp add: task_writable_def writable_def far_task_def)
  with cached_tasks_roundtrip [OF far, of map_redis Map.empty "TaskKey 7"]
  have "fst (TaskCache_Set map_redis Map.empty (TaskKey 7) (marshal_task far_task)) \<noteq> None"
    by (auto split: sum.splits)
  with cached_tasks_roundtrip [of "[example_task]" map_redis Map.empty "TaskKey 7"] show ?thesis by (simp add: example_fits example_marshal)
qed

end
