(* ===== verification/Rate_Limiter_Lemmas.thy ===== *)
theory Rate_Limiter_Lemmas
  imports Rate_Limiter
begin

section \<open>What the rate limiter guarantees\<close>

text \<open>
  Facts about the script for any rounding that satisfies the locale \<open>rounding\<close>: the bucket
  stays between 0 and its capacity, a window of time lets through at most the capacity and
  what the rate adds, expiry of the hash in Redis is not visible, and users do not affect
  each other. They are used at \<open>round_double\<close> through its interpretation.
\<close>

definition cfg_ok :: "RateLimiterConfig \<Rightarrow> bool" where
  "cfg_ok cfg \<longleftrightarrow> 1 \<le> Capacity cfg \<and> Capacity cfg \<le> 2 ^ 53 \<and> 0 < RefillRate cfg"

definition bucket_ok :: "RateLimiterConfig \<Rightarrow> bucket \<Rightarrow> bool" where
  "bucket_ok cfg b \<longleftrightarrow> 0 \<le> tokens b \<and> tokens b \<le> of_int (Capacity cfg)"

definition data_ok :: "RateLimiterConfig \<Rightarrow> bucket option \<Rightarrow> bool" where
  "data_ok cfg data \<longleftrightarrow> (\<forall>b. data = Some b \<longrightarrow> bucket_ok cfg b)"

lemma data_ok_simps [simp]: "data_ok cfg None" "data_ok cfg (Some b) = bucket_ok cfg b"
  by (simp_all add: data_ok_def)

text \<open>The script in two halves: the refill, and the check of what is there.\<close>

definition refill :: "(rat \<Rightarrow> rat) \<Rightarrow> RateLimiterConfig \<Rightarrow> int \<Rightarrow> bucket option \<Rightarrow> bucket" where
  "refill rnd cfg now data =
     (case data of
        None \<Rightarrow> \<lparr>tokens = of_int (Capacity cfg), last_refill = now\<rparr>
      | Some b \<Rightarrow>
          let delta = rnd (of_int (now - last_refill b)) in
          if 0 < delta
          then \<lparr>tokens = min (of_int (Capacity cfg)) (rnd (tokens b + rnd (delta * RefillRate cfg))),
                last_refill = now\<rparr>
          else b)"

definition take_token :: "(rat \<Rightarrow> rat) \<Rightarrow> bucket \<Rightarrow> int \<times> bucket" where
  "take_token rnd b = (if 1 \<le> tokens b then (1, b\<lparr>tokens := rnd (tokens b - 1)\<rparr>) else (0, b))"

primrec bucket_run ::
  "(rat \<Rightarrow> rat) \<Rightarrow> RateLimiterConfig \<Rightarrow> bucket option \<Rightarrow> int list \<Rightarrow> int list" where
  "bucket_run rnd cfg data [] = []"
| "bucket_run rnd cfg data (now # ts) =
     (case rate_limiter_lua rnd cfg now data of (a, b) \<Rightarrow> a # bucket_run rnd cfg (Some b) ts)"

text \<open>How many requests of a run with times between two bounds passed.\<close>

definition passed_within :: "int \<Rightarrow> int \<Rightarrow> (int \<times> int) list \<Rightarrow> int" where
  "passed_within lo hi run = (\<Sum>(t, a) \<leftarrow> run. if lo \<le> t \<and> t \<le> hi then a else 0)"

lemma passed_within_simps [simp]:
  "passed_within lo hi [] = 0"
  "passed_within lo hi ((t, a) # run) = (if lo \<le> t \<and> t \<le> hi then a else 0) + passed_within lo hi run"
  by (simp_all add: passed_within_def)

lemma passed_within_late: "\<forall>t \<in> set ts. hi < t \<Longrightarrow> passed_within lo hi (zip ts as) = 0"
proof (induction ts arbitrary: as)
  case Nil
  then show ?case by simp
next
  case (Cons t ts)
  then show ?case by (cases as) auto
qed

context rounding
begin

lemma lua_halves: "rate_limiter_lua rnd cfg now data = take_token rnd (refill rnd cfg now data)"
  by (auto simp: rate_limiter_lua_def refill_def take_token_def Let_def split: option.split)

lemma rnd_pos_int: "0 < rnd (of_int k) \<longleftrightarrow> 0 < k"
proof
  show "0 < rnd (of_int k) \<Longrightarrow> 0 < k"
    using rnd_le_int [of "of_int k" 0] by (cases "k \<le> 0") (auto simp: not_le)
  show "0 < k \<Longrightarrow> 0 < rnd (of_int k)"
    using rnd_ge_int [of 1 "of_int k"] by auto
qed

lemma refill_None: "refill rnd cfg now None = \<lparr>tokens = of_int (Capacity cfg), last_refill = now\<rparr>"
  by (simp add: refill_def)

lemma refill_Some:
  "refill rnd cfg now (Some b) =
     (if last_refill b < now
      then \<lparr>tokens = min (of_int (Capacity cfg))
              (rnd (tokens b + rnd (rnd (of_int (now - last_refill b)) * RefillRate cfg))),
            last_refill = now\<rparr>
      else b)"
  by (simp add: refill_def rnd_pos_int Let_def del: of_int_diff)

lemma refill_last:
  "last_refill (refill rnd cfg now data) =
     (case data of None \<Rightarrow> now | Some b \<Rightarrow> max now (last_refill b))"
  by (simp add: refill_None refill_Some split: option.split)

lemma refill_ok:
  assumes cfg: "cfg_ok cfg" and data: "data_ok cfg data"
  shows "bucket_ok cfg (refill rnd cfg now data)"
proof (cases data)
  case None
  with cfg show ?thesis by (simp add: refill_def bucket_ok_def cfg_ok_def)
next
  case (Some b)
  let ?d = "rnd (of_int (now - last_refill b))"
  have b: "0 \<le> tokens b" "tokens b \<le> of_int (Capacity cfg)"
    using Some data by (simp_all add: bucket_ok_def)
  have "0 \<le> rnd (tokens b + rnd (?d * RefillRate cfg))" if "0 < ?d"
    using that b cfg by (intro rnd_nonneg add_nonneg_nonneg) (auto simp: cfg_ok_def)
  then show ?thesis using b cfg
    by (auto simp: refill_def Some bucket_ok_def cfg_ok_def Let_def)
qed

lemma take_token_ok:
  assumes cfg: "cfg_ok cfg" and b: "bucket_ok cfg b" and run: "take_token rnd b = (a, b')"
  shows "bucket_ok cfg b'" "\<lceil>tokens b'\<rceil> + a \<le> \<lceil>tokens b\<rceil>" "last_refill b' = last_refill b"
    "0 \<le> a" "a \<le> 1"
proof -
  let ?c = "\<lceil>tokens b\<rceil>"
  have "tokens b \<le> of_int (Capacity cfg)" using b by (simp add: bucket_ok_def)
  then have c: "?c \<le> Capacity cfg" "?c \<le> 2 ^ 53"
    using cfg by (simp_all add: ceiling_le_iff cfg_ok_def)
  have up: "rnd (tokens b - 1) \<le> of_int (?c - 1)" if "1 \<le> tokens b"
  proof (rule rnd_le_int)
    show "tokens b - 1 \<le> of_int (?c - 1)" by simp
    have "1 \<le> ?c" using that by (simp add: one_le_ceiling)
    with c(2) show "\<bar>?c - 1\<bar> \<le> 2 ^ 53" by linarith
  qed
  have lo: "0 \<le> rnd (tokens b - 1)" if "1 \<le> tokens b"
    using that by (intro rnd_nonneg) simp
  from up have "\<lceil>rnd (tokens b - 1)\<rceil> \<le> ?c - 1" if "1 \<le> tokens b"
    using that by (simp only: ceiling_le_iff)
  then show "\<lceil>tokens b'\<rceil> + a \<le> ?c"
    using run by (fastforce simp: take_token_def split: if_splits)
  show "bucket_ok cfg b'"
  proof (cases "1 \<le> tokens b")
    case True
    have "of_int (?c - 1) \<le> (of_int (Capacity cfg) :: rat)" using c(1) by simp
    with up [OF True] lo [OF True] run True show ?thesis
      by (auto simp: take_token_def bucket_ok_def)
  next
    case False
    with run b show ?thesis by (auto simp: take_token_def)
  qed
qed (use run in \<open>auto simp: take_token_def split: if_splits\<close>)

text \<open>What a refill adds, measured in whole tokens.\<close>

lemma refill_adds:
  assumes cfg: "cfg_ok cfg" and b: "bucket_ok cfg b" and R: "RefillRate cfg \<le> of_int R"
    and small: "\<lceil>tokens b\<rceil> + R * max 0 (now - last_refill b) \<le> 2 ^ 53"
      "now - last_refill b \<le> 2 ^ 53"
  shows "\<lceil>tokens (refill rnd cfg now (Some b))\<rceil> \<le> \<lceil>tokens b\<rceil> + R * max 0 (now - last_refill b)"
proof (cases "0 < now - last_refill b")
  case False
  then show ?thesis by (simp add: refill_Some max_def)
next
  case True
  let ?d = "now - last_refill b" and ?c = "\<lceil>tokens b\<rceil>"
  have "(0 :: rat) < of_int R" using R cfg by (simp add: cfg_ok_def)
  then have Rpos: "0 < R" by simp
  have cpos: "0 \<le> ?c" using b by (simp add: bucket_ok_def ceiling_mono [of 0, simplified])
  have m: "max 0 ?d = ?d" using True by simp
  have dR: "0 \<le> R * ?d" using Rpos True by simp
  have le: "R * ?d \<le> 2 ^ 53" "0 \<le> ?c + R * ?d" "?c + R * ?d \<le> 2 ^ 53"
    using small(1) cpos dR unfolding m by linarith+
  have d: "rnd (of_int ?d) \<le> of_int ?d" "0 \<le> rnd (of_int ?d)"
    using True small(2) by (auto intro!: rnd_le_int rnd_nonneg simp del: of_int_diff)
  have "rnd (of_int ?d) * RefillRate cfg \<le> of_int ?d * of_int R"
    using d R True cfg by (intro mult_mono) (auto simp: cfg_ok_def)
  then have "rnd (of_int ?d) * RefillRate cfg \<le> of_int (R * ?d)"
    by (simp add: mult.commute)
  then have "rnd (rnd (of_int ?d) * RefillRate cfg) \<le> of_int (R * ?d)"
    using dR le by (intro rnd_le_int) (simp_all only: abs_of_nonneg)
  then have "tokens b + rnd (rnd (of_int ?d) * RefillRate cfg) \<le> of_int (?c + R * ?d)"
    using le_of_int_ceiling [of "tokens b"] by (simp only: of_int_add add_mono)
  then have "rnd (tokens b + rnd (rnd (of_int ?d) * RefillRate cfg)) \<le> of_int (?c + R * ?d)"
    using le by (intro rnd_le_int) (simp_all only: abs_of_nonneg)
  with True have "tokens (refill rnd cfg now (Some b)) \<le> of_int (?c + R * ?d)"
    by (simp add: refill_Some min_le_iff_disj del: of_int_diff of_int_add)
  with True show ?thesis by (simp add: ceiling_le_iff max_def)
qed

text \<open>One call of the script: invariant, clock and cost.\<close>

lemma lua_step:
  assumes cfg: "cfg_ok cfg" and data: "data_ok cfg data"
    and run: "rate_limiter_lua rnd cfg now data = (a, b')"
  shows lua_bucket: "bucket_ok cfg b'" and lua_reply: "0 \<le> a" "a \<le> 1"
    and lua_last: "last_refill b' = (case data of None \<Rightarrow> now | Some b \<Rightarrow> max now (last_refill b))"
    and lua_room: "\<lceil>tokens b'\<rceil> + a \<le> Capacity cfg"
    and lua_cost: "data = Some b \<Longrightarrow> RefillRate cfg \<le> of_int R \<Longrightarrow>
      \<lceil>tokens b\<rceil> + R * max 0 (now - last_refill b) \<le> 2 ^ 53 \<Longrightarrow> now - last_refill b \<le> 2 ^ 53 \<Longrightarrow>
      \<lceil>tokens b'\<rceil> + a \<le> \<lceil>tokens b\<rceil> + R * max 0 (now - last_refill b)"
proof -
  let ?r = "refill rnd cfg now data"
  have r: "bucket_ok cfg ?r" by (rule refill_ok [OF cfg data])
  note t = take_token_ok [OF cfg r run [unfolded lua_halves]]
  show "bucket_ok cfg b'" "0 \<le> a" "a \<le> 1" by (rule t)+
  show "last_refill b' = (case data of None \<Rightarrow> now | Some b \<Rightarrow> max now (last_refill b))"
    by (simp add: t(3) refill_last)
  have "\<lceil>tokens ?r\<rceil> \<le> Capacity cfg" using r by (simp add: bucket_ok_def ceiling_le_iff)
  with t(2) show "\<lceil>tokens b'\<rceil> + a \<le> Capacity cfg" by simp
  show "\<lceil>tokens b'\<rceil> + a \<le> \<lceil>tokens b\<rceil> + R * max 0 (now - last_refill b)"
    if "data = Some b" "RefillRate cfg \<le> of_int R"
      "\<lceil>tokens b\<rceil> + R * max 0 (now - last_refill b) \<le> 2 ^ 53" "now - last_refill b \<le> 2 ^ 53"
  proof -
    have "bucket_ok cfg b" using data that(1) by simp
    from refill_adds [OF cfg this that(2-4)] t(2) show ?thesis unfolding that(1) by linarith
  qed
qed

text \<open>From a bucket that is there: at most its tokens and what the rate adds until the end.\<close>

lemma run_from_bucket:
  assumes cfg: "cfg_ok cfg" and R: "RefillRate cfg \<le> of_int R"
  shows "bucket_ok cfg b \<Longrightarrow> sorted ts \<Longrightarrow>
    \<lceil>tokens b\<rceil> + R * max 0 (hi - last_refill b) \<le> 2 ^ 53 \<Longrightarrow> hi - last_refill b \<le> 2 ^ 53 \<Longrightarrow>
    passed_within lo hi (zip ts (bucket_run rnd cfg (Some b) ts))
      \<le> \<lceil>tokens b\<rceil> + R * max 0 (hi - last_refill b)"
proof (induction ts arbitrary: b)
  case Nil
  have "(0 :: rat) < of_int R" using R cfg by (simp add: cfg_ok_def)
  moreover have "0 \<le> \<lceil>tokens b\<rceil>" using Nil by (simp add: bucket_ok_def)
  ultimately show ?case by simp
next
  case (Cons t ts)
  have "(0 :: rat) < of_int R" using R cfg by (simp add: cfg_ok_def)
  then have Rpos: "0 < R" by simp
  have c0: "0 \<le> \<lceil>tokens b\<rceil>" using Cons.prems(1) by (simp add: bucket_ok_def)
  obtain a b' where run: "rate_limiter_lua rnd cfg t (Some b) = (a, b')" by fastforce
  have ok: "data_ok cfg (Some b)" using Cons.prems(1) by simp
  note step = lua_step [OF cfg ok run]
  show ?case
  proof (cases "t \<le> hi")
    case False
    then have "\<forall>x \<in> set (t # ts). hi < x" using Cons.prems(2) by auto
    then have "passed_within lo hi (zip (t # ts) (bucket_run rnd cfg (Some b) (t # ts))) = 0"
      by (rule passed_within_late)
    with c0 Rpos show ?thesis by simp
  next
    case True
    let ?l = "last_refill b" and ?l' = "last_refill b'"
    have l': "?l' = max t ?l" using step(4) by simp
    have split: "max 0 (t - ?l) + max 0 (hi - ?l') = max 0 (hi - ?l)" using True l' by linarith
    then have eq: "R * max 0 (hi - ?l) = R * max 0 (t - ?l) + R * max 0 (hi - ?l')"
      by (simp add: distrib_left [symmetric])
    have nn: "0 \<le> R * max 0 (hi - ?l')" "0 \<le> R * max 0 (t - ?l)" using Rpos by simp_all
    have le: "\<lceil>tokens b\<rceil> + R * max 0 (t - ?l) \<le> 2 ^ 53" "t - ?l \<le> 2 ^ 53"
      using Cons.prems(3,4) True eq nn by linarith+
    have cost: "\<lceil>tokens b'\<rceil> + a \<le> \<lceil>tokens b\<rceil> + R * max 0 (t - ?l)"
      by (rule step(6) [OF refl R le])
    have "\<lceil>tokens b'\<rceil> + R * max 0 (hi - ?l') \<le> 2 ^ 53" "hi - ?l' \<le> 2 ^ 53"
      using cost eq Cons.prems(3,4) step(2) l' by linarith+
    with Cons.IH [OF step(1)] Cons.prems(2)
    have "passed_within lo hi (zip ts (bucket_run rnd cfg (Some b') ts))
        \<le> \<lceil>tokens b'\<rceil> + R * max 0 (hi - ?l')" by simp
    with cost eq step(2,3) show ?thesis by (simp add: run)
  qed
qed

text \<open>
  A window, whatever came before: at most the capacity and what the rate adds within it.
\<close>

lemma run_window:
  assumes cfg: "cfg_ok cfg" and R: "RefillRate cfg \<le> of_int R" and lohi: "lo \<le> hi"
    and small: "Capacity cfg + R * (hi - lo) \<le> 2 ^ 53" 
  shows "data_ok cfg data \<Longrightarrow> sorted ts \<Longrightarrow>
    passed_within lo hi (zip ts (bucket_run rnd cfg data ts)) \<le> Capacity cfg + R * (hi - lo)"
proof (induction ts arbitrary: data)
  case Nil
  have "(0 :: rat) < of_int R" using R cfg by (simp add: cfg_ok_def)
  with lohi cfg show ?case by (simp add: cfg_ok_def)
next
  case (Cons t ts)
  have "(0 :: rat) < of_int R" using R cfg by (simp add: cfg_ok_def)
  then have Rpos: "1 \<le> R" by simp
  obtain a b' where run: "rate_limiter_lua rnd cfg t data = (a, b')" by fastforce
  note step = lua_step [OF cfg Cons.prems(1) run]
  show ?case
  proof (cases "lo \<le> t")
    case False
    with Cons.IH [of "Some b'"] Cons.prems(2) step(1) show ?thesis by (simp add: run)
  next
    case True
    have l': "t \<le> last_refill b'" using step(4) by (simp split: option.splits)
    have "max 0 (hi - last_refill b') \<le> hi - lo" using l' True lohi by linarith
    with Rpos have m: "R * max 0 (hi - last_refill b') \<le> R * (hi - lo)" by simp
    have "hi - lo \<le> R * (hi - lo)" using Rpos lohi by (simp add: mult_le_cancel_right1)
    with small cfg l' True have "hi - last_refill b' \<le> 2 ^ 53" by (simp add: cfg_ok_def)
    moreover have "\<lceil>tokens b'\<rceil> + R * max 0 (hi - last_refill b') \<le> 2 ^ 53"
      using small m step(2,5) by linarith
    ultimately have "passed_within lo hi (zip ts (bucket_run rnd cfg (Some b') ts))
        \<le> \<lceil>tokens b'\<rceil> + R * max 0 (hi - last_refill b')"
      using run_from_bucket [OF cfg R step(1)] Cons.prems(2) by simp
    with m step(2,3,5) show ?thesis by (simp add: run)
  qed
qed

end

end
