(* ===== verification/Rate_Limiter_Run.thy ===== *)
theory Rate_Limiter_Run
  imports Rate_Limiter_Lemmas
begin

section \<open>Runs of the rate limiter on Redis\<close>

text \<open>
  Sequences of requests of several users through the middleware, with a Redis that expires
  the hashes, against one bucket per user that never expires. The clocks of the API process
  and of Redis are taken to agree; a request is a user and a time in milliseconds.
\<close>

definition limiter_env_at :: "int \<Rightarrow> limiter_env" where
  "limiter_env_at t = \<lparr>le_now = t div 1000, le_server_time = t, le_eval = Eval_ok\<rparr>"

fun limiter_run ::
  "(rat \<Rightarrow> rat) \<Rightarrow> 'r redis_hash \<Rightarrow> RateLimiterConfig \<Rightarrow> gin_ctx \<Rightarrow> (int \<times> int) list \<Rightarrow> 'r \<Rightarrow>
     handled list" where
  "limiter_run rnd H cfg c [] r = []"
| "limiter_run rnd H cfg c ((u, t) # reqs) r =
     (case RateLimiterMiddleware rnd H (limiter_env_at t) cfg (set_key UserIDKey (AnyInt u) c) r of
        (x, r') \<Rightarrow> x # limiter_run rnd H cfg c reqs r')"

definition passed :: "handled \<Rightarrow> int" where
  "passed x = (case x of Next _ \<Rightarrow> 1 | _ \<Rightarrow> 0)"

text \<open>The requests of one user in a run, each with its second and whether it passed.\<close>

definition user_view :: "int \<Rightarrow> (int \<times> int) list \<Rightarrow> handled list \<Rightarrow> (int \<times> int) list" where
  "user_view u reqs xs =
     map (\<lambda>((v, t), x). (t div 1000, passed x)) (filter (\<lambda>((v, t), x). v = u) (zip reqs xs))"

definition user_seconds :: "int \<Rightarrow> (int \<times> int) list \<Rightarrow> int list" where
  "user_seconds u reqs = map (\<lambda>(v, t). t div 1000) (filter (\<lambda>(v, t). v = u) reqs)"

lemma user_view_simps [simp]:
  "user_view u [] xs = []"
  "user_view u ((v, t) # reqs) (x # xs) =
     (if v = u then (t div 1000, passed x) # user_view u reqs xs else user_view u reqs xs)"
  by (simp_all add: user_view_def)

lemma user_seconds_simps [simp]:
  "user_seconds u [] = []"
  "user_seconds u ((v, t) # reqs) = (if v = u then t div 1000 # user_seconds u reqs else user_seconds u reqs)"
  by (simp_all add: user_seconds_def)

lemma sorted_user_seconds: "sorted (map snd reqs) \<Longrightarrow> sorted (user_seconds u reqs)"
proof (induction reqs)
  case Nil
  then show ?case by simp
next
  case (Cons r reqs)
  have "\<forall>s \<in> set (user_seconds u reqs). snd r div 1000 \<le> s"
    using Cons.prems by (auto simp: user_seconds_def intro!: zdiv_mono1)
  with Cons show ?case by (cases r) auto
qed

text \<open>The hash lives long enough for the bucket to be full again when it goes.\<close>

definition ttl_covers :: "(rat \<Rightarrow> rat) \<Rightarrow> RateLimiterConfig \<Rightarrow> bool" where
  "ttl_covers rnd cfg \<longleftrightarrow>
     (case script_ttl rnd cfg of None \<Rightarrow> False
      | Some d \<Rightarrow> 0 < d \<and> d \<le> 2 ^ 53 \<and> of_int (Capacity cfg) \<le> rnd (of_int d * RefillRate cfg))"

lemma presets_ok: "list_all cfg_ok presets"
  by code_simp

lemma presets_covered: "list_all (ttl_covers round_double) presets"
  by code_simp

text \<open>
  The simulation: at any later time Redis has a user's bucket, or has lost it at a time when
  it is full again.
\<close>

definition tracks ::
  "'r redis_hash \<Rightarrow> RateLimiterConfig \<Rightarrow> int \<Rightarrow> int \<Rightarrow> 'r \<Rightarrow> (int \<Rightarrow> bucket option) \<Rightarrow> bool" where
  "tracks H cfg d T r m \<longleftrightarrow>
     (\<forall>u t. T \<le> t \<longrightarrow> hash_get H r t (UserRateLimiterKey u) = m u \<or>
        hash_get H r t (UserRateLimiterKey u) = None \<and>
        (\<exists>b. m u = Some b \<and> last_refill b + d \<le> t div 1000)) \<and>
     (\<forall>u b. m u = Some b \<longrightarrow> bucket_ok cfg b \<and> last_refill b \<le> T div 1000)"

definition empty_hash :: "'r redis_hash \<Rightarrow> int \<Rightarrow> 'r \<Rightarrow> bool" where
  "empty_hash H T r \<longleftrightarrow> (\<forall>u t. T \<le> t \<longrightarrow> hash_get H r t (UserRateLimiterKey u) = None)"

lemma tracks_empty: "empty_hash H T r \<Longrightarrow> tracks H cfg d T r (\<lambda>_. None)"
  by (simp add: tracks_def empty_hash_def)

lemma redis_hashD:
  assumes "redis_hash_laws H" and "0 < d" and "t \<le> t'"
  shows "k' \<noteq> k \<Longrightarrow> hash_get H (hash_expire H (hash_set H r t k b) t k d) t' k' = hash_get H r t' k'"
    and "hash_get H (hash_expire H (hash_set H r t k b) t k d) t' k = Some b \<or>
      hash_get H (hash_expire H (hash_set H r t k b) t k d) t' k = None \<and> t + d * 1000 \<le> t'"
  using assms unfolding redis_hash_laws_def Let_def by (metis linorder_not_less)+

context rounding
begin

text \<open>A bucket that has been idle as long as its time to live is full.\<close>

lemma lua_idle:
  assumes cfg: "cfg_ok cfg" and ttl: "ttl_covers rnd cfg" "script_ttl rnd cfg = Some d"
    and b: "bucket_ok cfg b" and idle: "last_refill b + d \<le> now"
  shows "rate_limiter_lua rnd cfg now (Some b) = rate_limiter_lua rnd cfg now None"
proof -
  have d: "0 < d" "d \<le> 2 ^ 53" "of_int (Capacity cfg) \<le> rnd (of_int d * RefillRate cfg)"
    using ttl by (simp_all add: ttl_covers_def)
  let ?e = "rnd (of_int (now - last_refill b))"
  have "of_int d \<le> ?e" using idle d by (intro rnd_ge_int) (simp_all del: of_int_diff)
  then have "rnd (of_int d * RefillRate cfg) \<le> rnd (?e * RefillRate cfg)"
    using cfg by (intro rnd_mono mult_right_mono) (simp_all add: cfg_ok_def)
  with d(3) b have "of_int (Capacity cfg) \<le> tokens b + rnd (?e * RefillRate cfg)"
    by (simp add: bucket_ok_def)
  then have "of_int (Capacity cfg) \<le> rnd (tokens b + rnd (?e * RefillRate cfg))"
    using cfg by (intro rnd_ge_int) (simp_all add: cfg_ok_def)
  then have "refill rnd cfg now (Some b) = refill rnd cfg now None"
    using idle d(1) by (simp add: refill_Some refill_None del: of_int_diff)
  then show ?thesis by (simp add: lua_halves)
qed

lemma middleware_eq:
  assumes "script_ttl rnd cfg = Some d"
    and "rate_limiter_lua rnd cfg (t div 1000) (hash_get H r t (UserRateLimiterKey u)) = (a, b)"
  shows "RateLimiterMiddleware rnd H (limiter_env_at t) cfg (set_key UserIDKey (AnyInt u) c) r =
    (if a = 0 then limited_response rnd cfg else Next (set_key UserIDKey (AnyInt u) c),
     hash_expire H (hash_set H r t (UserRateLimiterKey u) b) t (UserRateLimiterKey u) d)"
  using assms
  by (simp add: RateLimiterMiddleware_def eval_script_def set_key_def limiter_env_at_def)

lemma tracks_step:
  assumes laws: "redis_hash_laws H" and cfg: "cfg_ok cfg"
    and ttl: "ttl_covers rnd cfg" "script_ttl rnd cfg = Some d"
    and tr: "tracks H cfg d T r m" and t: "T \<le> t"
    and run: "rate_limiter_lua rnd cfg (t div 1000) (m u) = (a, b)"
  shows "rate_limiter_lua rnd cfg (t div 1000) (hash_get H r t (UserRateLimiterKey u)) = (a, b)"
    "tracks H cfg d t (hash_expire H (hash_set H r t (UserRateLimiterKey u) b) t
       (UserRateLimiterKey u) d) (m(u \<mapsto> b))"
proof -
  have d: "0 < d" using ttl by (simp add: ttl_covers_def)
  have mono: "T div 1000 \<le> t div 1000" using t by (rule zdiv_mono1) simp
  have old: "bucket_ok cfg x \<and> last_refill x \<le> t div 1000" if "m v = Some x" for v x
    using tr that mono unfolding tracks_def by fastforce
  then have data: "data_ok cfg (m u)" by (simp add: data_ok_def)
  from tr t consider "hash_get H r t (UserRateLimiterKey u) = m u"
    | x where "hash_get H r t (UserRateLimiterKey u) = None" "m u = Some x"
        "last_refill x + d \<le> t div 1000"
    unfolding tracks_def by blast
  then show "rate_limiter_lua rnd cfg (t div 1000) (hash_get H r t (UserRateLimiterKey u)) = (a, b)"
    by cases (use run lua_idle [OF cfg ttl] old in \<open>auto\<close>)
  note step = lua_step [OF cfg data run]
  have last: "last_refill b = t div 1000"
    using step(4) old [of u] by (auto split: option.splits)
  let ?r = "hash_expire H (hash_set H r t (UserRateLimiterKey u) b) t (UserRateLimiterKey u) d"
  show "tracks H cfg d t ?r (m(u \<mapsto> b))"
    unfolding tracks_def
  proof (intro conjI allI impI)
    fix v t' assume t': "t \<le> t'"
    show "hash_get H ?r t' (UserRateLimiterKey v) = (m(u \<mapsto> b)) v \<or>
        hash_get H ?r t' (UserRateLimiterKey v) = None \<and>
        (\<exists>x. (m(u \<mapsto> b)) v = Some x \<and> last_refill x + d \<le> t' div 1000)"
    proof (cases "v = u")
      case True
      have "t div 1000 + d \<le> t' div 1000" if "t + d * 1000 \<le> t'"
        using zdiv_mono1 [OF that, of 1000] by simp
      with redis_hashD(2) [OF laws d t', of r "UserRateLimiterKey u" b] True last
      show ?thesis by auto
    next
      case False
      with redis_hashD(1) [OF laws d t', of "UserRateLimiterKey v" "UserRateLimiterKey u" r b] tr t t'
      show ?thesis by (auto simp: tracks_def)
    qed
  next
    fix v x assume "(m(u \<mapsto> b)) v = Some x"
    then show "bucket_ok cfg x" "last_refill x \<le> t div 1000"
      using step(1) last old [of v] by (auto split: if_splits)
  qed
qed

text \<open>What a user sees of a run is what a bucket of his own would answer.\<close>

lemma run_tracks:
  assumes laws: "redis_hash_laws H" and cfg: "cfg_ok cfg"
    and ttl: "ttl_covers rnd cfg" "script_ttl rnd cfg = Some d"
  shows "tracks H cfg d T r m \<Longrightarrow> sorted (map snd reqs) \<Longrightarrow> \<forall>(v, t) \<in> set reqs. T \<le> t \<Longrightarrow>
    user_view u reqs (limiter_run rnd H cfg c reqs r) =
      zip (user_seconds u reqs) (bucket_run rnd cfg (m u) (user_seconds u reqs))"
proof (induction reqs arbitrary: T r m)
  case Nil
  then show ?case by simp
next
  case (Cons req reqs)
  obtain v t where req: "req = (v, t)" by (cases req)
  then have t: "T \<le> t" using Cons.prems(3) by simp
  obtain a b where run: "rate_limiter_lua rnd cfg (t div 1000) (m v) = (a, b)" by fastforce
  note step = tracks_step [OF laws cfg ttl Cons.prems(1) t run]
  let ?r = "hash_expire H (hash_set H r t (UserRateLimiterKey v) b) t (UserRateLimiterKey v) d"
  have a: "a = 0 \<or> a = 1" using lua_allowed [of rnd cfg "t div 1000" "m v"] run by simp
  have "\<forall>(w, t') \<in> set reqs. t \<le> t'" using Cons.prems(2) by (auto simp: req)
  with Cons.IH [OF step(2)] Cons.prems(2)
  have "user_view u reqs (limiter_run rnd H cfg c reqs ?r) =
      zip (user_seconds u reqs) (bucket_run rnd cfg ((m(v \<mapsto> b)) u) (user_seconds u reqs))"
    by (simp add: req)
  with a run show ?case
    by (auto simp: req middleware_eq [OF ttl(2) step(1)] passed_def limited_response_def JSON_def)
qed

lemma run_from_empty:
  assumes "redis_hash_laws H" and "cfg_ok cfg" and ttl: "ttl_covers rnd cfg"
    and "empty_hash H T r" and "sorted (map snd reqs)" and "\<forall>(v, t) \<in> set reqs. T \<le> t"
  shows "user_view u reqs (limiter_run rnd H cfg c reqs r) =
    zip (user_seconds u reqs) (bucket_run rnd cfg None (user_seconds u reqs))"
proof -
  from ttl obtain d where "script_ttl rnd cfg = Some d"
    by (auto simp: ttl_covers_def split: option.splits)
  from run_tracks [OF assms(1,2) ttl this tracks_empty [OF assms(4)] assms(5,6)] show ?thesis by simp
qed

subsection \<open>The burst\<close>

lemma run_burst:
  assumes cfg: "cfg_ok cfg" 
  shows "int n \<le> Capacity cfg \<Longrightarrow>
    bucket_run rnd cfg (Some \<lparr>tokens = of_nat n, last_refill = now\<rparr>) (replicate k now) =
      replicate (min k n) 1 @ replicate (k - n) 0"
proof (induction k arbitrary: n)
  case 0
  then show ?case by simp
next
  case (Suc k)
  show ?case
  proof (cases n)
    case 0
    with Suc.IH [of 0] cfg show ?thesis
      by (simp add: lua_halves refill_Some take_token_def cfg_ok_def)
  next
    case (Suc j)
    have "rnd (of_int (int j)) = of_int (int j)"
      using Suc.prems cfg Suc by (intro rnd_int) (simp add: cfg_ok_def)
    then have "rnd (of_nat j) = of_nat j" by simp
    with Suc.IH [of j] Suc.prems Suc show ?thesis
      by (simp add: lua_halves refill_Some take_token_def)
  qed
qed

lemma run_burst_fresh:
  assumes cfg: "cfg_ok cfg"
  shows "bucket_run rnd cfg None (replicate k now) =
    replicate (min k (nat (Capacity cfg))) 1 @ replicate (k - nat (Capacity cfg)) 0"
proof (cases k)
  case 0
  then show ?thesis by simp
next
  case (Suc j)
  let ?n = "nat (Capacity cfg)"
  have n: "of_int (Capacity cfg) = (of_nat ?n :: rat)" using cfg by (simp add: cfg_ok_def)
  have "bucket_run rnd cfg None (replicate k now) =
      bucket_run rnd cfg (Some \<lparr>tokens = of_nat ?n, last_refill = now\<rparr>) (replicate k now)"
    by (simp add: Suc lua_halves refill_None refill_Some n)
  also have "\<dots> = replicate (min k ?n) 1 @ replicate (k - ?n) 0"
    using cfg by (intro run_burst [OF cfg]) (simp add: cfg_ok_def)
  finally show ?thesis .
qed

end

end
