(* ===== verification/Rate_Limiter_Bound.thy ===== *)
theory Rate_Limiter_Bound
  imports Rate_Limiter_Lemmas
begin

section \<open>The bound of the limiter for fractional rates\<close>

text \<open>
  \<open>run_window\<close> counts in whole tokens, with the rate rounded up, which says little of rates
  below one such as that of StrictRateLimiter. Here the same runs are measured in tokens as
  rationals: a request may gain what rounding adds, at most \<open>slack\<close>, so that the capacity and
  the exact rate bound what passes up to that error per request.
\<close>

definition slack :: "RateLimiterConfig \<Rightarrow> rat" where
  "slack cfg = 5 * of_int (Capacity cfg) / 2 ^ 53"

text \<open>Two times so far apart that the rate earns a token in between.\<close>

definition spaced :: "RateLimiterConfig \<Rightarrow> int \<Rightarrow> int \<Rightarrow> bool" where
  "spaced cfg s t \<longleftrightarrow> 1 \<le> RefillRate cfg * of_int (t - s) \<and> t - s \<le> 2 ^ 53"

context rounding
begin

lemma slack_parts:
  assumes "cfg_ok cfg"
  shows "1 \<le> (of_int (Capacity cfg) :: rat)" "0 \<le> slack cfg"
    "of_int (Capacity cfg) / 2 ^ 53 \<le> slack cfg"
  using assms by (simp_all add: cfg_ok_def slack_def)

lemma take_token_cost:
  assumes cfg: "cfg_ok cfg" and b: "bucket_ok cfg b" and run: "take_token rnd b = (a, b')"
  shows "tokens b' + of_int a \<le> tokens b + of_int (Capacity cfg) / 2 ^ 53"
proof (cases "1 \<le> tokens b")
  case True
  have "rnd (tokens b - 1) \<le> tokens b - 1 + of_int (Capacity cfg) / 2 ^ 53"
    using True b slack_parts(1) [OF cfg] by (intro rnd_near) (simp_all add: bucket_ok_def)
  with run True show ?thesis by (auto simp: take_token_def)
next
  case False
  with run b show ?thesis using slack_parts(1) [OF cfg] by (auto simp: take_token_def)
qed

lemma refill_cost:
  assumes cfg: "cfg_ok cfg" and b: "bucket_ok cfg b" and small: "now - last_refill b \<le> 2 ^ 53"
  shows "tokens (refill rnd cfg now (Some b))
    \<le> tokens b + RefillRate cfg * of_int (max 0 (now - last_refill b)) + 4 * of_int (Capacity cfg) / 2 ^ 53"
proof (cases "last_refill b < now")
  case False
  then show ?thesis using slack_parts(1) [OF cfg] by (simp add: refill_Some max_def)
next
  case True
  let ?d = "now - last_refill b" and ?N = "of_int (Capacity cfg) :: rat"
  let ?x = "RefillRate cfg * of_int ?d"
  have N: "1 \<le> ?N" by (rule slack_parts(1) [OF cfg])
  have tok: "0 \<le> tokens b" "tokens b \<le> ?N" using b by (simp_all add: bucket_ok_def)
  have m: "max 0 ?d = ?d" using True by simp
  have x0: "0 \<le> ?x" using cfg True by (simp add: cfg_ok_def)
  have d: "rnd (of_int ?d) = of_int ?d" using True small by (intro rnd_int) simp
  have e: "tokens (refill rnd cfg now (Some b)) = min ?N (rnd (tokens b + rnd ?x))"
    using True d by (simp add: refill_Some mult.commute del: of_int_diff)
  show ?thesis
  proof (cases "?x \<le> ?N")
    case False
    with tok N show ?thesis unfolding e m by (simp add: min_le_iff_disj del: of_int_diff) 
  next
    case le: True
    have r1: "rnd ?x \<le> ?x + ?N / 2 ^ 53" by (rule rnd_near [OF x0 le N])
    have r0: "0 \<le> rnd ?x" by (rule rnd_nonneg [OF x0])
    have N53: "?N / 2 ^ 53 \<le> ?N" using N by (simp add: divide_le_eq)
    have "rnd (tokens b + rnd ?x) \<le> tokens b + rnd ?x + 3 * ?N / 2 ^ 53"
      by (rule rnd_near) (use tok r0 r1 le N N53 in linarith)+
    with r1 have "rnd (tokens b + rnd ?x) \<le> tokens b + ?x + (?N / 2 ^ 53 + 3 * ?N / 2 ^ 53)"
      by linarith
    also have "?N / 2 ^ 53 + 3 * ?N / 2 ^ 53 = 4 * ?N / 2 ^ 53" by (simp add: field_simps)
    finally show ?thesis unfolding e m by (simp add: min_le_iff_disj del: of_int_diff)
  qed
qed

lemma lua_cost_exact:
  assumes cfg: "cfg_ok cfg" and b: "bucket_ok cfg b" and small: "now - last_refill b \<le> 2 ^ 53"
    and run: "rate_limiter_lua rnd cfg now (Some b) = (a, b')"
  shows "tokens b' + of_int a \<le> tokens b + RefillRate cfg * of_int (max 0 (now - last_refill b)) + slack cfg"
proof -
  let ?r = "refill rnd cfg now (Some b)"
  have "bucket_ok cfg ?r" using b by (intro refill_ok [OF cfg]) simp
  from take_token_cost [OF cfg this run [unfolded lua_halves]] refill_cost [OF cfg b small]
  have "tokens b' + of_int a \<le> tokens b + RefillRate cfg * of_int (max 0 (now - last_refill b)) +
      (4 * of_int (Capacity cfg) / 2 ^ 53 + of_int (Capacity cfg) / 2 ^ 53)" by linarith
  also have "4 * of_int (Capacity cfg) / 2 ^ 53 + of_int (Capacity cfg) / 2 ^ 53 = slack cfg"
    by (simp add: slack_def field_simps)
  finally show ?thesis .
qed

lemma lua_room_exact:
  assumes cfg: "cfg_ok cfg" and data: "data_ok cfg data"
    and run: "rate_limiter_lua rnd cfg now data = (a, b')"
  shows "tokens b' + of_int a \<le> of_int (Capacity cfg) + slack cfg"
proof -
  have r: "bucket_ok cfg (refill rnd cfg now data)" by (rule refill_ok [OF cfg data])
  from take_token_cost [OF cfg r run [unfolded lua_halves]] slack_parts(3) [OF cfg] r show ?thesis
    by (simp add: bucket_ok_def)
qed

lemma run_from_bucket_exact:
  assumes cfg: "cfg_ok cfg"
  shows "bucket_ok cfg b \<Longrightarrow> sorted ts \<Longrightarrow> hi - last_refill b \<le> 2 ^ 53 \<Longrightarrow>
    of_int (passed_within lo hi (zip ts (bucket_run rnd cfg (Some b) ts)))
      \<le> tokens b + RefillRate cfg * of_int (max 0 (hi - last_refill b)) + of_nat (length ts) * slack cfg"
proof (induction ts arbitrary: b)
  case Nil
  with cfg show ?case by (simp add: bucket_ok_def cfg_ok_def)
next
  case (Cons t ts)
  have rate: "0 \<le> RefillRate cfg" using cfg by (simp add: cfg_ok_def)
  have tok: "0 \<le> tokens b" using Cons.prems(1) by (simp add: bucket_ok_def)
  obtain a b' where run: "rate_limiter_lua rnd cfg t (Some b) = (a, b')" by fastforce
  have ok: "data_ok cfg (Some b)" using Cons.prems(1) by simp
  note step = lua_step [OF cfg ok run]
  show ?case
  proof (cases "t \<le> hi")
    case False
    then have "\<forall>x \<in> set (t # ts). hi < x" using Cons.prems(2) by auto
    then have "passed_within lo hi (zip (t # ts) (bucket_run rnd cfg (Some b) (t # ts))) = 0"
      by (rule passed_within_late)
    with tok rate slack_parts(2) [OF cfg] show ?thesis by simp
  next
    case True
    let ?l = "last_refill b" and ?l' = "last_refill b'"
    have l': "?l' = max t ?l" using step(4) by simp
    have split: "max 0 (hi - ?l) = max 0 (t - ?l) + max 0 (hi - ?l')" using True l' by linarith
    have eq: "RefillRate cfg * of_int (max 0 (hi - ?l)) =
        RefillRate cfg * of_int (max 0 (t - ?l)) + RefillRate cfg * of_int (max 0 (hi - ?l'))"
      unfolding split by (simp only: of_int_add distrib_left)
    have "t - ?l \<le> 2 ^ 53" "hi - ?l' \<le> 2 ^ 53" using True Cons.prems(3) l' by linarith+
    from lua_cost_exact [OF cfg Cons.prems(1) this(1) run] Cons.IH [OF step(1) _ this(2)] Cons.prems(2)
    have cost: "tokens b' + of_int a \<le> tokens b + RefillRate cfg * of_int (max 0 (t - ?l)) + slack cfg"
      and rest: "of_int (passed_within lo hi (zip ts (bucket_run rnd cfg (Some b') ts)))
        \<le> tokens b' + RefillRate cfg * of_int (max 0 (hi - ?l')) + of_nat (length ts) * slack cfg"
      by simp_all
    have a: "(0 :: rat) \<le> of_int a" using step(2) by simp
    have len: "of_nat (length (t # ts)) * slack cfg = slack cfg + of_nat (length ts) * slack cfg"
      by (simp add: distrib_right)
    have "of_int (passed_within lo hi (zip (t # ts) (bucket_run rnd cfg (Some b) (t # ts))))
        \<le> of_int a + (of_int (passed_within lo hi (zip ts (bucket_run rnd cfg (Some b') ts))) :: rat)"
      using a by (simp add: run)
    with cost rest show ?thesis unfolding eq len by linarith
  qed
qed

lemma run_window_exact:
  assumes cfg: "cfg_ok cfg" and lohi: "lo \<le> hi" "hi - lo \<le> 2 ^ 53"
  shows "data_ok cfg data \<Longrightarrow> sorted ts \<Longrightarrow>
    of_int (passed_within lo hi (zip ts (bucket_run rnd cfg data ts)))
      \<le> of_int (Capacity cfg) + RefillRate cfg * of_int (hi - lo) + of_nat (length ts) * slack cfg"
proof (induction ts arbitrary: data)
  case Nil
  have "0 \<le> RefillRate cfg * of_int (hi - lo)" using cfg lohi by (simp add: cfg_ok_def)
  with slack_parts(1) [OF cfg] show ?case by simp
next
  case (Cons t ts)
  have rate: "0 \<le> RefillRate cfg" using cfg by (simp add: cfg_ok_def)
  obtain a b' where run: "rate_limiter_lua rnd cfg t data = (a, b')" by fastforce
  note step = lua_step [OF cfg Cons.prems(1) run]
  have len: "of_nat (length (t # ts)) * slack cfg = slack cfg + of_nat (length ts) * slack cfg"
    by (simp add: distrib_right)
  show ?case
  proof (cases "lo \<le> t")
    case False
    with Cons.IH [of "Some b'"] Cons.prems(2) step(1) slack_parts(2) [OF cfg] show ?thesis
      unfolding len by (simp add: run)
  next
    case True
    have l': "t \<le> last_refill b'" using step(4) by (simp split: option.splits)
    have small: "hi - last_refill b' \<le> 2 ^ 53" using l' True lohi by linarith
    have "max 0 (hi - last_refill b') \<le> hi - lo" using l' True lohi by linarith
    then have "RefillRate cfg * of_int (max 0 (hi - last_refill b')) \<le> RefillRate cfg * of_int (hi - lo)"
      using rate by (intro mult_left_mono) (simp_all only: of_int_le_iff)
    with run_from_bucket_exact [OF cfg step(1) _ small, of ts lo] Cons.prems(2)
    have rest: "of_int (passed_within lo hi (zip ts (bucket_run rnd cfg (Some b') ts)))
        \<le> tokens b' + RefillRate cfg * of_int (hi - lo) + of_nat (length ts) * slack cfg"
      by simp
    have a: "(0 :: rat) \<le> of_int a" using step(2) by simp
    have "of_int (passed_within lo hi (zip (t # ts) (bucket_run rnd cfg data (t # ts))))
        \<le> of_int a + (of_int (passed_within lo hi (zip ts (bucket_run rnd cfg (Some b') ts))) :: rat)"
      using a by (simp add: run)
    with lua_room_exact [OF cfg Cons.prems(1) run] rest show ?thesis unfolding len by linarith
  qed
qed

text \<open>A request that earns a token since the last one passes, whatever came before.\<close>

lemma lua_spaced:
  assumes cfg: "cfg_ok cfg" and b: "bucket_ok cfg b" and sp: "spaced cfg (last_refill b) now"
    and run: "rate_limiter_lua rnd cfg now (Some b) = (a, b')"
  shows "a = 1" "last_refill b' = now"
proof -
  let ?d = "now - last_refill b"
  have earns: "1 \<le> RefillRate cfg * of_int ?d" using sp by (simp only: spaced_def)
  have pos: "0 < ?d"
  proof (rule ccontr)
    assume "\<not> 0 < ?d"
    then have "of_int ?d \<le> (0 :: rat)" by (simp only: of_int_le_0_iff not_less)
    then have "RefillRate cfg * of_int ?d \<le> 0"
      using cfg by (intro mult_nonneg_nonpos) (simp_all only: cfg_ok_def less_imp_le)
    with earns show False by linarith
  qed
  then have d: "rnd (of_int ?d) = of_int ?d" using sp by (intro rnd_int) (simp add: spaced_def)
  have "1 \<le> rnd (RefillRate cfg * of_int ?d)" using rnd_ge_int [of 1] earns by simp
  then have "1 \<le> tokens b + rnd (RefillRate cfg * of_int ?d)" using b by (simp add: bucket_ok_def)
  then have "1 \<le> rnd (tokens b + rnd (RefillRate cfg * of_int ?d))" using rnd_ge_int [of 1] by simp
  then have "1 \<le> tokens (refill rnd cfg now (Some b))"
    using pos d slack_parts(1) [OF cfg] by (simp add: refill_Some mult.commute del: of_int_diff)
  with run show "a = 1" by (simp add: lua_halves take_token_def)
  have "data_ok cfg (Some b)" using b by simp
  from lua_step(4) [OF cfg this run] pos show "last_refill b' = now" by simp
qed

lemma run_spaced:
  assumes cfg: "cfg_ok cfg"
  shows "data_ok cfg data \<Longrightarrow> pred_option (\<lambda>b. ts = [] \<or> spaced cfg (last_refill b) (hd ts)) data \<Longrightarrow>
    successively (spaced cfg) ts \<Longrightarrow> bucket_run rnd cfg data ts = replicate (length ts) 1"
proof (induction ts arbitrary: data)
  case Nil
  then show ?case by simp
next
  case (Cons t ts)
  obtain a b' where run: "rate_limiter_lua rnd cfg t data = (a, b')" by fastforce
  note step = lua_step [OF cfg Cons.prems(1) run]
  have a: "a = 1 \<and> last_refill b' = t"
  proof (cases data)
    case None
    with run slack_parts(1) [OF cfg] show ?thesis
      by (auto simp: lua_halves refill_None take_token_def)
  next
    case (Some b)
    with Cons.prems(1,2) run lua_spaced [OF cfg, of b t a b'] show ?thesis by simp
  qed
  have "successively (spaced cfg) ts" "pred_option (\<lambda>b. ts = [] \<or> spaced cfg (last_refill b) (hd ts)) (Some b')"
    using Cons.prems(3) a by (cases ts; simp)+
  with Cons.IH [of "Some b'"] step(1) a show ?case by (simp add: run)
qed

end

end
