(* ===== verification/Limiter_Properties.thy ===== *)
theory Limiter_Properties
  imports Rate_Limiter_Run Rate_Limiter_Bound
begin

section \<open>Properties of the rate limiter\<close>

text \<open>
  The claims about the limiter at the rounding of IEEE doubles, from the lemmas of
  \<open>Rate_Limiter_Lemmas\<close>, \<open>Rate_Limiter_Bound\<close> and \<open>Rate_Limiter_Run\<close> through the interpretation \<open>double\<close>. The
  instances run on \<open>map_hash\<close>, a Redis that expires its keys.
\<close>

lemma length_limiter_run [simp]: "length (limiter_run rnd H cfg c reqs r) = length reqs"
  by (induction reqs arbitrary: r) (auto split: prod.split)

lemma user_view_own:
  "\<forall>(v, t) \<in> set reqs. v = u \<Longrightarrow> length xs = length reqs \<Longrightarrow>
   map snd (user_view u reqs xs) = map passed xs"
proof (induction reqs arbitrary: xs)
  case Nil
  then show ?case by simp
next
  case (Cons r reqs)
  then show ?case by (cases xs; cases r) auto
qed

lemma user_seconds_filter [simp]:
  "user_seconds u (filter (\<lambda>(v, t). v = u) reqs) = user_seconds u reqs"
  by (simp add: user_seconds_def)

lemma sorted_filter_requests: "sorted (map snd reqs) \<Longrightarrow> sorted (map snd (filter P reqs))"
  by (rule sorted_filter)

lemma map_hash_empty: "empty_hash map_hash T Map.empty"
  by (simp add: empty_hash_def map_hash_def)

lemma strict_ok: "cfg_ok StrictRateLimiter" "ttl_covers round_double StrictRateLimiter"
  by code_simp+

lemma default_ok: "cfg_ok DefaultRateLimiterConfig" "ttl_covers round_double DefaultRateLimiterConfig"
  by code_simp+

definition example_requests :: "(int \<times> int) list" where
  "example_requests = [(1, 5000), (2, 5100), (1, 5200), (1, 5300), (1, 5400)]"

lemma example_requests_sorted:
  "sorted (map snd example_requests)" "\<forall>(v, t) \<in> set example_requests. 5000 \<le> t"
  by (simp_all add: example_requests_def)

subsection \<open>The bound\<close>

text \<open>
  C15: The limiter limits. For every configuration with a positive rate whose hash outlives a
  refill (all presets do), and any interleaving of requests of any users, the number of
  requests of one user that pass within a window of whole seconds is at most the capacity
  plus the length of the window times the rate, rounded up to an integer. The bound is for the
  arithmetic of doubles and includes the expiry of the hashes; it holds while it is below the
  53 bits of a double.
\<close>

theorem limiter_window_bound:
  assumes "redis_hash_laws H" and "cfg_ok cfg" and "ttl_covers round_double cfg"
    and "empty_hash H T r" and "sorted (map snd reqs)" and "\<forall>(v, t) \<in> set reqs. T \<le> t"
    and "lo \<le> hi" and "Capacity cfg + \<lceil>RefillRate cfg\<rceil> * (hi - lo) \<le> 2 ^ 53"
  shows "passed_within lo hi (user_view u reqs (limiter_run round_double H cfg c reqs r))
    \<le> Capacity cfg + \<lceil>RefillRate cfg\<rceil> * (hi - lo)"
  unfolding double.run_from_empty [OF assms(1-6)]
  using assms(2,5,7,8) by (intro double.run_window) (simp_all add: sorted_user_seconds)

theorem limiter_window_bound_witness:
  "passed_within 5 6 (user_view 1 example_requests
     (limiter_run round_double map_hash StrictRateLimiter plain_ctx example_requests Map.empty)) \<le> 4"
proof -
  have "Capacity StrictRateLimiter + \<lceil>RefillRate StrictRateLimiter\<rceil> * (6 - 5) = 4" by code_simp
  with limiter_window_bound [OF map_hash_laws strict_ok map_hash_empty example_requests_sorted,
      where lo = 5 and hi = 6 and u = 1 and c = plain_ctx]
  show ?thesis by simp
qed

text \<open>
  C16: The limiter limits fractional rates too. Under the same conditions the requests of one user
  that pass within a window are at most the capacity plus the exact rate times the length of
  the window, plus an error of five parts in 2 to the 53 of the capacity for each request of
  the user, which is what the roundings of the script can add. So under StrictRateLimiter at
  most 9 requests of a user pass in a minute, whatever number up to ten to the 12 he sends.
\<close>

theorem limiter_rate_bound:
  assumes "redis_hash_laws H" and "cfg_ok cfg" and "ttl_covers round_double cfg"
    and "empty_hash H T r" and "sorted (map snd reqs)" and "\<forall>(v, t) \<in> set reqs. T \<le> t"
    and "lo \<le> hi" and "hi - lo \<le> 2 ^ 53"
  shows "of_int (passed_within lo hi (user_view u reqs (limiter_run round_double H cfg c reqs r)))
      \<le> of_int (Capacity cfg) + RefillRate cfg * of_int (hi - lo)
        + of_nat (length (user_seconds u reqs)) * slack cfg \<and>
    (cfg = StrictRateLimiter \<longrightarrow> hi = lo + 60 \<longrightarrow> int (length (user_seconds u reqs)) \<le> 10 ^ 12 \<longrightarrow>
      passed_within lo hi (user_view u reqs (limiter_run round_double H cfg c reqs r)) \<le> 9)"
proof -
  let ?n = "passed_within lo hi (user_view u reqs (limiter_run round_double H cfg c reqs r))"
  have bound: "of_int ?n \<le> of_int (Capacity cfg) + RefillRate cfg * of_int (hi - lo)
      + of_nat (length (user_seconds u reqs)) * slack cfg"
    unfolding double.run_from_empty [OF assms(1-6)]
    using assms(2,5,7,8) by (intro double.run_window_exact) (simp_all add: sorted_user_seconds)
  moreover have "?n \<le> 9" if strict: "cfg = StrictRateLimiter" "hi = lo + 60"
    "int (length (user_seconds u reqs)) \<le> 10 ^ 12"
  proof -
    have "(of_int (int (length (user_seconds u reqs))) :: rat) \<le> of_int (10 ^ 12)"
      using strict(3) by (simp only: of_int_le_iff)
    then have "of_nat (length (user_seconds u reqs)) * slack StrictRateLimiter \<le> (10 ^ 12) * slack StrictRateLimiter"
      by (intro mult_right_mono) (simp_all add: slack_def StrictRateLimiter_def)
    with bound strict(1,2) have "of_int ?n \<le> of_int (Capacity StrictRateLimiter) + RefillRate StrictRateLimiter * 60
        + 10 ^ 12 * slack StrictRateLimiter" by simp
    also have "\<dots> < of_int 10" by code_simp
    finally show ?thesis by (simp only: of_int_less_iff)
  qed
  ultimately show ?thesis by blast
qed

text \<open>Three requests at once every ten seconds: the first three pass, and one of each later three.\<close>

definition eager_requests :: "(int \<times> int) list" where
  "eager_requests = concat (map (\<lambda>s. replicate 3 (1, s * 1000)) [5, 15, 25, 35, 45, 55, 65])"

theorem limiter_rate_bound_witness:
  "length (user_seconds 1 eager_requests) = 21 \<and>
   passed_within 5 65 (user_view 1 eager_requests
     (limiter_run round_double map_hash StrictRateLimiter plain_ctx eager_requests Map.empty)) \<le> 9 \<and>
   passed_within 5 65 (user_view 1 eager_requests
     (limiter_run round_double map_hash StrictRateLimiter plain_ctx eager_requests Map.empty)) = 9"
proof (intro conjI)
  have reqs: "sorted (map snd eager_requests)" "\<forall>(v, t) \<in> set eager_requests. 5000 \<le> t"
    by (simp_all add: eager_requests_def numeral_eq_Suc)
  show len: "length (user_seconds 1 eager_requests) = 21" by code_simp
  from limiter_rate_bound [OF map_hash_laws strict_ok map_hash_empty reqs, of 5 65 1 plain_ctx]
  show "passed_within 5 65 (user_view 1 eager_requests
     (limiter_run round_double map_hash StrictRateLimiter plain_ctx eager_requests Map.empty)) \<le> 9"
    by (simp add: len)
  have "passed_within 5 65 (zip (user_seconds 1 eager_requests)
      (bucket_run round_double StrictRateLimiter None (user_seconds 1 eager_requests))) = 9" by code_simp
  then show "passed_within 5 65 (user_view 1 eager_requests
     (limiter_run round_double map_hash StrictRateLimiter plain_ctx eager_requests Map.empty)) = 9"
    by (simp only: double.run_from_empty [OF map_hash_laws strict_ok map_hash_empty reqs])
qed

text \<open>
  C17: Nobody is starved: a user whose requests are always so far apart that the rate earns a
  token in between gets every one of them through, whatever the other users do.
\<close>

theorem limiter_never_starves:
  assumes "redis_hash_laws H" and "cfg_ok cfg" and "ttl_covers round_double cfg"
    and "empty_hash H T r" and "sorted (map snd reqs)" and "\<forall>(v, t) \<in> set reqs. T \<le> t"
    and "successively (spaced cfg) (user_seconds u reqs)"
  shows "map snd (user_view u reqs (limiter_run round_double H cfg c reqs r)) =
    replicate (length (user_seconds u reqs)) 1"
  unfolding double.run_from_empty [OF assms(1-6)]
  using double.run_spaced [OF assms(2), of None] assms(7) by simp

theorem limiter_never_starves_witness:
  "map snd (user_view 1 [(1, 5000), (2, 5100), (1, 15000), (1, 25999)]
     (limiter_run round_double map_hash StrictRateLimiter plain_ctx
       [(1, 5000), (2, 5100), (1, 15000), (1, 25999)] Map.empty)) = [1, 1, 1]"
proof -
  have "successively (spaced StrictRateLimiter) [5, 15, 25]" by code_simp
  then have "successively (spaced StrictRateLimiter)
      (user_seconds 1 [(1, 5000), (2, 5100), (1, 15000), (1, 25999)])" by simp
  from limiter_never_starves [OF map_hash_laws strict_ok map_hash_empty _ _ this, where T = 5000
      and c = plain_ctx]
  show ?thesis by (simp add: numeral_eq_Suc)
qed

text \<open>
  A burst is limited exactly: of k requests a new user sends within the same second, the
  first ones up to the capacity pass and every later one is refused.
\<close>

lemma limiter_burst_exact:
  assumes "redis_hash_laws H" and "cfg_ok cfg" and "ttl_covers round_double cfg" and "empty_hash H t r"
  shows "map passed (limiter_run round_double H cfg c (replicate k (u, t)) r) =
    replicate (min k (nat (Capacity cfg))) 1 @ replicate (k - nat (Capacity cfg)) 0"
proof -
  let ?reqs = "replicate k (u, t)" and ?xs = "limiter_run round_double H cfg c (replicate k (u, t)) r"
  have secs: "user_seconds u ?reqs = replicate k (t div 1000)" by (simp add: user_seconds_def)
  have "sorted (map snd ?reqs)" by simp
  from double.run_from_empty [OF assms this, of u c]
  have view: "user_view u ?reqs ?xs =
      zip (replicate k (t div 1000)) (bucket_run round_double cfg None (replicate k (t div 1000)))"
    by (simp add: secs)
  have len: "length (bucket_run round_double cfg None (replicate k n)) = k" for n
    by (simp add: double.run_burst_fresh [OF assms(2)])
  have "map passed ?xs = map snd (user_view u ?reqs ?xs)" by (rule user_view_own [symmetric]) auto
  also have "\<dots> = bucket_run round_double cfg None (replicate k (t div 1000))"
    using len by (simp add: view)
  finally show ?thesis by (simp add: double.run_burst_fresh [OF assms(2)])
qed

lemma limiter_burst_exact_example:
  "map passed (limiter_run round_double map_hash StrictRateLimiter plain_ctx (replicate 5 (1, 5000)) Map.empty) =
     [1, 1, 1, 0, 0]"
  using limiter_burst_exact [OF map_hash_laws strict_ok map_hash_empty, of plain_ctx 5 1]
  by (simp add: StrictRateLimiter_def numeral_eq_Suc)

subsection \<open>Users and expiry\<close>

text \<open>
  C31: Users do not affect each other: what a user sees of any interleaving of requests is what
  he would see if he had sent only his own.
\<close>

theorem limiter_isolates_users:
  assumes "redis_hash_laws H" and "cfg_ok cfg" and "ttl_covers round_double cfg"
    and "empty_hash H T r" and "sorted (map snd reqs)" and "\<forall>(v, t) \<in> set reqs. T \<le> t"
    and "own = filter (\<lambda>(v, t). v = u) reqs"
  shows "user_view u reqs (limiter_run round_double H cfg c reqs r) =
    user_view u own (limiter_run round_double H cfg c own r)"
proof -
  have "sorted (map snd own)" "\<forall>(v, t) \<in> set own. T \<le> t"
    using assms(5-7) sorted_filter_requests by auto
  from double.run_from_empty [OF assms(1-4) this, of u c] double.run_from_empty [OF assms(1-6), of u c]
  show ?thesis by (simp add: assms(7))
qed

theorem limiter_isolates_users_witness:
  "user_view 2 example_requests
     (limiter_run round_double map_hash StrictRateLimiter plain_ctx example_requests Map.empty) =
   user_view 2 [(2, 5100)] (limiter_run round_double map_hash StrictRateLimiter plain_ctx [(2, 5100)] Map.empty)"
  by (rule limiter_isolates_users [OF map_hash_laws strict_ok map_hash_empty example_requests_sorted])
    (simp add: example_requests_def)

text \<open>
  C30: The expiry the script sets is not visible: the answers on a Redis that drops the hash of
  an idle user are those of a token bucket that is kept for ever, started full.
\<close>

theorem limiter_expiry_invisible:
  assumes "redis_hash_laws H" and "cfg_ok cfg" and "ttl_covers round_double cfg"
    and "empty_hash H T r" and "sorted (map snd reqs)" and "\<forall>(v, t) \<in> set reqs. T \<le> t"
  shows "user_view u reqs (limiter_run round_double H cfg c reqs r) =
    zip (user_seconds u reqs) (bucket_run round_double cfg None (user_seconds u reqs))"
  by (rule double.run_from_empty [OF assms])

theorem limiter_expiry_invisible_witness:
  "user_view 1 [(1, 5000), (1, 95000)]
     (limiter_run round_double map_hash StrictRateLimiter plain_ctx [(1, 5000), (1, 95000)] Map.empty) =
   [(5, 1), (95, 1)]"
proof -
  have "bucket_run round_double StrictRateLimiter None [5, 95] = [1, 1]" by code_simp
  with limiter_expiry_invisible [OF map_hash_laws strict_ok map_hash_empty,
      of "[(1, 5000), (1, 95000)]" 5000 1 plain_ctx]
  show ?thesis by simp
qed

text \<open>
  Every preset is a configuration the bounds above apply to: its capacity is at least one
  request, its rate is positive, and the time to live the script computes in doubles is long
  enough for the bucket to be full again when the hash goes.
\<close>

lemma presets_covered_by_bounds:
  "list_all (\<lambda>cfg. cfg_ok cfg \<and> ttl_covers round_double cfg) presets"
  using presets_ok presets_covered by (simp add: list_all_iff)

subsection \<open>The script\<close>

text \<open>
  The script keeps the bucket between 0 and its capacity, whatever the clock does, answers
  0 or 1, and takes a token exactly when it answers 1: with the answer counted the bucket
  still fits its capacity, and its clock never goes back.
\<close>

lemma script_keeps_bucket:
  assumes "cfg_ok cfg" and "data_ok cfg data"
    and "rate_limiter_lua round_double cfg now data = (a, b)"
  shows "bucket_ok cfg b \<and> (a = 0 \<or> a = 1) \<and> \<lceil>tokens b\<rceil> + a \<le> Capacity cfg \<and> now \<le> last_refill b \<and>
    (\<forall>b0. data = Some b0 \<longrightarrow> last_refill b0 \<le> last_refill b)"
  using double.lua_step(1,4,5) [OF assms] lua_allowed [of round_double cfg now data] assms(3)
  by (auto split: option.splits)

lemma script_keeps_bucket_example:
  "bucket_ok StrictRateLimiter (snd (rate_limiter_lua round_double StrictRateLimiter 7
     (Some \<lparr>tokens = 1 / 2, last_refill = 1\<rparr>)))"
proof -
  have "data_ok StrictRateLimiter (Some \<lparr>tokens = 1 / 2, last_refill = 1\<rparr>)"
    by (simp add: bucket_ok_def StrictRateLimiter_def)
  from script_keeps_bucket [OF strict_ok(1) this prod.collapse [symmetric]] show ?thesis by blast
qed

text \<open>
  C40: The limiter fails open. For an authenticated user a request passes whenever the call to
  Redis reports an error, and so does every request under a configuration whose time to live
  Redis refuses: with rate 0, or a rate so small that the milliseconds do not fit 64 bits, the
  script always fails at EXPIRE after it has run.
\<close>

theorem limiter_fails_open:
  assumes "ctx_keys c UserIDKey = Some (AnyInt u)"
    and "le_eval env \<noteq> Eval_ok \<or> RefillRate cfg = 0 \<or>
      9223372036854775 < \<lceil>round_double (of_int (Capacity cfg) / RefillRate cfg)\<rceil>"
  shows "fst (RateLimiterMiddleware round_double H env cfg c r) = Next c"
  using assms
  by (auto simp: RateLimiterMiddleware_def eval_script_def script_ttl_def Let_def
      split: eval_outcome.split prod.split)

theorem limiter_fails_open_witness:
  "fst (RateLimiterMiddleware round_double map_hash (limiter_env_at 5000) (CustomRateLimiter 5 0)
     (set_key UserIDKey (AnyInt 3) plain_ctx) Map.empty) = Next (set_key UserIDKey (AnyInt 3) plain_ctx)"
  by (rule limiter_fails_open [of _ 3]) (simp_all add: set_key_def CustomRateLimiter_def)

end
