(* ===== verification/Accounts.thy ===== *)
theory Accounts
  imports System
begin

section \<open>The accounts of the running system\<close>

text \<open>
  What the runs of System do to the table \<open>users\<close>: a row that is there stays as it is, and a
  row comes only from a registration that arrived before, under the name that was asked for (as
  the column holds it) and with the bcrypt hash of the password that was given.
\<close>

subsection \<open>Rows stay\<close>

definition users_stay :: "database \<Rightarrow> database \<Rightarrow> bool" where
  "users_stay db db' \<longleftrightarrow> (\<forall>n r. user_named db n = Some r \<longrightarrow> user_named db' n = Some r)"

lemma users_stay_refl [simp]: "users_stay db db"
  by (simp add: users_stay_def)

lemma users_stay_trans: "users_stay a b \<Longrightarrow> users_stay b c \<Longrightarrow> users_stay a c"
  by (simp add: users_stay_def)

lemma users_stay_same: "users_tbl db' = users_tbl db \<Longrightarrow> users_stay db db'"
  by (simp add: users_stay_def user_named_def)

lemma worker_step_users:
  assumes "worker_step (NewTaskRepository drv) env ws db = (ws', db', cmds)"
  shows "users_tbl db' = users_tbl db"
  using worker_step_steps [OF assms] steps_at_row(1) by blast

lemma create_txn_users:
  assumes "create_txn (NewTaskRepository drv) env t db = (x, db')"
  shows "users_tbl db' = users_tbl db"
  using create_txn_cases [OF assms]
  by (auto simp: NewTaskRepository_def TaskRepository_Create_def split: option.splits if_splits)

text \<open>The second phase of a registration leaves the tables as they are or adds the one row.\<close>

lemma insert_user_cases:
  "insert_user (NewUserRepository drv) env n h db = db \<or>
   (\<exists>r. varchar 50 n = Some (Username r) \<and> Password r = h \<and> user_named db (Username r) = None \<and>
      users_tbl (insert_user (NewUserRepository drv) env n h db) = users_tbl db @ [r])"
proof (cases "insert_user (NewUserRepository drv) env n h db = db")
  case False
  then obtain i where "ur_Create (NewUserRepository drv) (cu_stmt env) (new_user n h) db =
      (Inr i, insert_user (NewUserRepository drv) env n h db)"
    by (auto simp: insert_user_def split: option.splits prod.splits sum.splits commit_outcome.splits)
  from user_repo.create_ok [OF this] show ?thesis by (auto simp: created_user_def new_user_def)
qed simp

lemma insert_user_stay: "users_stay db (insert_user (NewUserRepository drv) env n h db)"
  using insert_user_cases [of drv env n h db] by (auto simp: users_stay_def user_named_def row_at_append)

subsection \<open>Steps of the system\<close>

text \<open>
  The table of accounts after a step, and what is left to insert: each new row comes from a
  registration past its look-up, and each of those from one that was waiting for it.
\<close>

definition users_from :: "bcrypt_lib \<Rightarrow> 'r system \<Rightarrow> 'r system \<Rightarrow> bool" where
  "users_from B s s' \<longleftrightarrow>
     users_stay (w_db (sy_world s)) (w_db (sy_world s')) \<and>
     (\<forall>r \<in> set (users_tbl (w_db (sy_world s'))). r \<in> set (users_tbl (w_db (sy_world s))) \<or>
        (\<exists>n. Inserting n (Password r) \<in> set (sy_requests s) \<and> varchar 50 n = Some (Username r))) \<and>
     (\<forall>n h. Inserting n h \<in> set (sy_requests s') \<longrightarrow> Inserting n h \<in> set (sy_requests s) \<or>
        (\<exists>p. Registering n p \<in> set (sy_requests s) \<and> bcrypt_GenerateFromPassword B p DefaultCost = Inr h))"

lemma users_from_same:
  assumes "users_tbl (w_db (sy_world s')) = users_tbl (w_db (sy_world s))"
    and "\<And>n h. Inserting n h \<in> set (sy_requests s') \<Longrightarrow> Inserting n h \<in> set (sy_requests s)"
  shows "users_from B s s'"
  using assms users_stay_same by (auto simp: users_from_def)

lemma arrives_not_inserting: "\<not> arrives (Inserting n h)"
  by (simp add: arrives.simps)

text \<open>The one phase that inserts, the one that prepares it, and all others.\<close>

lemma request_step_users:
  assumes "request_step (NewTaskRepository drv) (NewUserRepository drv) C B is_print env x w = (x', w')"
  shows "users_stay (w_db w) (w_db w')"
    and "r \<in> set (users_tbl (w_db w')) \<Longrightarrow> r \<in> set (users_tbl (w_db w)) \<or>
      (\<exists>n. x = Inserting n (Password r) \<and> varchar 50 n = Some (Username r))"
    and "x' = Inserting n h \<Longrightarrow> \<exists>p. x = Registering n p \<and> bcrypt_GenerateFromPassword B p DefaultCost = Inr h"
proof -
  have same: "users_tbl (w_db w') = users_tbl (w_db w)" if "\<And>n h. x \<noteq> Inserting n h"
    using that assms create_txn_users
    by (cases x) (fastforce simp: request_step_def split: option.splits sum.splits prod.splits)+
  have db: "w_db w' = insert_user (NewUserRepository drv) (ph_user env) n h (w_db w)" if "x = Inserting n h" for n h
    using that assms by (auto simp: request_step_def)
  show "users_stay (w_db w) (w_db w')"
  proof (cases "\<exists>n h. x = Inserting n h")
    case True
    then obtain n h where "x = Inserting n h" by blast
    from db [OF this] insert_user_stay show ?thesis by simp
  next
    case False
    then show ?thesis by (intro users_stay_same same) blast
  qed
  show "r \<in> set (users_tbl (w_db w)) \<or> (\<exists>n. x = Inserting n (Password r) \<and> varchar 50 n = Some (Username r))"
    if r: "r \<in> set (users_tbl (w_db w'))"
  proof (cases "\<exists>n h. x = Inserting n h")
    case True
    then obtain n h where x: "x = Inserting n h" by blast
    from insert_user_cases [of drv "ph_user env" n h "w_db w"] r show ?thesis unfolding db [OF x] x by auto
  next
    case False
    then have "users_tbl (w_db w') = users_tbl (w_db w)" by (intro same) blast
    with r show ?thesis by simp
  qed
  show "\<exists>p. x = Registering n p \<and> bcrypt_GenerateFromPassword B p DefaultCost = Inr h" if "x' = Inserting n h"
    using that assms
    by (cases x) (auto simp: request_step_def look_up_user_def GeneratePasswordHash_def create_txn_def
        split: option.splits sum.splits prod.splits if_splits tx_splits)
qed

lemma sys_any_users:
  assumes "sys_any drv C B view is_print s s'"
  shows "users_from B s s'"
  using assms unfolding sys_any_def
proof
  assume "sys_step drv C B view is_print s s'"
  then show ?thesis
  proof cases
    case (arrive x)
    then show ?thesis by (intro users_from_same) (auto simp: arrives_not_inserting)
  next
    case (request i env x w')
    have mem: "sy_requests s ! i \<in> set (sy_requests s)" using request(2) by simp
    note users = request_step_users [OF request(4)]
    show ?thesis unfolding users_from_def
    proof (intro conjI ballI allI impI)
      show "users_stay (w_db (sy_world s)) (w_db (sy_world s'))" using users(1) request(1) by simp
      show "r \<in> set (users_tbl (w_db (sy_world s))) \<or>
          (\<exists>n. Inserting n (Password r) \<in> set (sy_requests s) \<and> varchar 50 n = Some (Username r))"
        if "r \<in> set (users_tbl (w_db (sy_world s')))" for r
      proof -
        from that request(1) have "r \<in> set (users_tbl (w_db w'))" by simp
        from users(2) [OF this] mem show ?thesis by metis
      qed
      show "Inserting n h \<in> set (sy_requests s) \<or>
          (\<exists>p. Registering n p \<in> set (sy_requests s) \<and> bcrypt_GenerateFromPassword B p DefaultCost = Inr h)"
        if "Inserting n h \<in> set (sy_requests s')" for n h
      proof -
        from that request(1) have "Inserting n h \<in> set (sy_requests s) \<or> Inserting n h = x"
          by (auto dest: set_update_cases)
        with users(3) [of n h] mem show ?thesis by auto
      qed
    qed
  next
    case (expire r')
    then show ?thesis by (intro users_from_same) auto
  next
    case (deliver i msg)
    then show ?thesis by (intro users_from_same) auto
  next
    case (work i wenv ws db' cmds)
    then show ?thesis using worker_step_users [OF work(3)] by (intro users_from_same) auto
  qed
next
  assume "crash s s'"
  then show ?thesis by cases (auto intro!: users_from_same dest: set_update_cases)
qed

subsection \<open>Runs\<close>

lemma sys_runs_users_stay:
  assumes "(sys_any drv C B view is_print)\<^sup>*\<^sup>* s s'"
  shows "users_stay (w_db (sy_world s)) (w_db (sy_world s'))"
  using assms
proof (induction rule: rtranclp_induct)
  case (step y z)
  with sys_any_users [OF step.hyps(2)] users_stay_trans show ?case by (auto simp: users_from_def)
qed simp

text \<open>Somewhere on the way from the one state to the other a registration was waiting.\<close>

definition was_asked ::
  "('r system \<Rightarrow> 'r system \<Rightarrow> bool) \<Rightarrow> 'r system \<Rightarrow> 'r system \<Rightarrow> string \<Rightarrow> string \<Rightarrow> bool" where
  "was_asked step s0 s n p \<longleftrightarrow>
     (\<exists>s1. step\<^sup>*\<^sup>* s0 s1 \<and> step\<^sup>*\<^sup>* s1 s \<and> Registering n p \<in> set (sy_requests s1))"

lemma was_asked_step: "was_asked step s0 s n p \<Longrightarrow> step s s' \<Longrightarrow> was_asked step s0 s' n p"
  unfolding was_asked_def by (meson rtranclp.rtrancl_into_rtrancl)

lemma was_asked_now: "step\<^sup>*\<^sup>* s0 s \<Longrightarrow> Registering n p \<in> set (sy_requests s) \<Longrightarrow> was_asked step s0 s n p"
  unfolding was_asked_def by blast

definition accounts_asked ::
  "('r system \<Rightarrow> 'r system \<Rightarrow> bool) \<Rightarrow> bcrypt_lib \<Rightarrow> 'r system \<Rightarrow> 'r system \<Rightarrow> bool" where
  "accounts_asked step B s0 s \<longleftrightarrow>
     (\<forall>n h. Inserting n h \<in> set (sy_requests s) \<longrightarrow>
        (\<exists>p. was_asked step s0 s n p \<and> bcrypt_GenerateFromPassword B p DefaultCost = Inr h)) \<and>
     (\<forall>r \<in> set (users_tbl (w_db (sy_world s))). \<exists>n p. was_asked step s0 s n p \<and>
        varchar 50 n = Some (Username r) \<and> bcrypt_GenerateFromPassword B p DefaultCost = Inr (Password r))"

lemma accounts_asked_step:
  assumes asked: "accounts_asked step B s0 s" and run: "step\<^sup>*\<^sup>* s0 s" and step: "step s s'"
    and users: "users_from B s s'"
  shows "accounts_asked step B s0 s'"
proof -
  have waiting: "\<exists>p. was_asked step s0 s' n p \<and> bcrypt_GenerateFromPassword B p DefaultCost = Inr h"
    if "Inserting n h \<in> set (sy_requests s)" for n h
    using asked that was_asked_step [where step = step, OF _ step] unfolding accounts_asked_def by meson
  have "\<exists>p. was_asked step s0 s' n p \<and> bcrypt_GenerateFromPassword B p DefaultCost = Inr h"
    if "Inserting n h \<in> set (sy_requests s')" for n h
    using users that waiting was_asked_step [where step = step, OF was_asked_now [where step = step, OF run] step]
    unfolding users_from_def by meson
  moreover have "\<exists>n p. was_asked step s0 s' n p \<and> varchar 50 n = Some (Username r) \<and>
      bcrypt_GenerateFromPassword B p DefaultCost = Inr (Password r)"
    if r: "r \<in> set (users_tbl (w_db (sy_world s')))" for r
  proof (cases "r \<in> set (users_tbl (w_db (sy_world s)))")
    case True
    with asked was_asked_step [where step = step, OF _ step] show ?thesis unfolding accounts_asked_def by meson
  next
    case False
    with users r waiting show ?thesis unfolding users_from_def by meson
  qed
  ultimately show ?thesis by (simp add: accounts_asked_def)
qed

lemma sys_runs_accounts:
  assumes "sys_init view k s0" and "(sys_any drv C B view is_print)\<^sup>*\<^sup>* s0 s"
  shows "accounts_asked (sys_any drv C B view is_print) B s0 s"
  using assms(2)
proof (induction rule: rtranclp_induct)
  case base
  with assms(1) show ?case by (simp add: accounts_asked_def sys_init_def)
next
  case (step y z)
  from accounts_asked_step [OF step.IH step.hyps sys_any_users [OF step.hyps(2)]] show ?case .
qed

end
