(* ===== verification/Account_Properties.thy ===== *)
theory Account_Properties
  imports System_Properties Accounts
begin

section \<open>Properties of accounts in the running system\<close>

text \<open>
  The claims about registration and log-in that need the runs of the whole system: where accounts
  come from, and that they last.
\<close>

subsection \<open>The example\<close>

text \<open>A registration runs through: it arrives, finds the name free, and inserts its row.\<close>

definition ann_system :: "(string \<rightharpoonup> string) system" where
  "ann_system = start_system\<lparr>sy_world := (sy_world start_system)\<lparr>w_db := ann_users\<rparr>, sy_requests := [Done]\<rparr>"

abbreviation user_any :: "(string \<rightharpoonup> string) system \<Rightarrow> (string \<rightharpoonup> string) system \<Rightarrow> bool" where
  "user_any \<equiv> sys_any user_driver map_redis mark_bcrypt (\<lambda>r. r) (\<lambda>_. True)"

lemma phase_alone:
  assumes "request_step (NewTaskRepository drv) (NewUserRepository drv) C B is_print env x (sy_world s) = (x', w')"
    and "order_ok (ph_query env)" and "sy_requests s = [x]" and "s' = s\<lparr>sy_world := w', sy_requests := [x']\<rparr>"
  shows "sys_step drv C B view is_print s s'"
  using phase_run [where rs = "[]", OF assms(1,2)] assms(3,4) by simp

lemma ann_runs: "user_any\<^sup>*\<^sup>* start_system ann_system"
proof -
  let ?env = "\<lparr>ph_create = plain_create_env 9 8, ph_query = plain_query, ph_user = example_user_env\<rparr>"
  let ?step = "sys_step user_driver map_redis mark_bcrypt (\<lambda>r. r) (\<lambda>_. True)"
  let ?s = "\<lambda>xs. start_system\<lparr>sy_requests := xs\<rparr>"
  note defs = request_step_def look_up_user_def insert_user_def NewUserRepository_def GeneratePasswordHash_def
    UserRepository_GetByUsername_def UserRepository_Create_def mark_bcrypt_def example_user_env_def
    plain_user_query_def user_driver_def text_error_def plain_stmt_def plain_tx_def new_user_def no_users_def
    ann_users_def ann_def user_at_def user_named_def int4_ok_def start_system_def ann_varchar
  have 1: "?step start_system (?s [Registering ''ann'' ''secret''])"
    using sys_step.arrive [OF arrives.intros(4) [of "''ann''" "''secret''"], of user_driver map_redis mark_bcrypt
        "\<lambda>r. r" "\<lambda>_. True" start_system]
    by (simp add: start_system_def)
  have 2: "?step (?s [Registering ''ann'' ''secret'']) (?s [Inserting ''ann'' ''$2a$10$secret''])"
    by (rule phase_alone [where env = ?env and x' = "Inserting ''ann'' ''$2a$10$secret''"
          and w' = "sy_world start_system"])
      (simp_all add: defs order_ok_plain)
  have 3: "?step (?s [Inserting ''ann'' ''$2a$10$secret'']) ann_system"
    by (rule phase_alone [where env = ?env and x' = Done and w' = "sy_world ann_system"])
      (simp_all add: defs ann_system_def order_ok_plain)
  from 1 2 3 have "?step\<^sup>*\<^sup>* start_system ann_system"
    by (meson converse_rtranclp_into_rtranclp rtranclp.rtrancl_refl)
  then show ?thesis by (rule sys_steps_any)
qed

lemma ann_system_db: "w_db (sy_world ann_system) = ann_users"
  by (simp add: ann_system_def)

subsection \<open>Log-in\<close>

text \<open>
  C36: Nobody logs in without having registered. When Login answers 200 in a state the system
  reaches, the name has an account whose hash accepts the password given; that account is the
  work of a registration that arrived before, for that name as the column holds it, and the hash
  is the one bcrypt made of the password of that registration at cost 10; the tokens in the
  answer are a pair generated for the id of the account, and the state does not change.
\<close>

theorem login_authenticates:
  assumes "sys_init view k s0" and "(sys_any drv C B view is_print)\<^sup>*\<^sup>* s0 s"
    and "UserController_Login (NewUserService (NewUserRepository drv) B L cenv lenv) secret bound c (w_db (sy_world s))
       = (JSON 200 body, db')"
  shows "\<exists>n p r tokens. bound = Inr (n, p) \<and> user_named (w_db (sy_world s)) n = Some r \<and>
    bcrypt_CompareHashAndPassword B (Password r) p = None \<and> issued L secret (user_ID r) tokens \<and>
    body = token_json tokens \<and> db' = w_db (sy_world s) \<and>
    (\<exists>s1 m q. (sys_any drv C B view is_print)\<^sup>*\<^sup>* s0 s1 \<and> (sys_any drv C B view is_print)\<^sup>*\<^sup>* s1 s \<and>
       Registering m q \<in> set (sy_requests s1) \<and> varchar 50 m = Some n \<and>
       bcrypt_GenerateFromPassword B q 10 = Inr (Password r))"
proof -
  from usr.Login_authenticates [OF assms(3)] obtain n p r tokens where
    login: "bound = Inr (n, p)" "user_named (w_db (sy_world s)) n = Some r"
      "bcrypt_CompareHashAndPassword B (Password r) p = None" "issued L secret (user_ID r) tokens"
      "body = token_json tokens" "db' = w_db (sy_world s)" by blast
  from user_named_SomeD [OF login(2)] sys_runs_accounts [OF assms(1,2)] obtain m q where
    "was_asked (sys_any drv C B view is_print) s0 s m q" "varchar 50 m = Some n"
    "bcrypt_GenerateFromPassword B q DefaultCost = Inr (Password r)"
    unfolding accounts_asked_def by blast
  with login show ?thesis unfolding was_asked_def DefaultCost_def by blast
qed

theorem login_authenticates_witness:
  "\<exists>s1 m q. user_any\<^sup>*\<^sup>* start_system s1 \<and> user_any\<^sup>*\<^sup>* s1 ann_system \<and>
     Registering m q \<in> set (sy_requests s1) \<and> varchar 50 m = Some ''ann'' \<and>
     bcrypt_GenerateFromPassword mark_bcrypt q 10 = Inr ''$2a$10$secret''"
  using login_authenticates [OF start_init ann_runs example_login [of plain_ctx, folded ann_system_db]]
  by (auto simp: ann_system_db ann_named ann_def)

text \<open>
  C22: From registration to a working token, at any later time: after a confirmed registration the
  same credentials log in, in every state the system reaches from then on, and the access token
  of the answer passes the middleware as the registered user.
\<close>

theorem register_login_authorized:
  assumes inv: "user_inv B cenv db" and laws: "jwt_laws L" and bind: "bind_register (Inr (n, p))"
    and reg: "UserController_Register (NewUserService (NewUserRepository drv) B L cenv lenv) (Inr (n, p)) c db
       = (JSON 201 [(''message'', RString ''User created successfully''), (''user_id'', RInt i)], w_db (sy_world s))"
    and run: "(sys_any drv C B view is_print)\<^sup>*\<^sup>* s s'"
    and query: "li_query lenv = plain_user_query" and accepts: "text_error drv n = None"
    and pair: "GenerateTokenPair L (li_now1 lenv) (li_now2 lenv) i secret = Inr tokens"
    and header: "ctx_header c2 ''Authorization'' = bearer (pair_AccessToken tokens)"
      "CHR '' '' \<notin> set (pair_AccessToken tokens)"
    and time: "li_now1 lenv \<le> t" "t < li_now1 lenv + 899 * second"
  shows "UserController_Login (NewUserService (NewUserRepository drv) B L cenv lenv) secret (Inr (n, p)) c
      (w_db (sy_world s')) = (JSON 200 (token_json tokens), w_db (sy_world s')) \<and>
    AuthMiddleware L t secret c2 w = (Next (set_key UserIDKey (AnyInt i) c2), w)"
proof
  from usr.Register_creates [OF inv bind reg] obtain r where
    r: "user_named (w_db (sy_world s)) n = Some r" "bcrypt_CompareHashAndPassword B (Password r) p = None"
      "user_ID r = i" by auto
  from sys_runs_users_stay [OF run] r(1) have "user_named (w_db (sy_world s')) n = Some r"
    by (simp add: users_stay_def)
  with r query accepts pair show "UserController_Login (NewUserService (NewUserRepository drv) B L cenv lenv)
      secret (Inr (n, p)) c (w_db (sy_world s')) = (JSON 200 (token_json tokens), w_db (sy_world s'))"
    by (simp add: UserController_Login_def NewUserService_def UserService_LoginUser_def NewUserRepository_def
        UserRepository_GetByUsername_def plain_user_query_def scan_user_def ComparePasswordHash_def)
  have "strings_Split CHR '' '' (bearer (pair_AccessToken tokens)) = [''Bearer'', pair_AccessToken tokens]"
    using header(2) by (simp add: bearer_def strings_Split_no_sep)
  moreover have "bearer (pair_AccessToken tokens) \<noteq> []" by (simp add: bearer_def)
  moreover have "t < li_now1 lenv + 15 * 60 * second - (li_now1 lenv + 15 * 60 * second) mod second"
    using time(2) pos_mod_bound [OF second_pos, of "li_now1 lenv + 15 * 60 * second"] by linarith
  ultimately show "AuthMiddleware L t secret c2 w = (Next (set_key UserIDKey (AnyInt i) c2), w)"
    using generateToken_life [OF laws GenerateTokenPair_Inr(1) [OF pair] time(1)] header(1)
    by (simp add: AuthMiddleware_def Let_def token_claims_def)
qed

text \<open>In the example another registration arrives in between.\<close>

lemma ann_later: "user_any\<^sup>*\<^sup>* ann_system (ann_system\<lparr>sy_requests := [Done, Registering ''ann'' ''other1'']\<rparr>)"
  using sys_step.arrive [OF arrives.intros(4) [of "''ann''" "''other1''"], of user_driver map_redis mark_bcrypt
      "\<lambda>r. r" "\<lambda>_. True" ann_system]
  by (intro r_into_rtranclp) (simp add: sys_any_def ann_system_def)

theorem register_login_authorized_witness:
  "UserController_Login example_users ''k'' (Inr (''ann'', ''secret'')) plain_ctx
     (w_db (sy_world (ann_system\<lparr>sy_requests := [Done, Registering ''ann'' ''other1'']\<rparr>))) =
     (JSON 200 (token_json example_pair), ann_users) \<and>
   AuthMiddleware example_jwt 7 ''k''
     \<lparr>ctx_keys = Map.empty, ctx_header = (\<lambda>_. bearer ''A''), ctx_param = (\<lambda>_. [])\<rparr> () =
   (Next (set_key UserIDKey (AnyInt 1)
     \<lparr>ctx_keys = Map.empty, ctx_header = (\<lambda>_. bearer ''A''), ctx_param = (\<lambda>_. [])\<rparr>), ())"
  using register_login_authorized [OF example_user_inv(1) example_jwt_laws ann_bound
      example_register [of plain_ctx, folded ann_system_db] ann_later, of "''k''" example_pair
      "\<lparr>ctx_keys = Map.empty, ctx_header = (\<lambda>_. bearer ''A''), ctx_param = (\<lambda>_. [])\<rparr>" 7 "()"]
    example_pair_generated
  by (simp add: example_login_env_def user_driver_def text_error_def example_pair_def second_def ann_system_db)

end
