(* ===== verification/Json_Utf8.thy ===== *)
theory Json_Utf8
  imports Task_Json
begin

section \<open>What the decoder stores is UTF-8\<close>

text \<open>
  Whatever bytes a document has, the strings encoding/json stores are valid UTF-8: it copies
  runes that decode, writes the runes of escapes, and puts the error rune in place of the rest.
  A task that was decoded can therefore be written and read again unchanged
  (\<open>unmarshal_task_storable\<close>, \<open>unmarshal_tasks_storable\<close>).
\<close>

subsection \<open>Runes\<close>

lemma decode_encode_rune:
  assumes "valid_rune r"
  shows "\<exists>c s. encode_rune r = c # s \<and> decode_rune c (s @ x) = (r, Suc (length s)) \<and>
    decodes c (s @ x)"
proof -
  consider "r < 128" | "128 \<le> r" "r < 2048" | "2048 \<le> r" "r < 65536" | "65536 \<le> r" by linarith
  then show ?thesis
  proof cases
    case 1
    then show ?thesis by (auto simp: encode_rune_def decode_rune_def decodes_def rune_error_def)
  next
    case 2
    then have "r div 64 < 32" "r div 64 * 64 + r mod 64 = r" by auto
    with 2 show ?thesis by (auto simp: encode_rune_def decode_rune_def decodes_def Let_def)
  next
    case 3
    have e: "r div 64 = r div 4096 * 64 + r div 64 mod 64"
      using div_mult2_eq [of r 64 64] by simp
    have "r div 4096 * 4096 + r div 64 mod 64 * 64 + r mod 64 = r"
      using e div_mult_mod_eq [of r 64] by linarith
    moreover have "r div 4096 < 16" using 3 by auto
    ultimately
    show ?thesis using 3 assms
      by (auto simp: encode_rune_def decode_rune_def decodes_def Let_def valid_rune_def)
  next
    case 4
    have e: "r div 64 = r div 4096 * 64 + r div 64 mod 64"
      using div_mult2_eq [of r 64 64] by simp
    have f: "r div 4096 = r div 262144 * 64 + r div 4096 mod 64"
      using div_mult2_eq [of r 4096 64] by simp
    have lim: "r < 1114112" using assms by (simp add: valid_rune_def)
    have "r div 262144 * 262144 + r div 4096 mod 64 * 4096 + r div 64 mod 64 * 64 + r mod 64 = r"
      using e f div_mult_mod_eq [of r 64] by linarith
    moreover have "r div 262144 < 8" using lim by auto
    ultimately show ?thesis using 4 lim by (auto simp: encode_rune_def decode_rune_def decodes_def Let_def)
  qed
qed

lemma valid_utf8_rune:
  assumes "valid_rune r" and "valid_utf8 x"
  shows "valid_utf8 (encode_rune r @ x)"
  using decode_encode_rune [OF assms(1), of x] assms(2) by (auto simp: valid_utf8.simps(2))

lemma decode_rune_valid: "decode_rune c s = (r, w) \<Longrightarrow> valid_rune r"
proof (cases "decodes c s")
  case False
  then show "decode_rune c s = (r, w) \<Longrightarrow> valid_rune r"
    by (simp add: decodes_def valid_rune_def rune_error_def is_surrogate_def)
qed (rule decode_encode(2))

lemma hex4_rune: "hex4_value a b c d = Some r \<Longrightarrow> \<not> is_surrogate r \<Longrightarrow> valid_rune r"
  by (auto simp: hex4_value_def hex_value_def valid_rune_def Let_def split: option.splits if_splits)

lemma surrogate_pair_rune: "surrogate_pair a b = Some r \<Longrightarrow> valid_rune r"
  by (auto simp: surrogate_pair_def valid_rune_def is_surrogate_def split: if_splits)

lemma rune_error_valid: "valid_rune rune_error"
  by (simp add: rune_error_def valid_rune_def is_surrogate_def)

lemma simple_escape_ascii: "simple_escape e = Some x \<Longrightarrow> (of_char x :: nat) < 128"
  by (auto simp: simple_escape_def split: if_splits)

subsection \<open>Strings and documents\<close>

lemma json_string_valid: "json_string s = Some (v, t) \<Longrightarrow> valid_utf8 v"
proof (induction s arbitrary: v t rule: length_induct)
  case (1 s)
  note IH = "1.IH" [rule_format]
  show ?case
  proof (cases s)
    case Nil
    with "1.prems" show ?thesis by simp
  next
    case (Cons c r)
    have rest: "valid_utf8 w" if "json_string x = Some (w, u)" "length x \<le> length r" for x u w
      using IH [of x w u] that Cons by simp
    from "1.prems" show ?thesis
      unfolding Cons json_string.simps(2)
      by (auto simp: prepend_Some simple_escape_ascii split: if_splits list.splits option.splits prod.splits
          intro!: valid_utf8_rune rune_error_valid intro: hex4_rune surrogate_pair_rune decode_rune_valid
          dest!: rest)
  qed
qed

text \<open>The strings of a document, names of members apart.\<close>

fun json_utf8 :: "json \<Rightarrow> bool" where
  "json_utf8 (JStr l s) = valid_utf8 s"
| "json_utf8 (JArr vs) = (\<forall>v \<in> set vs. json_utf8 v)"
| "json_utf8 (JObj ms) = (\<forall>m \<in> set ms. json_utf8 (snd m))"
| "json_utf8 _ = True"

lemma json_value_utf8:
  "json_value n d s = Some (v, t) \<Longrightarrow> json_utf8 v"
  "json_elems n d s = Some (vs, t) \<Longrightarrow> list_all json_utf8 vs"
  "json_members n d s = Some (ms, t) \<Longrightarrow> list_all (\<lambda>m. json_utf8 (snd m)) ms"
proof (induction n arbitrary: d s v vs ms t)
  case 0
  { case 1 then show ?case by simp }
  { case 2 then show ?case by simp }
  { case 3 then show ?case by simp }
next
  case (Suc n)
  { case 1
    then show ?case
      using Suc.IH(2,3) by (auto simp: json_value.simps json_literal_def list_all_iff
          split: if_splits list.splits dest: json_string_valid) }
  { case 2
    then show ?case
      using Suc.IH(1,2) by (auto simp: json_elems.simps split: if_splits list.splits option.splits) }
  { case 3
    then show ?case
      using Suc.IH(1,3) by (auto simp: json_members.simps split: if_splits list.splits option.splits) }
qed

lemma json_parse_utf8: "json_parse s = Some v \<Longrightarrow> json_utf8 v"
  using json_value_utf8(1) by (auto simp: json_parse_def split: option.splits if_splits)

subsection \<open>Decoded tasks\<close>

lemma store_task_member_storable:
  "store_task_member k v t = Some t' \<Longrightarrow> json_utf8 v \<Longrightarrow> storable t \<Longrightarrow> storable t'"
  by (auto simp: store_task_member_def atoi_range storable_def store_int_def store_string_def store_ptr_def
      split: if_splits json.splits sum.splits)

lemma store_task_members_storable:
  "store_task_members ms t = Some t' \<Longrightarrow> list_all (\<lambda>m. json_utf8 (snd m)) ms \<Longrightarrow> storable t \<Longrightarrow> storable t'"
  by (induction ms arbitrary: t) (auto split: option.splits dest: store_task_member_storable)

lemma zero_task_storable: "storable zero_task"
  by (simp add: storable_def zero_task_def in_int64_def)

lemma unmarshal_task_storable: "unmarshal_task s = Some t \<Longrightarrow> storable t"
  using zero_task_storable
  by (auto simp: unmarshal_task_def list_all_iff split: option.splits json.splits
      dest!: json_parse_utf8 elim!: store_task_members_storable)

lemma unmarshal_elem_storable: "unmarshal_elem v = Some p \<Longrightarrow> json_utf8 v \<Longrightarrow> pred_option storable p"
  using zero_task_storable
  by (auto simp: unmarshal_elem_def list_all_iff split: json.splits elim!: store_task_members_storable)

lemma those_all: "those xs = Some ys \<Longrightarrow> (\<And>x y. x \<in> set xs \<Longrightarrow> x = Some y \<Longrightarrow> P y) \<Longrightarrow> list_all P ys"
  by (induction xs arbitrary: ys) (auto split: option.splits)

lemma unmarshal_tasks_storable:
  assumes "unmarshal_tasks s = Some ts"
  shows "list_all (pred_option storable) (slice_elems ts)"
proof (cases "json_parse s = Some JNull")
  case False
  with assms obtain vs ts' where vs: "json_parse s = Some (JArr vs)"
    "those (map unmarshal_elem vs) = Some ts'" "ts = Some ts'"
    by (auto simp: unmarshal_tasks_def split: option.splits json.splits)
  from json_parse_utf8 [OF vs(1)] have "\<And>v. v \<in> set vs \<Longrightarrow> json_utf8 v" by simp
  then have "list_all (pred_option storable) ts'"
    by (intro those_all [OF vs(2)]) (auto intro: unmarshal_elem_storable)
  with vs(3) show ?thesis by simp
qed (use assms in \<open>simp add: unmarshal_tasks_def\<close>)

end
