(* ===== verification/Response_Json.thy ===== *)
theory Response_Json
  imports Task_Controller Json_Utf8 "HOL-Library.List_Lexorder" "HOL-Library.Char_ord"
begin

section \<open>The JSON text of a response\<close>

text \<open>
  What c.JSON sends: encoding/json on the body, a gin.H, which is a map, so that its members come
  in the order of their names. A client that reads the text finds every member with its value
  (\<open>gin_H_reads\<close>). The tasks of a listing are structs without tags: their members are named
  after the fields, while those of a single task are the names the handler gives.
\<close>

subsection \<open>Marshalling\<close>

text \<open>An element of a []*Task; a nil pointer is null.\<close>

definition marshal_task_ptr :: "task option \<Rightarrow> string result" where
  "marshal_task_ptr p = (case p of None \<Rightarrow> Inr ''null'' | Some t \<Rightarrow> marshal_task t)"

text \<open>The parts of an array or object, separated by commas, up to the closing bracket.\<close>

fun marshal_seq :: "string \<Rightarrow> string result list \<Rightarrow> string result" where
  "marshal_seq close [] = Inr close"
| "marshal_seq close [x] = (case x of Inl e \<Rightarrow> Inl e | Inr s \<Rightarrow> Inr (s @ close))"
| "marshal_seq close (x # xs) =
     (case x of Inl e \<Rightarrow> Inl e
      | Inr s \<Rightarrow> (case marshal_seq close xs of Inl e \<Rightarrow> Inl e | Inr r \<Rightarrow> Inr (s @ '','' @ r)))"

text \<open>The nil slice is null, an empty one that is not nil an empty array.\<close>

definition marshal_task_ptrs :: "task option list option \<Rightarrow> string result" where
  "marshal_task_ptrs ts =
     (case ts of None \<Rightarrow> Inr ''null''
      | Some ps \<Rightarrow>
          (case marshal_seq '']'' (map marshal_task_ptr ps) of Inl e \<Rightarrow> Inl e | Inr s \<Rightarrow> Inr (''['' @ s)))"

definition marshal_val :: "resp_val \<Rightarrow> string result" where
  "marshal_val v =
     (case v of RInt i \<Rightarrow> Inr (fmt_d i)
      | RString s \<Rightarrow> Inr (marshal_string s)
      | RStringPtr p \<Rightarrow> Inr (marshal_ptr p)
      | RTime t \<Rightarrow> marshal_time t
      | RTasks ts \<Rightarrow> marshal_task_ptrs ts)"

definition marshal_member :: "string \<times> resp_val \<Rightarrow> string result" where
  "marshal_member m =
     (case marshal_val (snd m) of Inl e \<Rightarrow> Inl e | Inr s \<Rightarrow> Inr (marshal_string (fst m) @ '':'' @ s))"

definition marshal_object :: "(string \<times> resp_val) list \<Rightarrow> string result" where
  "marshal_object ms =
     (case marshal_seq ''}'' (map marshal_member ms) of Inl e \<Rightarrow> Inl e | Inr s \<Rightarrow> Inr (''{'' @ s))"

definition gin_H :: "(string \<times> resp_val) list \<Rightarrow> string result" where
  "gin_H ms = marshal_object (sort_key fst ms)"

lemma marshal_seq_ok: "isl (marshal_seq close xs) \<longleftrightarrow> list_ex isl xs"
  by (induction close xs rule: marshal_seq.induct) (auto split: sum.split)

subsection \<open>What a client reads\<close>

text \<open>An object that tells a task of a listing: the names of its members are those of the fields.\<close>

definition shows_task :: "task option \<Rightarrow> json \<Rightarrow> bool" where
  "shows_task p j \<longleftrightarrow>
     (case p of None \<Rightarrow> j = JNull
      | Some t \<Rightarrow>
          (case j of JObj ms \<Rightarrow>
             map fst ms = [''ID'', ''UserID'', ''TaskType'', ''Status'', ''ResultFile'', ''ErrorMessage'',
               ''CreatedAt'', ''UpdatedAt''] \<and>
             store_task_members ms zero_task = Some t
           | _ \<Rightarrow> False))"

text \<open>The value \<open>j\<close> of a document tells the member \<open>v\<close> of a response, read as Go's decoder would.\<close>

definition json_shows :: "resp_val \<Rightarrow> json \<Rightarrow> bool" where
  "json_shows v j \<longleftrightarrow>
     (case v of RInt i \<Rightarrow> j = JNum (fmt_d i)
      | RString s \<Rightarrow> j \<noteq> JNull \<and> store_string j [] = Some s
      | RStringPtr p \<Rightarrow> store_ptr j = Some p
      | RTime t \<Rightarrow> j \<noteq> JNull \<and> store_time j zero_time = Some t
      | RTasks ts \<Rightarrow>
          (case ts of None \<Rightarrow> j = JNull
           | Some ps \<Rightarrow> (case j of JArr js \<Rightarrow> list_all2 shows_task ps js | _ \<Rightarrow> False)))"

definition val_fits :: "resp_val \<Rightarrow> bool" where
  "val_fits v =
     (case v of RInt i \<Rightarrow> True
      | RString s \<Rightarrow> valid_utf8 s
      | RStringPtr p \<Rightarrow> pred_option valid_utf8 p
      | RTime t \<Rightarrow> True
      | RTasks ts \<Rightarrow> list_all (pred_option storable) (slice_elems ts))"

text \<open>Names of members that are written as they are.\<close>

definition bare_name :: "string \<Rightarrow> bool" where
  "bare_name k \<longleftrightarrow> list_all (\<lambda>c. 32 \<le> (of_char c :: nat) \<and> (of_char c :: nat) < 128 \<and>
     (of_char c :: nat) \<notin> {34, 38, 60, 62, 92}) k"

lemma bare_name_plain: "bare_name k \<Longrightarrow> plain_name k"
  by (auto simp: bare_name_def plain_name_def list_all_iff)

lemma marshal_bare_name: "bare_name k \<Longrightarrow> marshal_string k @ '':'' @ s = marshal_key k @ s"
proof -
  have "bare_name k \<Longrightarrow> marshal_body k = k"
    by (induction k) (auto simp: bare_name_def marshal_byte_def)
  then show "bare_name k \<Longrightarrow> marshal_string k @ '':'' @ s = marshal_key k @ s"
    by (simp add: marshal_string_def marshal_key_def)
qed

subsection \<open>Reading a response\<close>

abbreviation ends_value :: "string \<Rightarrow> bool" where
  "ends_value r \<equiv> \<exists>e t. r = e # t \<and> e \<in> {CHR '','', CHR ''}'', CHR '']''}"

lemma reads_number: "ends_value r \<Longrightarrow> reads d (fmt_d i @ r) (JNum (fmt_d i)) r"
  using reads_fmt_d by (auto simp: is_digit_def)

lemma reads_array_any:
  assumes "0 < d" and "reads_elems (d - 1) (c # s) vs t" and "\<not> is_ws c" "c \<noteq> CHR '']''"
  shows "reads d (CHR ''['' # c # s) (JArr vs) t"
proof -
  from assms(2) obtain n where "json_elems n (d - 1) (c # s) = Some (vs, t)"
    unfolding reads_elems_def ..
  with assms(1,3,4) show ?thesis unfolding reads_def
    by (intro exI [of _ "Suc n"]) (simp add: json_value.simps(2) skip_ws_other)
qed

lemma reads_empty_array: "0 < d \<Longrightarrow> reads d (''[]'' @ r) (JArr []) r"
  unfolding reads_def by (intro exI [of _ "Suc 0"]) (simp add: json_value.simps(2) skip_ws_other is_ws_iff)

lemma reads_task_ptr:
  assumes "pred_option storable p" and "marshal_task_ptr p = Inr s" and "0 < d"
  shows "\<exists>v c x. reads d (s @ r) v r \<and> shows_task p v \<and> s = c # x \<and> c \<in> {CHR ''{'', CHR ''n''}"
proof (cases p)
  case None
  with assms(2) reads_word [of d r] show ?thesis
    by (auto simp: marshal_task_ptr_def shows_task_def intro!: exI [of _ JNull])
next
  case (Some t)
  with assms have t: "storable t" "marshal_task t = Inr s" by (simp_all add: marshal_task_ptr_def)
  from marshal_task_text [OF t(2)] obtain c u where c: "format_rfc3339 (CreatedAt t) = Inr c"
    and u: "format_rfc3339 (UpdatedAt t) = Inr u"
    and s: "s = task_text t ([byte 34] @ c @ [byte 34]) ([byte 34] @ u @ [byte 34])" .
  from reads_task [OF t(1) c u assms(3), of r] store_task_members_ok [OF t(1) c u] Some s show ?thesis
    by (auto simp: shows_task_def task_members_def [THEN arg_cong [of _ _ "map fst"]]
        intro!: exI [of _ "JObj (task_members t c u)"])
       (simp add: task_text_def)
qed

lemma reads_task_ptrs:
  assumes "list_all (pred_option storable) ts" and "marshal_seq '']'' (map marshal_task_ptr ts) = Inr s"
    and "ts \<noteq> []" and "0 < d"
  shows "\<exists>vs c x. reads_elems d (s @ r) vs r \<and> list_all2 shows_task ts vs \<and>
    s = c # x \<and> c \<in> {CHR ''{'', CHR ''n''}"
  using assms(1-3)
proof (induction ts arbitrary: s)
  case Nil
  then show ?case by simp
next
  case (Cons p ts)
  show ?case
  proof (cases ts)
    case Nil
    with Cons.prems obtain x where x: "marshal_task_ptr p = Inr x" "s = x @ '']''" by (auto split: sum.splits)
    from reads_task_ptr [OF _ x(1) assms(4), of "'']'' @ r"] Cons.prems
    obtain v c y where v: "reads d (x @ '']'' @ r) v ('']'' @ r)" "shows_task p v"
      "x = c # y" "c \<in> {CHR ''{'', CHR ''n''}" by auto
    then have "reads_elems d (s @ r) [v] r" using x(2) by (intro reads_elems_last) simp
    with v x Nil show ?thesis by (intro exI [of _ "[v]"]) auto
  next
    case more: (Cons p' ts')
    with Cons.prems obtain x y where x: "marshal_task_ptr p = Inr x"
      "marshal_seq '']'' (map marshal_task_ptr ts) = Inr y" "s = x @ '','' @ y"
      by (auto split: sum.splits)
    from reads_task_ptr [OF _ x(1) assms(4), of "'','' @ y @ r"] Cons.prems
    obtain v c z where v: "reads d (x @ '','' @ y @ r) v ('','' @ y @ r)" "shows_task p v"
      "x = c # z" "c \<in> {CHR ''{'', CHR ''n''}" by auto
    from Cons.IH [OF _ x(2)] Cons.prems more obtain vs where
      vs: "reads_elems d (y @ r) vs r" "list_all2 shows_task ts vs" by auto
    have "reads_elems d (s @ r) (v # vs) r"
      using v(1) vs(1) x(3) by (intro reads_elems_cons) auto
    with v vs x(3) show ?thesis by (intro exI [of _ "v # vs"]) auto
  qed
qed

lemma reads_val:
  assumes "val_fits v" and "marshal_val v = Inr s" and "1 < d" and "ends_value r"
  shows "\<exists>j. reads d (s @ r) j r \<and> json_shows v j"
proof (cases v)
  case (RInt i)
  with assms(2) reads_number [OF assms(4)] show ?thesis
    by (auto simp: marshal_val_def json_shows_def)
next
  case (RString x)
  with assms(1,2) reads_marshal_string [of x d r] show ?thesis
    by (auto simp: marshal_val_def json_shows_def val_fits_def store_string_def)
next
  case (RStringPtr p)
  have "store_ptr (ptr_json p) = Some p" by (cases p) (simp_all add: store_ptr_def ptr_json_def)
  with RStringPtr assms(1,2) reads_ptr [of p d r] show ?thesis
    by (auto simp: marshal_val_def json_shows_def val_fits_def)
next
  case (RTime t)
  with assms(2) obtain x where x: "format_rfc3339 t = Inr x" "s = [byte 34] @ x @ [byte 34]"
    by (auto simp: marshal_val_def marshal_time_def split: sum.splits)
  from reads_time [OF x(1), of d r] x RTime show ?thesis
    by (auto simp: json_shows_def store_time_def parse_format_rfc3339)
next
  case (RTasks ts)
  consider "ts = None" | "ts = Some []" | ps where "ts = Some ps" "ps \<noteq> []" by (cases ts) auto
  then show ?thesis
  proof cases
    case 1
    with RTasks assms(2) reads_word [of d r] show ?thesis
      by (auto simp: marshal_val_def marshal_task_ptrs_def json_shows_def)
  next
    case 2
    with RTasks assms(2,3) reads_empty_array [of d r] show ?thesis
      by (auto simp: marshal_val_def marshal_task_ptrs_def json_shows_def intro!: exI [of _ "JArr []"])
  next
    case (3 ps)
    with RTasks assms(2) obtain x where x: "marshal_seq '']'' (map marshal_task_ptr ps) = Inr x" "s = ''['' @ x"
      by (auto simp: marshal_val_def marshal_task_ptrs_def split: sum.splits)
    from reads_task_ptrs [OF _ x(1) 3(2), of "d - 1" r] RTasks 3(1) assms(1,3)
    obtain vs c y where vs: "reads_elems (d - 1) (x @ r) vs r" "list_all2 shows_task ps vs"
      "x = c # y" "c \<in> {CHR ''{'', CHR ''n''}" by (auto simp: val_fits_def)
    have "reads d (CHR ''['' # c # y @ r) (JArr vs) r"
      using assms(3) vs by (intro reads_array_any) (auto simp: is_ws_iff)
    with vs x RTasks 3(1) show ?thesis by (auto simp: json_shows_def)
  qed
qed

abbreviation shows_members :: "(string \<times> resp_val) list \<Rightarrow> (string \<times> json) list \<Rightarrow> bool" where
  "shows_members \<equiv> list_all2 (\<lambda>m j. fst j = fst m \<and> json_shows (snd m) (snd j))"

lemma reads_marshal_members:
  assumes "list_all (\<lambda>m. bare_name (fst m) \<and> val_fits (snd m)) ms" and "ms \<noteq> []"
    and "marshal_seq ''}'' (map marshal_member ms) = Inr s" and "1 < d"
  shows "\<exists>js k x. reads_members d (s @ r) js r \<and> shows_members ms js \<and> s = marshal_key k @ x"
  using assms(1-3)
proof (induction ms arbitrary: s)
  case Nil
  then show ?case by simp
next
  case (Cons m ms)
  then have m: "bare_name (fst m)" "val_fits (snd m)" by simp_all
  note key = reads_members_last [OF bare_name_plain [OF m(1)]] reads_members_cons [OF bare_name_plain [OF m(1)]]
  show ?case
  proof (cases ms)
    case Nil
    with Cons.prems obtain x where x: "marshal_val (snd m) = Inr x"
      "s = marshal_string (fst m) @ '':'' @ x @ ''}''" by (auto simp: marshal_member_def split: sum.splits)
    note s = x(2) [unfolded marshal_bare_name [OF m(1)]]
    from reads_val [OF m(2) x(1) assms(4), of "''}'' @ r"] obtain j where
      j: "reads d (x @ ''}'' @ r) j (''}'' @ r)" "json_shows (snd m) j" by auto
    from key(1) [OF j(1) [simplified]] j(2) Nil s show ?thesis
      by (intro exI [of _ "[(fst m, j)]"] exI [of _ "fst m"] exI [of _ "x @ ''}''"]) simp
  next
    case more: (Cons m' ms')
    with Cons.prems obtain x y where x: "marshal_val (snd m) = Inr x"
      "marshal_seq ''}'' (map marshal_member ms) = Inr y" "s = marshal_string (fst m) @ '':'' @ x @ '','' @ y"
      by (auto simp: marshal_member_def [of m] split: sum.splits)
    note s = x(3) [unfolded marshal_bare_name [OF m(1)]]
    from Cons.IH [OF _ _ x(2)] Cons.prems more obtain js where
      js: "reads_members d (y @ r) js r" "shows_members ms js" by auto
    from reads_val [OF m(2) x(1) assms(4), of "'','' @ y @ r"] obtain j where
      j: "reads d (x @ '','' @ y @ r) j ('','' @ y @ r)" "json_shows (snd m) j" by auto
    from key(2) [OF j(1) [simplified] js(1)] j(2) js(2) s show ?thesis
      by (intro exI [of _ "(fst m, j) # js"] exI [of _ "fst m"] exI [of _ "x @ '','' @ y"]) simp
  qed
qed

lemma marshal_object_reads:
  assumes "list_all (\<lambda>m. bare_name (fst m) \<and> val_fits (snd m)) ms" and "ms \<noteq> []"
    and "marshal_object ms = Inr text"
  shows "\<exists>js. json_parse text = Some (JObj js) \<and> shows_members ms js"
proof -
  from assms(3) obtain s where s: "marshal_seq ''}'' (map marshal_member ms) = Inr s" "text = CHR ''{'' # s"
    by (auto simp: marshal_object_def split: sum.splits)
  from reads_marshal_members [OF assms(1,2) s(1), of "max_nesting - 1" "[]"] obtain js k x where
    js: "reads_members (max_nesting - 1) s js []" "shows_members ms js" "s = marshal_key k @ x"
    by (auto simp: max_nesting_def)
  have "reads max_nesting text (JObj js) []"
    using reads_object [of max_nesting k x js "[]"] js by (simp add: s max_nesting_def)
  from json_parse_reads [OF this] js(2) show ?thesis by blast
qed

lemma gin_H_reads:
  assumes "list_all (\<lambda>m. bare_name (fst m) \<and> val_fits (snd m)) ms" and "ms \<noteq> []"
    and "gin_H ms = Inr text"
  shows "\<exists>js. json_parse text = Some (JObj js) \<and> shows_members (sort_key fst ms) js"
proof (rule marshal_object_reads)
  show "list_all (\<lambda>m. bare_name (fst m) \<and> val_fits (snd m)) (sort_key fst ms)"
    using assms(1) by (simp add: list_all_iff)
  show "sort_key fst ms \<noteq> []" using assms(2) length_sort [of fst ms] by (cases ms) auto
  show "marshal_object (sort_key fst ms) = Inr text" using assms(3) by (simp add: gin_H_def)
qed

text \<open>There is no text exactly when MarshalJSON refuses a time.\<close>

lemma isl_case_Inr [simp]: "isl (case x of Inl e \<Rightarrow> Inl e | Inr s \<Rightarrow> Inr (f s)) \<longleftrightarrow> isl x"
  by (cases x) simp_all

lemma marshal_task_ptr_ok: "isl (marshal_task_ptr p) \<longleftrightarrow> \<not> pred_option task_writable p"
  by (cases p) (simp_all add: marshal_task_ptr_def marshal_task_ok)

lemma marshal_task_ptrs_ok: "isl (marshal_task_ptrs ts) \<longleftrightarrow> \<not> list_all (pred_option task_writable) (slice_elems ts)"
proof (cases ts)
  case (Some ps)
  have "isl (marshal_task_ptrs ts) \<longleftrightarrow> list_ex isl (map marshal_task_ptr ps)"
    by (simp add: Some marshal_task_ptrs_def marshal_seq_ok)
  also have "\<dots> \<longleftrightarrow> \<not> list_all (pred_option task_writable) (slice_elems ts)"
    by (simp add: Some, induction ps) (simp_all add: marshal_task_ptr_ok)
  finally show ?thesis .
qed (simp add: marshal_task_ptrs_def)

definition val_writable :: "resp_val \<Rightarrow> bool" where
  "val_writable v =
     (case v of RTime t \<Rightarrow> writable t | RTasks ts \<Rightarrow> list_all (pred_option task_writable) (slice_elems ts) | _ \<Rightarrow> True)"

lemma marshal_val_ok: "isl (marshal_val v) \<longleftrightarrow> \<not> val_writable v"
proof (cases v)
  case (RTime t)
  with format_rfc3339_range [of t] show ?thesis
    by (auto simp: marshal_val_def val_writable_def marshal_time_def split: sum.splits)
qed (simp_all add: marshal_val_def marshal_task_ptrs_ok val_writable_def)

lemma marshal_object_ok: "isl (marshal_object ms) \<longleftrightarrow> \<not> list_all (\<lambda>m. val_writable (snd m)) ms"
proof -
  have "isl (marshal_object ms) \<longleftrightarrow> list_ex isl (map marshal_member ms)"
    by (simp add: marshal_object_def marshal_seq_ok)
  also have "\<dots> \<longleftrightarrow> \<not> list_all (\<lambda>m. val_writable (snd m)) ms"
    by (induction ms) (simp_all add: marshal_member_def marshal_val_ok)
  finally show ?thesis .
qed

lemma gin_H_ok: "isl (gin_H ms) \<longleftrightarrow> \<not> list_all (\<lambda>m. val_writable (snd m)) ms"
  by (simp add: gin_H_def marshal_object_ok list_all_iff)

end
