(* ===== verification/Response_Properties.thy ===== *)
theory Response_Properties
  imports Service_Properties Response_Json
begin

section \<open>Properties of the answers of the task endpoints\<close>

text \<open>
  From the handler to the client: what the text of an answer says of the task, whatever the cache
  holds (what it decodes to is always valid, theory Json_Utf8).
\<close>

lemma read_task_storable:
  assumes "wf_db (w_db w)"
    and "svc_GetTask (NewTaskService (NewTaskRepository drv) C is_print env q) i w = (Inr t, w')"
  shows "storable t"
proof (cases "cached C unmarshal_task (w_redis w) (TaskKey i)")
  case (Some x)
  with assms(2) cached_SomeD [OF Some] show ?thesis
    by (auto simp: NewTaskService_def TaskService_GetTask_def intro: unmarshal_task_storable)
next
  case None
  with assms(2) have "repo_GetByID (NewTaskRepository drv) q (w_db w) i = Inr t"
    by (auto simp: NewTaskService_def TaskService_GetTask_def split: sum.splits)
  from task_at_fits [OF assms(1) task_repo.get_ok [OF this]] show ?thesis by (rule row_fits_storable)
qed

lemma read_tasks_storable:
  assumes "wf_db (w_db w)" and "order_ok q"
    and "svc_GetTasks (NewTaskService (NewTaskRepository drv) C is_print env q) u w = (Inr ts, w')"
  shows "list_all (pred_option storable) (slice_elems ts)"
proof (cases "cached C unmarshal_tasks (w_redis w) (UserTasksKey u)")
  case (Some x)
  with assms(3) cached_SomeD [OF Some] show ?thesis
    by (auto simp: NewTaskService_def TaskService_GetTasks_def intro: unmarshal_tasks_storable)
next
  case None
  with assms(3) obtain ts' where "repo_GetByUserID (NewTaskRepository drv) q (w_db w) u = Inr ts'"
    and ts: "ts = appended (map Some ts')"
    by (auto simp: NewTaskService_def TaskService_GetTasks_def split: sum.splits)
  from task_repo.list_rows [OF assms(1,2) this(1)] task_at_fits [OF assms(1)] row_fits_storable ts
  show ?thesis by (fastforce simp: list_all_iff)
qed

lemma task_json_sorted:
  "sort_key fst (task_json t) =
     [(''created_at'', RTime (CreatedAt t)), (''error_message'', RStringPtr (ErrorMessage t)),
      (''id'', RInt (ID t)), (''result_file'', RStringPtr (ResultFile t)), (''status'', RString (Status t)),
      (''task_type'', RString (TaskType t)), (''updated_at'', RTime (UpdatedAt t)),
      (''user_id'', RInt (UserID t))]"
  by (simp add: task_json_def less_eq_char_def less_char_def)

lemma task_json_names: "list_all (\<lambda>m. bare_name (fst m)) (task_json t)"
  by (simp add: task_json_def bare_name_def)

lemma list_sorted:
  "sort_key fst [(''tasks'', RTasks ts), (''count'', RInt n)] = [(''count'', RInt n), (''tasks'', RTasks ts)]"
  by (simp add: less_eq_char_def less_char_def)


subsection \<open>The answer to GET /tasks/:id\<close>

text \<open>
  C27: What GET /tasks/:id answers reads back as the task. Whatever the cache holds, when the handler
  answers 200 with a task, the JSON text of the answer is an object with exactly the eight
  members of the handler, in the order of their names, and each reads back as the field of the
  task, texts byte by byte, null for a nil pointer, times to the nanosecond and in their zone;
  there is no text exactly when a time of the task lies, in its own zone, outside the years 0 to
  9999, or its zone is a day or more from UTC (which a cached text can say and Go then reads).
\<close>

theorem task_answer_reads_back:
  assumes "wf_db (w_db w)"
    and "TaskController_GetTask (NewTaskService (NewTaskRepository drv) C is_print env q) c w
       = (JSON 200 body, w')"
  shows "\<exists>t. body = task_json t \<and>
    (case gin_H body of
       Inl e \<Rightarrow> \<not> task_writable t
     | Inr text \<Rightarrow> task_writable t \<and> (\<exists>js. json_parse text = Some (JObj js) \<and>
         shows_members
           [(''created_at'', RTime (CreatedAt t)), (''error_message'', RStringPtr (ErrorMessage t)),
            (''id'', RInt (ID t)), (''result_file'', RStringPtr (ResultFile t)),
            (''status'', RString (Status t)), (''task_type'', RString (TaskType t)),
            (''updated_at'', RTime (UpdatedAt t)), (''user_id'', RInt (UserID t))] js))"
proof -
  from assms(2) obtain i t where body: "body = task_json t"
    and t: "svc_GetTask (NewTaskService (NewTaskRepository drv) C is_print env q) i w = (Inr t, w')"
    by (auto simp: TaskController_GetTask_def split: sum.splits if_splits prod.splits)
  have "storable t" by (rule read_task_storable [OF assms(1) t])
  then have fits: "list_all (\<lambda>m. bare_name (fst m) \<and> val_fits (snd m)) (task_json t)"
    using task_json_names [of t] by (simp add: task_json_def val_fits_def storable_def)
  have years: "isl (gin_H body) \<longleftrightarrow> \<not> task_writable t"
    by (simp add: body gin_H_ok task_json_def val_writable_def task_writable_def)
  show ?thesis
  proof (cases "gin_H body")
    case (Inl e)
    with years body show ?thesis by auto
  next
    case (Inr s)
    moreover have "task_json t \<noteq> []" by (simp add: task_json_def)
    ultimately show ?thesis
      using gin_H_reads [OF fits, of s] years by (auto simp: body task_json_sorted)
  qed
qed

theorem task_answer_reads_back_witness:
  "\<exists>text js. gin_H (task_json example_task) = Inr text \<and> json_parse text = Some (JObj js) \<and>
     map fst js = [''created_at'', ''error_message'', ''id'', ''result_file'', ''status'', ''task_type'',
       ''updated_at'', ''user_id'']"
proof -
  have wf: "wf_db (w_db example_world)" using example_inv by (rule svc_invD(3))
  have years: "task_writable example_task"
    by (simp add: task_writable_def writable_def example_task_def)
  from task_answer_reads_back [OF wf example_get] obtain t where "task_json example_task = task_json t"
    and *: "case gin_H (task_json example_task) of Inl e \<Rightarrow> \<not> task_writable t
      | Inr text \<Rightarrow> task_writable t \<and> (\<exists>js. json_parse text = Some (JObj js) \<and>
         shows_members [(''created_at'', RTime (CreatedAt t)), (''error_message'', RStringPtr (ErrorMessage t)),
            (''id'', RInt (ID t)), (''result_file'', RStringPtr (ResultFile t)),
            (''status'', RString (Status t)), (''task_type'', RString (TaskType t)),
            (''updated_at'', RTime (UpdatedAt t)), (''user_id'', RInt (UserID t))] js)" by blast
  from task_json_inject [OF this(1)] * years show ?thesis
    by (auto simp: list_all2_Cons1 split: sum.splits)
qed

text \<open>
  C28: What GET /users/tasks answers reads back as the listing. Whatever the cache holds, when the
  handler answers 200, the JSON text of the answer has the count first and then the tasks, each
  an object whose members have the names of the struct's fields (not those of GET /tasks/:id,
  which the README shows) and decode to the task. A nil slice is null, any other an array; a
  listing that does not come from the cache is never an empty array, so that a user without
  tasks gets null. There is no text exactly when some time lies, in its own zone, outside the
  years 0 to 9999, or its zone is a day or more from UTC.
\<close>

theorem listing_reads_back:
  assumes "wf_db (w_db w)" and "order_ok q"
    and "TaskController_GetTasksByUser (NewTaskService (NewTaskRepository drv) C is_print env q) c w
       = (JSON 200 body, w')"
  shows "\<exists>u ts. GetUserIDFromContext c = Inr u \<and>
    body = [(''tasks'', RTasks ts), (''count'', RInt (int (length (slice_elems ts))))] \<and>
    (cached C unmarshal_tasks (w_redis w) (UserTasksKey u) = None \<longrightarrow> ts \<noteq> Some []) \<and>
    (case gin_H body of
       Inl e \<Rightarrow> \<not> list_all (pred_option task_writable) (slice_elems ts)
     | Inr text \<Rightarrow> list_all (pred_option task_writable) (slice_elems ts) \<and>
         (\<exists>j. json_parse text =
             Some (JObj [(''count'', JNum (fmt_d (int (length (slice_elems ts))))), (''tasks'', j)]) \<and>
           (case ts of None \<Rightarrow> j = JNull | Some ps \<Rightarrow> (\<exists>js. j = JArr js \<and> list_all2 shows_task ps js))))"
proof -
  from assms(3) obtain u ts where u: "GetUserIDFromContext c = Inr u"
    and body: "body = [(''tasks'', RTasks ts), (''count'', RInt (int (length (slice_elems ts))))]"
    and ts: "svc_GetTasks (NewTaskService (NewTaskRepository drv) C is_print env q) u w = (Inr ts, w')"
    by (auto simp: TaskController_GetTasksByUser_def split: sum.splits if_splits prod.splits)
  have fresh: "cached C unmarshal_tasks (w_redis w) (UserTasksKey u) = None \<longrightarrow> ts \<noteq> Some []"
    using ts by (auto simp: NewTaskService_def TaskService_GetTasks_def appended_def split: sum.splits if_splits)
  have "list_all (pred_option storable) (slice_elems ts)" by (rule read_tasks_storable [OF assms(1,2) ts])
  then have fits: "list_all (\<lambda>m. bare_name (fst m) \<and> val_fits (snd m)) body"
    by (simp add: body val_fits_def bare_name_def)
  have years: "isl (gin_H body) \<longleftrightarrow> \<not> list_all (pred_option task_writable) (slice_elems ts)"
    by (simp add: body gin_H_ok val_writable_def)
  show ?thesis
  proof (cases "gin_H body")
    case (Inl e)
    with years body u fresh show ?thesis by auto
  next
    case (Inr s)
    from gin_H_reads [OF fits _ Inr] obtain js where js: "json_parse s = Some (JObj js)"
      "shows_members (sort_key fst body) js" by (auto simp: body)
    then obtain j where j: "js = [(''count'', JNum (fmt_d (int (length (slice_elems ts))))), (''tasks'', j)]"
      "json_shows (RTasks ts) j"
      by (auto simp: body list_sorted list_all2_Cons1 json_shows_def [of "RInt _"])
    from j(2) have "case ts of None \<Rightarrow> j = JNull | Some ps \<Rightarrow> (\<exists>js. j = JArr js \<and> list_all2 shows_task ps js)"
      by (auto simp: json_shows_def split: option.splits json.splits)
    with Inr js(1) j(1) years body u fresh show ?thesis by auto
  qed
qed

text \<open>The cache holds an empty array: the answer is an empty array too.\<close>

definition empty_cached :: "(string \<rightharpoonup> string) svc_world" where
  "empty_cached = example_world\<lparr>w_redis := [UserTasksKey 3 \<mapsto> ''[]'']\<rparr>"

lemma empty_cached_list: "TaskController_GetTasksByUser example_service example_ctx empty_cached =
    (JSON 200 [(''tasks'', RTasks (Some [])), (''count'', RInt 0)], empty_cached)"
proof -
  have "json_parse (''[]'' @ []) = Some (JArr [])"
    by (rule json_parse_reads [OF reads_empty_array]) (simp add: max_nesting_def)
  then show ?thesis using example_user
    by (simp add: TaskController_GetTasksByUser_def NewTaskService_def TaskService_GetTasks_def cached_def
        TaskCache_Get_def map_redis_def empty_cached_def unmarshal_tasks_def)
qed

theorem listing_reads_back_witness:
  "(\<exists>text j. gin_H [(''tasks'', RTasks (Some [Some example_task])), (''count'', RInt 1)] = Inr text \<and>
     json_parse text = Some (JObj [(''count'', JNum (fmt_d 1)), (''tasks'', JArr [j])]) \<and>
     shows_task (Some example_task) j) \<and>
   (\<exists>text. gin_H [(''tasks'', RTasks (Some [])), (''count'', RInt 0)] = Inr text \<and>
     json_parse text = Some (JObj [(''count'', JNum (fmt_d 0)), (''tasks'', JArr [])]))"
proof
  have wf: "wf_db (w_db example_world)" using example_inv by (rule svc_invD(3))
  have years: "task_writable example_task"
    by (simp add: task_writable_def writable_def example_task_def)
  from listing_reads_back [OF wf order_ok_plain example_list] years
  show "\<exists>text j. gin_H [(''tasks'', RTasks (Some [Some example_task])), (''count'', RInt 1)] = Inr text \<and>
     json_parse text = Some (JObj [(''count'', JNum (fmt_d 1)), (''tasks'', JArr [j])]) \<and>
     shows_task (Some example_task) j"
    by (fastforce simp: list_all2_Cons1 split: sum.splits)
  from wf have "wf_db (w_db empty_cached)" by (simp add: empty_cached_def)
  from listing_reads_back [OF this order_ok_plain empty_cached_list]
  show "\<exists>text. gin_H [(''tasks'', RTasks (Some [])), (''count'', RInt 0)] = Inr text \<and>
     json_parse text = Some (JObj [(''count'', JNum (fmt_d 0)), (''tasks'', JArr [])])"
    by (auto split: sum.splits)
qed

end
